(* ===== verification/Prelude.thy ===== *)
theory Prelude
  imports Complex_Main "HOL-Library.Word" "HOL-Library.Multiset"
begin

text \<open>
  What every component shares: the Go values the program is built from (integers,
  identifiers, instants, errors), the outcome of running a piece of Go code, and the list
  and map lemmas the component theories use.

  A Go statement sequence may return, may panic, or may wait for a lock for ever. These are
  the three constructors of \<open>result\<close>; each carries the state in which it happened, so a
  property can speak of what a panic or a blocked goroutine leaves behind.
\<close>

section \<open>Values\<close>

type_synonym go_int = "64 word"          \<comment> \<open>Go's \<open>int\<close> and \<open>int64\<close>, read with \<open>sint\<close>\<close>
type_synonym uuid = "128 word"           \<comment> \<open>\<open>uuid.UUID\<close>, sixteen bytes\<close>
type_synonym time = int                  \<comment> \<open>\<open>time.Time\<close> in nanoseconds since the zero instant\<close>
type_synonym error = string              \<comment> \<open>the text of a non-nil \<open>error\<close>\<close>
type_synonym ptr = nat                   \<comment> \<open>a non-nil \<open>*task.Task\<close>: a cell of the store\<close>

definition seconds :: "int \<Rightarrow> time" where
  "seconds n = n * 1000000000"

definition hours :: "int \<Rightarrow> time" where
  "hours n = seconds (n * 3600)"

text \<open>Go's \<open>/\<close> and \<open>%\<close> on \<open>int\<close> truncate towards zero.\<close>

definition go_div :: "go_int \<Rightarrow> go_int \<Rightarrow> go_int" where
  "go_div a b = word_of_int (sgn (sint a) * sgn (sint b) * (\<bar>sint a\<bar> div \<bar>sint b\<bar>))"

definition go_rem :: "go_int \<Rightarrow> go_int \<Rightarrow> go_int" where
  "go_rem a b = word_of_int (sgn (sint a) * (\<bar>sint a\<bar> mod \<bar>sint b\<bar>))"

definition go_len :: "'a list \<Rightarrow> go_int" where
  "go_len xs = word_of_nat (length xs)"

definition go_min :: "go_int \<Rightarrow> go_int \<Rightarrow> go_int" where
  "go_min a b = (if sint b < sint a then b else a)"

text \<open>
  \<open>xs[a:b]\<close>, \<open>None\<close> when the bounds are wrong. Go allows \<open>b\<close> up to the capacity of the slice; the
  program only ever slices up to its length.
\<close>

definition go_slice :: "'a list \<Rightarrow> go_int \<Rightarrow> go_int \<Rightarrow> 'a list option" where
  "go_slice xs a b =
     (if 0 \<le> sint a \<and> sint a \<le> sint b \<and> sint b \<le> int (length xs)
      then Some (take (nat (sint b) - nat (sint a)) (drop (nat (sint a)) xs)) else None)"

text \<open>Arithmetic that does not leave the range of \<open>int\<close> is exact.\<close>

lemma sint_of_int: "- (2 ^ 63) \<le> x \<Longrightarrow> x < 2 ^ 63 \<Longrightarrow> sint (word_of_int x :: go_int) = x"
  by (simp add: sint_sbintrunc' signed_take_bit_int_eq_self)

lemma go_int_range: "- (2 ^ 63) \<le> sint (w :: go_int)" "sint (w :: go_int) < 2 ^ 63"
  using sint_range_size [of w] by (simp_all add: word_size)

lemma sint_add_exact:
  "- (2 ^ 63) \<le> sint a + sint b \<Longrightarrow> sint a + sint b < 2 ^ 63 \<Longrightarrow> sint (a + b :: go_int) = sint a + sint b"
  using sint_of_int [of "sint a + sint b"] by simp

lemma sint_diff_exact:
  "- (2 ^ 63) \<le> sint a - sint b \<Longrightarrow> sint a - sint b < 2 ^ 63 \<Longrightarrow> sint (a - b :: go_int) = sint a - sint b"
  using sint_of_int [of "sint a - sint b"] by simp

lemma sint_mult_exact:
  "- (2 ^ 63) \<le> sint a * sint b \<Longrightarrow> sint a * sint b < 2 ^ 63 \<Longrightarrow> sint (a * b :: go_int) = sint a * sint b"
  using sint_of_int [of "sint a * sint b"] by simp

lemma sint_go_len: "int (length xs) < 2 ^ 63 \<Longrightarrow> sint (go_len xs) = int (length xs)"
  using sint_of_int [of "int (length xs)"] by (simp add: go_len_def)

lemma sint_go_div:
  assumes "0 \<le> sint a" and "0 < sint b"
  shows "sint (go_div a b) = sint a div sint b"
proof -
  have "sgn (sint a) * sgn (sint b) * (\<bar>sint a\<bar> div \<bar>sint b\<bar>) = sint a div sint b"
    using assms by (cases "sint a = 0") auto
  moreover have "0 \<le> sint a div sint b" "sint a div sint b \<le> sint a"
    using assms zdiv_mono2 [of "sint a" 1 "sint b"] by (auto simp: pos_imp_zdiv_nonneg_iff)
  ultimately show ?thesis
    unfolding go_div_def using go_int_range [of a] by (simp add: sint_of_int)
qed

section \<open>Outcomes\<close>

datatype panic = NilDeref | IndexOutOfRange | SliceBounds | TypeAssertion | FatalUnlock

datatype ('a, 's) result = Return 'a 's | Panic panic 's | Blocked 's

fun state_of :: "('a, 's) result \<Rightarrow> 's" where
  "state_of (Return a s) = s"
| "state_of (Panic p s) = s"
| "state_of (Blocked s) = s"

fun andthen :: "('a, 's) result \<Rightarrow> ('a \<Rightarrow> 's \<Rightarrow> ('b, 's) result) \<Rightarrow> ('b, 's) result" where
  "andthen (Return a s) k = k a s"
| "andthen (Panic p s) k = Panic p s"
| "andthen (Blocked s) k = Blocked s"

fun map_state :: "('s \<Rightarrow> 't) \<Rightarrow> ('a, 's) result \<Rightarrow> ('a, 't) result" where
  "map_state f (Return a s) = Return a (f s)"
| "map_state f (Panic p s) = Panic p (f s)"
| "map_state f (Blocked s) = Blocked (f s)"

fun waits :: "('a, 's) result \<Rightarrow> bool" where
  "waits (Return a s) = False"
| "waits (Panic p s) = False"
| "waits (Blocked s) = True"

fun returns :: "('a, 's) result \<Rightarrow> bool" where
  "returns (Return a s) = True"
| "returns (Panic p s) = False"
| "returns (Blocked s) = False"

lemma andthen_Return_iff:
  "andthen r k = Return b t \<longleftrightarrow> (\<exists>a s. r = Return a s \<and> k a s = Return b t)"
  by (cases r) auto

lemma state_of_map_state [simp]: "state_of (map_state f r) = f (state_of r)"
  by (cases r) simp_all

lemma andthen_assoc: "andthen (andthen r k) l = andthen r (\<lambda>a s. andthen (k a s) l)"
  by (cases r) auto

lemma returns_iff: "returns r \<longleftrightarrow> (\<exists>a s. r = Return a s)"
  by (cases r) auto

text \<open>A loop over a slice: the body runs on each element, in order, until one does not return.\<close>

fun for_each :: "('x \<Rightarrow> 's \<Rightarrow> (unit, 's) result) \<Rightarrow> 'x list \<Rightarrow> 's \<Rightarrow> (unit, 's) result" where
  "for_each body [] s = Return () s"
| "for_each body (x # xs) s = andthen (body x s) (\<lambda>_. for_each body xs)"

lemma for_each_append:
  "for_each body (xs @ ys) s = andthen (for_each body xs s) (\<lambda>_. for_each body ys)"
proof (induction xs arbitrary: s)
  case (Cons x xs)
  then have "for_each body (xs @ ys) = (\<lambda>t. andthen (for_each body xs t) (\<lambda>_. for_each body ys))"
    by (intro ext)
  then show ?case by (simp add: andthen_assoc)
qed simp

lemma for_each_invariant:
  assumes "\<And>x s t. x \<in> set xs \<Longrightarrow> I s \<Longrightarrow> body x s = Return () t \<Longrightarrow> I t"
    and "I s" and "for_each body xs s = Return () t"
  shows "I t"
  using assms
proof (induction xs arbitrary: s)
  case Nil
  then show ?case by simp
next
  case (Cons x xs)
  from Cons.prems(3) obtain u where u: "body x s = Return () u" "for_each body xs u = Return () t"
    by (auto simp: andthen_Return_iff)
  have "I u" using Cons.prems(1) [of x s u] Cons.prems(2) u(1) by simp
  moreover have "\<And>y s t. y \<in> set xs \<Longrightarrow> I s \<Longrightarrow> body y s = Return () t \<Longrightarrow> I t"
    using Cons.prems(1) by (metis list.set_intros(2))
  ultimately show ?case using Cons.IH [of u] u(2) by blast
qed

section \<open>Lists and maps\<close>

text \<open>\<open>copy(xs[d:], xs[s:])\<close> inside one slice.\<close>

definition copy_within :: "'a list \<Rightarrow> nat \<Rightarrow> nat \<Rightarrow> 'a list" where
  "copy_within xs d s =
     (let k = min (length xs - d) (length xs - s)
      in take d xs @ take k (drop s xs) @ drop (d + k) xs)"

lemma insert_by_copy:
  assumes "i \<le> length xs"
  shows "(copy_within (xs @ [z]) (Suc i) i)[i := y] = take i xs @ y # drop i xs"
proof -
  have "copy_within (xs @ [z]) (Suc i) i = take (Suc i) (xs @ [z]) @ drop i xs"
    using assms by (simp add: copy_within_def Let_def min_absorb1 Suc_diff_le)
  also have "take (Suc i) (xs @ [z]) = take i (xs @ [z]) @ [(xs @ [z]) ! i]"
    by (rule take_Suc_conv_app_nth) (use assms in simp)
  also have "take i (xs @ [z]) = take i xs"
    using assms by simp
  finally have "copy_within (xs @ [z]) (Suc i) i = take i xs @ (xs @ [z]) ! i # drop i xs"
    by simp
  then show ?thesis using assms by (simp add: list_update_append min_def)
qed

definition lookup_default :: "'v \<Rightarrow> ('k \<rightharpoonup> 'v) \<Rightarrow> 'k \<Rightarrow> 'v" where
  "lookup_default d m k = (case m k of None \<Rightarrow> d | Some v \<Rightarrow> v)"

lemma lookup_default_upd [simp]:
  "lookup_default d (m(k \<mapsto> v)) j = (if j = k then v else lookup_default d m j)"
  by (simp add: lookup_default_def)

lemma lookup_default_empty [simp]: "lookup_default d (\<lambda>_. None) j = d"
  by (simp add: lookup_default_def)

end
