(* ===== verification/Go_Strings.thy ===== *)
theory Go_Strings
  imports Prelude
begin

text \<open>
  The parts of Go's \<open>strings\<close>, \<open>strconv\<close> and \<open>fmt\<close> that the program uses. A Go string is a
  sequence of bytes, so it is a HOL \<open>string\<close> whose characters are the bytes.
\<close>

section \<open>Searching and splitting\<close>

definition HasPrefix :: "string \<Rightarrow> string \<Rightarrow> bool" where
  "HasPrefix s p \<longleftrightarrow> take (length p) s = p"

fun Contains :: "string \<Rightarrow> string \<Rightarrow> bool" where
  "Contains [] sub = (sub = [])"
| "Contains (c # s) sub = (HasPrefix (c # s) sub \<or> Contains s sub)"

text \<open>\<open>strings.SplitN(s, sep, 2)\<close> for a separator of one byte.\<close>

definition SplitN2 :: "string \<Rightarrow> char \<Rightarrow> string list" where
  "SplitN2 s c =
     (case dropWhile (\<lambda>x. x \<noteq> c) s of [] \<Rightarrow> [s] | _ # rest \<Rightarrow> [takeWhile (\<lambda>x. x \<noteq> c) s, rest])"

text \<open>\<open>strings.Split(s, sep)\<close> for a separator of one byte.\<close>

fun Split :: "string \<Rightarrow> char \<Rightarrow> string list" where
  "Split [] c = [[]]"
| "Split (x # s) c =
     (if x = c then [] # Split s c
      else case Split s c of [] \<Rightarrow> [[x]] | w # ws \<Rightarrow> (x # w) # ws)"

text \<open>Putting the separators back.\<close>

fun join :: "char \<Rightarrow> string list \<Rightarrow> string" where
  "join c [] = []"
| "join c [w] = w"
| "join c (w # v # ws) = w @ c # join c (v # ws)"

lemma Split_nonempty: "Split s c \<noteq> []"
  by (cases s) (auto split: list.splits)

lemma join_Split: "join c (Split s c) = s"
proof (induction s)
  case (Cons x s)
  obtain w ws where w: "Split s c = w # ws" using Split_nonempty by (cases "Split s c") auto
  with Cons show ?case by (cases ws) auto
qed simp

lemma Split_pieces: "w \<in> set (Split s c) \<Longrightarrow> c \<notin> set w"
proof (induction s arbitrary: w)
  case (Cons x s)
  then show ?case by (cases "Split s c") (auto simp: Split_nonempty split: if_splits)
qed simp

lemma SplitN2_sep:
  assumes "c \<notin> set u"
  shows "SplitN2 (u @ c # v) c = [u, v]"
proof -
  have "dropWhile (\<lambda>x. x \<noteq> c) (u @ c # v) = c # v"
    using assms by (induction u) auto
  moreover have "takeWhile (\<lambda>x. x \<noteq> c) (u @ c # v) = u"
    using assms by (induction u) auto
  ultimately show ?thesis by (simp add: SplitN2_def)
qed

lemma SplitN2_nosep: "c \<notin> set s \<Longrightarrow> SplitN2 s c = [s]"
proof -
  assume "c \<notin> set s"
  then have "dropWhile (\<lambda>x. x \<noteq> c) s = []" by (auto simp: dropWhile_eq_Nil_conv)
  then show ?thesis by (simp add: SplitN2_def del: dropWhile_eq_Nil_conv)
qed

lemma SplitN2_cases:
  obtains "c \<notin> set s" "SplitN2 s c = [s]"
  | u v where "s = u @ c # v" "c \<notin> set u" "SplitN2 s c = [u, v]"
proof (cases "c \<in> set s")
  case True
  then obtain u v where "s = u @ c # v" "c \<notin> set u" using split_list_first by metis
  then show ?thesis using that(2) SplitN2_sep by blast
next
  case False
  then show ?thesis using that(1) SplitN2_nosep by blast
qed

section \<open>TrimSpace\<close>

text \<open>
  \<open>strings.TrimSpace\<close> removes the runes of Unicode's White\_Space at both ends. The width of the
  white-space rune a byte sequence starts with (0 if it starts with none); the multi-byte runes
  are U+0085, U+00A0, U+1680, U+2000 to U+200A, U+2028, U+2029, U+202F, U+205F and U+3000.
\<close>

definition byte_at :: "string \<Rightarrow> nat \<Rightarrow> nat" where
  "byte_at s i = (if i < length s then of_char (s ! i) else 0)"

definition space_width :: "string \<Rightarrow> nat" where
  "space_width s =
     (let a = byte_at s 0; b = byte_at s 1; c = byte_at s 2 in
      if s = [] then 0
      else if (9 \<le> a \<and> a \<le> 13) \<or> a = 32 then 1
      else if a = 194 \<and> (b = 133 \<or> b = 160) then 2
      else if a = 225 \<and> b = 154 \<and> c = 128 then 3
      else if a = 226 \<and> b = 128 \<and> ((128 \<le> c \<and> c \<le> 138) \<or> c = 168 \<or> c = 169 \<or> c = 175) then 3
      else if a = 226 \<and> b = 129 \<and> c = 159 then 3
      else if a = 227 \<and> b = 128 \<and> c = 128 then 3
      else 0)"

lemma space_width_bound: "space_width s \<le> length s"
  by (cases s rule: list.exhaust; cases "tl s"; cases "tl (tl s)")
    (auto simp: space_width_def byte_at_def Let_def)

function trim_left :: "string \<Rightarrow> string" where
  "trim_left s = (if space_width s = 0 then s else trim_left (drop (space_width s) s))"
  by pat_completeness auto
termination
proof (relation "measure length", goal_cases)
  case (2 s)
  then have "s \<noteq> []" by (auto simp: space_width_def)
  with 2 show ?case by simp
qed simp

text \<open>On the right the last rune is looked at, which the reversed bytes start with.\<close>

definition last_space_width :: "string \<Rightarrow> nat" where
  "last_space_width s =
     (if space_width (drop (length s - 1) s) = 1 then 1
      else if 2 \<le> length s \<and> space_width (drop (length s - 2) s) = 2 then 2
      else if 3 \<le> length s \<and> space_width (drop (length s - 3) s) = 3 then 3
      else 0)"

function trim_right :: "string \<Rightarrow> string" where
  "trim_right s =
     (if s = [] \<or> last_space_width s = 0 then s
      else trim_right (take (length s - last_space_width s) s))"
  by pat_completeness auto
termination by (relation "measure length") auto

declare trim_left.simps [simp del] trim_right.simps [simp del]

definition TrimSpace :: "string \<Rightarrow> string" where
  "TrimSpace s = trim_right (trim_left s)"

lemma trim_left_suffix: "\<exists>u. s = u @ trim_left s"
proof (induction s rule: trim_left.induct)
  case (1 s)
  show ?case
  proof (cases "space_width s = 0")
    case True
    then show ?thesis by (simp add: trim_left.simps [of s])
  next
    case False
    with 1 obtain u where "drop (space_width s) s = u @ trim_left (drop (space_width s) s)" by blast
    then have "s = (take (space_width s) s @ u) @ trim_left (drop (space_width s) s)"
      by (metis append_assoc append_take_drop_id)
    with False show ?thesis by (metis trim_left.simps [of s])
  qed
qed

lemma trim_right_prefix: "\<exists>u. s = trim_right s @ u"
proof (induction s rule: trim_right.induct)
  case (1 s)
  let ?t = "take (length s - last_space_width s) s"
  show ?case
  proof (cases "s = [] \<or> last_space_width s = 0")
    case True
    then show ?thesis by (simp add: trim_right.simps [of s])
  next
    case False
    with 1 obtain u where "?t = trim_right ?t @ u" by blast
    then have "s = trim_right ?t @ (u @ drop (length s - last_space_width s) s)"
      by (metis append_assoc append_take_drop_id)
    with False show ?thesis by (metis trim_right.simps [of s])
  qed
qed

text \<open>What is left is a piece of the string with no white space at its ends.\<close>

lemma TrimSpace_piece: "\<exists>u v. s = u @ TrimSpace s @ v"
  by (metis TrimSpace_def trim_left_suffix trim_right_prefix)

lemma TrimSpace_length: "length (TrimSpace s) \<le> length s"
  using TrimSpace_piece [of s] by (metis le_add1 le_add2 le_trans length_append)

lemma TrimSpace_Nil [simp]: "TrimSpace [] = []"
  by (simp add: TrimSpace_def trim_left.simps trim_right.simps space_width_def)

text \<open>A string that neither starts nor ends with a space is not changed.\<close>

lemma TrimSpace_id: "space_width s = 0 \<Longrightarrow> last_space_width s = 0 \<Longrightarrow> TrimSpace s = s"
  by (simp add: TrimSpace_def trim_left.simps [of s] trim_right.simps [of s])

section \<open>Decimal numbers\<close>

definition digit_value :: "char \<Rightarrow> nat option" where
  "digit_value c =
     (if 48 \<le> (of_char c :: nat) \<and> (of_char c :: nat) \<le> 57 then Some (of_char c - 48) else None)"

fun digits_value :: "nat \<Rightarrow> string \<Rightarrow> nat option" where
  "digits_value acc [] = Some acc"
| "digits_value acc (c # s) =
     (case digit_value c of None \<Rightarrow> None | Some d \<Rightarrow> digits_value (10 * acc + d) s)"

text \<open>
  \<open>strconv.Atoi\<close>: an optional sign and at least one decimal digit, the value in the range of
  \<open>int\<close>; \<open>None\<close> is a non-nil error.
\<close>

definition in_int_range :: "int \<Rightarrow> bool" where
  "in_int_range i \<longleftrightarrow> - (2 ^ 63) \<le> i \<and> i < 2 ^ 63"

definition signed_value :: "int \<Rightarrow> string \<Rightarrow> go_int option" where
  "signed_value sign ds =
     (if ds = [] then None
      else case digits_value 0 ds of
             None \<Rightarrow> None
           | Some n \<Rightarrow> if in_int_range (sign * int n) then Some (word_of_int (sign * int n)) else None)"

fun Atoi :: "string \<Rightarrow> go_int option" where
  "Atoi [] = None"
| "Atoi (c # s) =
     (if c = CHR ''-'' then signed_value (-1) s
      else if c = CHR ''+'' then signed_value 1 s
      else signed_value 1 (c # s))"

text \<open>\<open>%d\<close>.\<close>

fun show_nat :: "nat \<Rightarrow> string" where
  "show_nat n = (if n < 10 then [char_of (48 + n)] else show_nat (n div 10) @ [char_of (48 + n mod 10)])"

declare show_nat.simps [simp del]

definition show_int :: "go_int \<Rightarrow> string" where
  "show_int w = (if sint w < 0 then CHR ''-'' # show_nat (nat (- sint w)) else show_nat (nat (sint w)))"

lemma digits_value_append:
  "digits_value acc (s @ t) = (case digits_value acc s of None \<Rightarrow> None | Some a \<Rightarrow> digits_value a t)"
  by (induction s arbitrary: acc) (auto split: option.splits)

lemma digit_value_char [simp]: "n < 10 \<Longrightarrow> digit_value (char_of (48 + n :: nat)) = Some n"
  by (simp add: digit_value_def)

lemma digits_value_show: "digits_value 0 (show_nat n) = Some n"
proof (induction n rule: show_nat.induct)
  case (1 n)
  then show ?case
    by (cases "n < 10") (simp_all add: show_nat.simps [of n] digits_value_append)
qed

lemma show_nat_nonempty: "show_nat n \<noteq> []"
  by (simp add: show_nat.simps [of n])

lemma show_nat_first: "hd (show_nat n) \<noteq> CHR ''-'' \<and> hd (show_nat n) \<noteq> CHR ''+''"
proof (induction n rule: show_nat.induct)
  case (1 n)
  have "digit_value (CHR ''-'') = None" "digit_value (CHR ''+'') = None"
    by (simp_all add: digit_value_def)
  then have "n < 10 \<Longrightarrow> (char_of (48 + n) :: char) \<noteq> CHR ''-'' \<and> (char_of (48 + n) :: char) \<noteq> CHR ''+''"
    using digit_value_char [of n] by (metis option.distinct(1))
  with 1 show ?case
    by (cases "n < 10") (simp_all add: show_nat.simps [of n] hd_append show_nat_nonempty)
qed

text \<open>Reading back what was printed.\<close>

lemma Atoi_show_int: "Atoi (show_int w) = Some w"
proof -
  have r: "- (2 ^ 63) \<le> sint w \<and> sint w < 2 ^ 63"
    using sint_range_size [of w] by (simp add: word_size)
  obtain c s where c: "show_nat (nat (sint w)) = c # s" "c \<noteq> CHR ''-''" "c \<noteq> CHR ''+''"
    using show_nat_first [of "nat (sint w)"] show_nat_nonempty [of "nat (sint w)"]
    by (cases "show_nat (nat (sint w))") auto
  have d: "digits_value 0 (c # s) = Some (nat (sint w))"
    using digits_value_show [of "nat (sint w)"] c(1) by simp
  show ?thesis
    using r c digits_value_show d show_nat_nonempty
    by (auto simp: show_int_def signed_value_def in_int_range_def simp del: digits_value.simps)
qed

end
