(* ===== verification/Task.thy ===== *)
theory Task
  imports Go_Strings
begin

text \<open>
  Package \<open>task\<close> (\<open>src/task/task.go\<close>, \<open>src/task/state_machine.go\<close>) and \<open>src/node/node.go\<close>: the task record,
  its states and events, the store of task cells a process keeps, and the wrapper around the
  Docker client.

  The Docker engine and its client library are not part of the repository. They are the
  parameter \<open>docker_api\<close>: one function per client call, over an arbitrary type of engine states.
\<close>

section \<open>Tasks\<close>

datatype state = Pending | Scheduled | Running | Completed | Failed

text \<open>
  A state is an \<open>int\<close> numbered by \<open>iota\<close>; the order of the states is that of their numbers. The code
  only writes these five. Another number can come in with a JSON message (a reported task, a task
  event); it has no counterpart here, so what is proved is about messages whose states are among
  the five.
\<close>

definition state_code :: "state \<Rightarrow> nat" where
  "state_code s =
     (case s of Pending \<Rightarrow> 0 | Scheduled \<Rightarrow> 1 | Running \<Rightarrow> 2 | Completed \<Rightarrow> 3 | Failed \<Rightarrow> 4)"

lemma state_code_inject: "state_code a = state_code b \<longleftrightarrow> a = b"
  by (cases a; cases b) (simp_all add: state_code_def)

instantiation state :: linorder
begin

definition less_eq_state :: "state \<Rightarrow> state \<Rightarrow> bool" where
  "less_eq_state a b \<longleftrightarrow> state_code a \<le> state_code b"

definition less_state :: "state \<Rightarrow> state \<Rightarrow> bool" where
  "less_state a b \<longleftrightarrow> state_code a < state_code b"

instance
  by standard (auto simp: less_eq_state_def less_state_def state_code_inject)

end

type_synonym port_set = "string set"                              \<comment> \<open>\<open>nat.PortSet\<close>\<close>
type_synonym port_map = "string \<rightharpoonup> (string \<times> string) list"         \<comment> \<open>\<open>nat.PortMap\<close>: host address and port\<close>

record task =
  ID :: uuid
  ContainerID :: string
  CorrelationID :: string
  Name :: string
  State :: state
  Image :: string
  Memory :: go_int
  Disk :: go_int
  ExposedPortSet :: port_set
  HostPorts :: port_map
  PortBindings :: "string \<rightharpoonup> string"
  RestartPolicy :: string
  StartTime :: time
  EndTime :: time
  HealthCheck :: string
  RetryCount :: go_int
  MaxRetryCount :: go_int

definition zero_task :: task where
  "zero_task =
     \<lparr>ID = 0, ContainerID = [], CorrelationID = [], Name = [], State = Pending, Image = [],
      Memory = 0, Disk = 0, ExposedPortSet = {}, HostPorts = (\<lambda>_. None), PortBindings = (\<lambda>_. None),
      RestartPolicy = [], StartTime = 0, EndTime = 0, HealthCheck = [], RetryCount = 0,
      MaxRetryCount = 0\<rparr>"

record start_task_request =
  req_Name :: string
  req_Image :: string
  req_Memory :: go_int
  req_Disk :: go_int
  req_RestartPolicy :: string
  req_PortBindings :: "string \<rightharpoonup> string"

record task_event =
  ev_ID :: uuid
  ev_State :: state
  ev_Timestamp :: time
  ev_Task :: task

record node =
  n_Name :: string
  n_Ip :: string
  n_Cores :: go_int
  n_Memory :: go_int
  n_MemoryAllocated :: go_int
  n_Disk :: go_int
  n_DiskAllocated :: go_int
  n_Role :: string
  n_TaskCount :: go_int

section \<open>The store of task cells\<close>

text \<open>
  Both processes share tasks by pointer: the queue, the task database and the sorted list of the
  manager may hold the same \<open>*task.Task\<close>, and a write through one is seen through the others.
  A process therefore keeps a store of cells, and its containers hold cell numbers.
\<close>

record heap =
  cells :: "ptr \<Rightarrow> task"
  fresh :: ptr

definition empty_heap :: heap where
  "empty_heap = \<lparr>cells = (\<lambda>_. zero_task), fresh = 0\<rparr>"

definition alloc :: "task \<Rightarrow> heap \<Rightarrow> ptr \<times> heap" where
  "alloc t h = (fresh h, h\<lparr>cells := (cells h)(fresh h := t), fresh := Suc (fresh h)\<rparr>)"

definition write_cell :: "ptr \<Rightarrow> (task \<Rightarrow> task) \<Rightarrow> heap \<Rightarrow> heap" where
  "write_cell p f h = h\<lparr>cells := (cells h)(p := f (cells h p))\<rparr>"

lemma cells_write_cell [simp]: "cells (write_cell p f h) q = (if q = p then f (cells h p) else cells h q)"
  by (simp add: write_cell_def)

lemma fresh_write_cell [simp]: "fresh (write_cell p f h) = fresh h"
  by (simp add: write_cell_def)

section \<open>The Docker client\<close>

record config =
  cfg_Name :: string
  cfg_AttachStdin :: bool
  cfg_AttachStdout :: bool
  cfg_AttachStderr :: bool
  cfg_Cmd :: "string list"
  cfg_CPU :: real
  cfg_Image :: string
  cfg_Memory :: go_int
  cfg_Disk :: go_int
  cfg_Env :: "string list"
  cfg_RestartPolicy :: string

record docker =
  d_Config :: config
  ContainerId :: string

record docker_result =
  Error :: "error option"
  Action :: string
  r_ContainerId :: string
  Result :: string

definition zero_result :: docker_result where
  "zero_result = \<lparr>Error = None, Action = [], r_ContainerId = [], Result = []\<rparr>"

record container_state =
  Status :: string
  c_Running :: bool

record container_json =
  c_State :: "container_state option"        \<comment> \<open>a pointer, possibly nil\<close>
  c_Ports :: "port_map option"               \<comment> \<open>\<open>NetworkSettings.Ports\<close>; \<open>None\<close> when \<open>NetworkSettings\<close> is nil\<close>

record inspect_response =
  i_Error :: "error option"
  Container :: "container_json option"

text \<open>The bytes a stream will deliver, and the error that ends it (\<open>None\<close> for end of file).\<close>

type_synonym log_stream = "string \<times> error option"

text \<open>
  The reader \<open>ContainerLogs\<close> gives belongs to the context of its request: \<open>r_live\<close> is what it delivers
  while that context lives, \<open>r_cancelled\<close> what it still delivers once the context is cancelled.
\<close>

record logs_reader =
  r_live :: log_stream
  r_cancelled :: log_stream

record logs_response =
  l_Error :: "error option"
  LogStream :: "log_stream option"           \<comment> \<open>\<open>None\<close> for a nil stream\<close>

record logs_options =
  ShowStdout :: bool
  ShowStderr :: bool
  Since :: string
  Until :: string
  Timestamps :: bool
  Follow :: bool
  Tail :: string
  Details :: bool

record create_request =
  cr_Image :: string
  cr_Env :: "string list"
  cr_Cmd :: "string list"
  cr_RestartPolicy :: string
  cr_Memory :: go_int
  cr_PublishAllPorts :: bool
  cr_Name :: string

record 'd docker_api =
  NewClientOk :: bool                                         \<comment> \<open>\<open>NewClientWithOpts\<close> gives a client\<close>
  ImagePull :: "string \<Rightarrow> 'd \<Rightarrow> error option \<times> 'd"
  ContainerCreate :: "create_request \<Rightarrow> 'd \<Rightarrow> (error + string) \<times> 'd"
  ContainerStart :: "string \<Rightarrow> 'd \<Rightarrow> error option \<times> 'd"
  ContainerStop :: "string \<Rightarrow> 'd \<Rightarrow> error option \<times> 'd"
  ContainerRemove :: "string \<Rightarrow> 'd \<Rightarrow> error option \<times> 'd"
  ContainerInspect :: "string \<Rightarrow> 'd \<Rightarrow> error + container_json"
  ContainerLogs :: "string \<Rightarrow> logs_options \<Rightarrow> 'd \<Rightarrow> error + logs_reader"

definition NewConfig :: "task \<Rightarrow> config" where
  "NewConfig t =
     \<lparr>cfg_Name = Name t, cfg_AttachStdin = False, cfg_AttachStdout = False, cfg_AttachStderr = False,
      cfg_Cmd = [], cfg_CPU = 0, cfg_Image = Image t, cfg_Memory = Memory t, cfg_Disk = Disk t,
      cfg_Env = [], cfg_RestartPolicy = RestartPolicy t\<rparr>"

definition NewDocker :: "'d docker_api \<Rightarrow> config \<Rightarrow> docker option" where
  "NewDocker api c = (if NewClientOk api then Some \<lparr>d_Config = c, ContainerId = []\<rparr> else None)"

definition InspectContainer :: "'d docker_api \<Rightarrow> string \<Rightarrow> 'd \<Rightarrow> inspect_response" where
  "InspectContainer api containerID d =
     (case ContainerInspect api containerID d of
        Inl err \<Rightarrow> \<lparr>i_Error = Some err, Container = None\<rparr>
      | Inr response \<Rightarrow> \<lparr>i_Error = None, Container = Some response\<rparr>)"

definition is_running_status :: "inspect_response \<Rightarrow> bool" where
  "is_running_status r \<longleftrightarrow>
     i_Error r = None \<and>
     (case Container r of None \<Rightarrow> False
      | Some c \<Rightarrow> (case c_State c of None \<Rightarrow> False | Some st \<Rightarrow> Status st = ''running''))"

definition container_request :: "config \<Rightarrow> create_request" where
  "container_request c =
     \<lparr>cr_Image = cfg_Image c, cr_Env = cfg_Env c,
      cr_Cmd = [''sh'', ''-c'', ''while true; do echo log $(date); sleep 2; done''],
      cr_RestartPolicy = cfg_RestartPolicy c, cr_Memory = cfg_Memory c, cr_PublishAllPorts = True,
      cr_Name = cfg_Name c\<rparr>"

text \<open>
  \<open>Run\<close>. After the container was started its inspection may fail; the result returned then
  carries \<open>err\<close>, which is the (nil) error of \<open>ContainerStart\<close>, and so is the zero result.
\<close>

definition Run :: "'d docker_api \<Rightarrow> docker \<Rightarrow> 'd \<Rightarrow> docker_result \<times> docker \<times> 'd" where
  "Run api dk d0 =
     (case ImagePull api (cfg_Image (d_Config dk)) d0 of
        (Some err, d1) \<Rightarrow> (zero_result\<lparr>Error := Some err\<rparr>, dk, d1)
      | (None, d1) \<Rightarrow>
          if is_running_status (InspectContainer api (ContainerId dk) d1)
          then (\<lparr>Error = None, Action = ''start'', r_ContainerId = ContainerId dk,
                 Result = ''already running''\<rparr>, dk, d1)
          else
            (case ContainerCreate api (container_request (d_Config dk)) d1 of
               (Inl err, d2) \<Rightarrow> (zero_result\<lparr>Error := Some err\<rparr>, dk, d2)
             | (Inr cid, d2) \<Rightarrow>
                 (case ContainerStart api cid d2 of
                    (Some err, d3) \<Rightarrow> (zero_result\<lparr>Error := Some err\<rparr>, dk, d3)
                  | (None, d3) \<Rightarrow>
                      (let dk' = dk\<lparr>ContainerId := cid\<rparr>; err = None in
                       if i_Error (InspectContainer api cid d3) \<noteq> None
                       then (zero_result\<lparr>Error := err\<rparr>, dk', d3)
                       else (\<lparr>Error = None, Action = ''start'', r_ContainerId = cid,
                              Result = ''success''\<rparr>, dk', d3)))))"

definition Stop :: "'d docker_api \<Rightarrow> string \<Rightarrow> 'd \<Rightarrow> docker_result \<times> 'd" where
  "Stop api cid d0 =
     (case ContainerStop api cid d0 of
        (Some err, d1) \<Rightarrow>
          (\<lparr>Error = Some err, Action = ''stop'', r_ContainerId = [], Result = ''failed''\<rparr>, d1)
      | (None, d1) \<Rightarrow>
          (case ContainerRemove api cid d1 of
             (Some err, d2) \<Rightarrow>
               (\<lparr>Error = Some err, Action = ''stop'', r_ContainerId = [], Result = ''failed''\<rparr>, d2)
           | (None, d2) \<Rightarrow>
               (\<lparr>Error = None, Action = ''stop'', r_ContainerId = [], Result = ''success''\<rparr>, d2)))"

text \<open>\<open>IsRunning\<close> reads \<open>container.State.Running\<close>, a nil dereference when \<open>State\<close> is nil.\<close>

definition IsRunning :: "'d docker_api \<Rightarrow> string \<Rightarrow> 'd \<Rightarrow> (bool \<times> error option, 'd) result" where
  "IsRunning api cid d =
     (case ContainerInspect api cid d of
        Inl err \<Rightarrow> Return (False, Some err) d
      | Inr c \<Rightarrow> (case c_State c of None \<Rightarrow> Panic NilDeref d | Some st \<Rightarrow> Return (c_Running st, None) d))"

text \<open>
  \<open>defer cancel()\<close> runs when the function returns, before the caller has read anything: the stream in
  the response is the reader of a cancelled context.
\<close>

definition GetDockerContainerLogs :: "'d docker_api \<Rightarrow> string \<Rightarrow> logs_options \<Rightarrow> 'd \<Rightarrow> logs_response" where
  "GetDockerContainerLogs api cid opts d =
     (case ContainerLogs api cid opts d of
        Inl err \<Rightarrow> \<lparr>l_Error = Some err, LogStream = None\<rparr>
      | Inr logsReader \<Rightarrow> \<lparr>l_Error = None, LogStream = Some (r_cancelled logsReader)\<rparr>)"

section \<open>What a run of the wrapper promises\<close>

lemma Run_error_cases:
  assumes "Run api dk d0 = (r, dk', d)" and "Error r = Some e"
  shows "r = zero_result\<lparr>Error := Some e\<rparr> \<and> dk' = dk"
  using assms
  by (auto simp: Run_def zero_result_def Let_def split: prod.splits option.splits sum.splits if_splits)

lemma Run_success_cases:
  assumes "Run api dk d0 = (r, dk', d)" and "Error r = None"
  shows "(r_ContainerId r = ContainerId dk' \<and> Action r = ''start'')
       \<or> (r = zero_result \<and> i_Error (InspectContainer api (ContainerId dk') d) \<noteq> None)"
  using assms
  by (auto simp: Run_def zero_result_def Let_def split: prod.splits option.splits sum.splits if_splits)

lemma Stop_result:
  assumes "Stop api cid d0 = (r, d)"
  shows "Action r = ''stop''" and "Error r = None \<longleftrightarrow> Result r = ''success''"
  using assms by (auto simp: Stop_def split: prod.splits option.splits)

end
