(* ===== verification/Sorted_Tasks.thy ===== *)
theory Sorted_Tasks
  imports Task
begin

text \<open>
  \<open>SortedTasks\<close> of the manager: a slice of task pointers kept in the order of the start times,
  \<open>InsertSorted\<close> and \<open>findTaskInSortedList\<close> of \<open>src/internal/manager/manager.go\<close>, over the binary
  search \<open>sort.Search\<close> of Go's standard library. A slot of the slice may be nil; reading the
  start time through a nil slot is a panic, here \<open>None\<close>.
\<close>

section \<open>Binary search\<close>

function search_loop :: "(nat \<Rightarrow> bool option) \<Rightarrow> nat \<Rightarrow> nat \<Rightarrow> nat option" where
  "search_loop f i j =
     (if i < j
      then let h = (i + j) div 2 in
           case f h of
             None \<Rightarrow> None
           | Some True \<Rightarrow> search_loop f i h
           | Some False \<Rightarrow> search_loop f (Suc h) j
      else Some i)"
  by pat_completeness auto
termination by (relation "measure (\<lambda>(f, i, j). j - i)") auto

declare search_loop.simps [simp del]

definition sort_Search :: "nat \<Rightarrow> (nat \<Rightarrow> bool option) \<Rightarrow> nat option" where
  "sort_Search n f = search_loop f 0 n"

text \<open>
  For any predicate that does not panic, the search stops at an index \<open>k\<close> of \<open>[i, j]\<close> that is a
  boundary: the predicate fails just below and holds at \<open>k\<close>, unless \<open>k\<close> is an end of the range.
\<close>

lemma search_loop_boundary:
  assumes "i \<le> j" and "\<And>x. i \<le> x \<Longrightarrow> x < j \<Longrightarrow> f x = Some (g x)"
  shows "\<exists>k. search_loop f i j = Some k \<and> i \<le> k \<and> k \<le> j
           \<and> (k = i \<or> \<not> g (k - 1)) \<and> (k = j \<or> g k)"
  using assms
proof (induction f i j rule: search_loop.induct)
  case (1 f i j)
  show ?case
  proof (cases "i < j")
    case False
    then have "search_loop f i j = Some i" by (simp add: search_loop.simps [of f i j])
    with False 1(3) show ?thesis by auto
  next
    case True
    let ?h = "(i + j) div 2"
    have h: "i \<le> ?h" "?h < j" using True by auto
    then have fh: "f ?h = Some (g ?h)" by (rule 1(4))
    show ?thesis
    proof (cases "g ?h")
      case True
      then obtain k where "search_loop f i ?h = Some k" "i \<le> k" "k \<le> ?h"
          "k = i \<or> \<not> g (k - 1)" "k = ?h \<or> g k"
        using 1(1) [OF \<open>i < j\<close> refl, of True] fh h 1(4) by fastforce
      with True fh h \<open>i < j\<close> show ?thesis
        by (auto simp: search_loop.simps [of f i j])
    next
      case False
      then obtain k where "search_loop f (Suc ?h) j = Some k" "Suc ?h \<le> k" "k \<le> j"
          "k = Suc ?h \<or> \<not> g (k - 1)" "k = j \<or> g k"
        using 1(2) [OF \<open>i < j\<close> refl, of False] fh h 1(4) by fastforce
      moreover from this False have "\<not> g (k - 1)" by (metis diff_Suc_1)
      ultimately show ?thesis using False fh h \<open>i < j\<close>
        by (auto simp: search_loop.simps [of f i j])
    qed
  qed
qed

text \<open>Where the predicate is monotone, the index is the least at which it holds.\<close>

lemma sort_Search_least:
  assumes "\<And>x. x < n \<Longrightarrow> f x = Some (g x)" and "\<And>x y. x \<le> y \<Longrightarrow> y < n \<Longrightarrow> g x \<Longrightarrow> g y"
  shows "\<exists>k. sort_Search n f = Some k \<and> k \<le> n \<and> (\<forall>x<k. \<not> g x) \<and> (\<forall>x. k \<le> x \<and> x < n \<longrightarrow> g x)"
proof -
  obtain k where k: "search_loop f 0 n = Some k" "k \<le> n" "k = 0 \<or> \<not> g (k - 1)" "k = n \<or> g k"
    using search_loop_boundary [of 0 n f g] assms(1) by auto
  have "\<not> g x" if "x < k" for x
  proof
    assume "g x"
    then have "g (k - 1)" using assms(2) [of x "k - 1"] that k(2) by auto
    with k(3) that show False by auto
  qed
  moreover have "g x" if "k \<le> x" "x < n" for x
    using assms(2) [OF that] k(4) that by auto
  ultimately show ?thesis using k by (auto simp: sort_Search_def)
qed

text \<open>
  \<open>sort.Search\<close> ends for every predicate, and for a monotone predicate that does not panic it
  gives the least index at which the predicate holds, the length if there is none.
\<close>

lemma sort_Search_correct:
  assumes "\<And>x. x < n \<Longrightarrow> f x = Some (g x)" and "\<And>x y. x \<le> y \<Longrightarrow> y < n \<Longrightarrow> g x \<Longrightarrow> g y"
  shows "sort_Search n f = Some (LEAST k. k = n \<or> g k)"
proof -
  obtain k where k: "sort_Search n f = Some k" "k \<le> n" "\<forall>x<k. \<not> g x" "\<forall>x. k \<le> x \<and> x < n \<longrightarrow> g x"
    using sort_Search_least [of n f g] assms by blast
  have "(LEAST k. k = n \<or> g k) = k"
  proof (rule Least_equality)
    show "k = n \<or> g k" using k by auto
    fix y assume "y = n \<or> g y"
    then show "k \<le> y" using k by (metis not_le)
  qed
  with k show ?thesis by simp
qed

lemma sort_Search_total:
  assumes "\<And>x. x < n \<Longrightarrow> f x \<noteq> None"
  obtains k where "sort_Search n f = Some k" "k \<le> n"
proof -
  have "\<And>x. 0 \<le> x \<Longrightarrow> x < n \<Longrightarrow> f x = Some (the (f x))" using assms by auto
  then show thesis
    using search_loop_boundary [of 0 n f "\<lambda>x. the (f x)"] that by (auto simp: sort_Search_def)
qed

section \<open>InsertSorted\<close>

definition starts_after :: "heap \<Rightarrow> ptr option \<Rightarrow> ptr \<Rightarrow> bool option" where
  "starts_after h slot newTask =
     (case slot of None \<Rightarrow> None
      | Some p \<Rightarrow> Some (StartTime (cells h newTask) < StartTime (cells h p)))"

definition InsertSorted :: "heap \<Rightarrow> ptr option list \<Rightarrow> ptr \<Rightarrow> ptr option list option" where
  "InsertSorted h tasks newTask =
     (case sort_Search (length tasks) (\<lambda>i. starts_after h (tasks ! i) newTask) of
        None \<Rightarrow> None
      | Some index \<Rightarrow>
          (let tasks = tasks @ [None];
               tasks = copy_within tasks (index + 1) index
           in Some (tasks[index := Some newTask])))"

text \<open>The sorted slice as the list of its pointers, and the order it is kept in.\<close>

definition no_nil :: "'a option list \<Rightarrow> bool" where
  "no_nil xs \<longleftrightarrow> None \<notin> set xs"

definition pointers :: "'a option list \<Rightarrow> 'a list" where
  "pointers xs = map the (filter (\<lambda>x. x \<noteq> None) xs)"

definition start_times :: "heap \<Rightarrow> ptr option list \<Rightarrow> time list" where
  "start_times h xs = map (\<lambda>p. StartTime (cells h p)) (pointers xs)"

text \<open>The reference: walk past every task that does not start after the new one.\<close>

definition insert_after_equals :: "heap \<Rightarrow> ptr \<Rightarrow> ptr list \<Rightarrow> ptr list" where
  "insert_after_equals h t ps =
     (let before = (\<lambda>p. StartTime (cells h p) \<le> StartTime (cells h t))
      in takeWhile before ps @ t # dropWhile before ps)"

lemma pointers_map_Some [simp]: "pointers (map Some ps) = ps"
  by (induction ps) (auto simp: pointers_def)

lemma no_nil_map_Some [simp]: "no_nil (map Some ps)"
  by (auto simp: no_nil_def)

lemma no_nil_iff_map: "no_nil xs \<longleftrightarrow> (\<exists>ps. xs = map Some ps)"
proof
  assume "no_nil xs"
  then have "xs = map Some (pointers xs)"
  proof (induction xs)
    case (Cons x xs)
    then show ?case by (cases x) (auto simp: no_nil_def pointers_def)
  qed (simp add: pointers_def)
  then show "\<exists>ps. xs = map Some ps" ..
qed auto

lemma InsertSorted_at:
  assumes "no_nil tasks"
  obtains k where "k \<le> length tasks"
    "sort_Search (length tasks) (\<lambda>i. starts_after h (tasks ! i) t) = Some k"
    "InsertSorted h tasks t = Some (take k tasks @ Some t # drop k tasks)"
proof -
  have "starts_after h (tasks ! x) t \<noteq> None" if "x < length tasks" for x
    using assms nth_mem [OF that] by (cases "tasks ! x") (simp_all add: no_nil_def starts_after_def)
  then obtain k where k: "sort_Search (length tasks) (\<lambda>i. starts_after h (tasks ! i) t) = Some k"
      "k \<le> length tasks"
    by (rule sort_Search_total)
  then show thesis using that by (simp add: InsertSorted_def Let_def insert_by_copy)
qed

text \<open>Whatever the order of the slice, the insertion adds the new pointer and moves nothing else.\<close>

lemma InsertSorted_insertion:
  assumes "no_nil tasks"
  obtains xs ys where "tasks = xs @ ys" "InsertSorted h tasks t = Some (xs @ Some t # ys)"
    "no_nil (xs @ Some t # ys)"
proof -
  from assms obtain k where "InsertSorted h tasks t = Some (take k tasks @ Some t # drop k tasks)"
    by (rule InsertSorted_at)
  moreover have "no_nil (take k tasks @ Some t # drop k tasks)"
    using assms by (auto simp: no_nil_def dest: in_set_takeD in_set_dropD)
  ultimately show thesis by (intro that [of "take k tasks" "drop k tasks"]) auto
qed

lemma insert_at_boundary:
  assumes "k \<le> length ps" and "\<And>x. x < k \<Longrightarrow> P (ps ! x)" and "k < length ps \<Longrightarrow> \<not> P (ps ! k)"
  shows "takeWhile P ps = take k ps" and "dropWhile P ps = drop k ps"
proof -
  show t: "takeWhile P ps = take k ps"
    by (rule takeWhile_eq_take_P_nth) (use assms in auto)
  show "dropWhile P ps = drop k ps"
    using t by (metis append_take_drop_id same_append_eq takeWhile_dropWhile_id)
qed

text \<open>On a sorted slice the binary search agrees with the linear reference.\<close>

lemma InsertSorted_reference:
  assumes "sorted (start_times h (map Some ps))"
  shows "InsertSorted h (map Some ps) t = Some (map Some (insert_after_equals h t ps))"
proof -
  let ?P = "\<lambda>p. StartTime (cells h p) \<le> StartTime (cells h t)"
  let ?g = "\<lambda>x. \<not> ?P (ps ! x)"
  have reads: "starts_after h (map Some ps ! x) t = Some (?g x)" if "x < length ps" for x
    using that by (auto simp: starts_after_def)
  have mono: "?g y" if "x \<le> y" "y < length ps" "?g x" for x y
    using assms that sorted_nth_mono [of "start_times h (map Some ps)" x y]
    by (auto simp: start_times_def)
  have "\<exists>k. sort_Search (length ps) (\<lambda>i. starts_after h (map Some ps ! i) t) = Some k \<and> k \<le> length ps
      \<and> (\<forall>x<k. \<not> ?g x) \<and> (\<forall>x. k \<le> x \<and> x < length ps \<longrightarrow> ?g x)"
    by (rule sort_Search_least) (use reads mono in blast)+
  then obtain k where "sort_Search (length ps) (\<lambda>i. starts_after h (map Some ps ! i) t) = Some k"
      and k: "k \<le> length ps" "\<forall>x<k. \<not> ?g x" "\<forall>x. k \<le> x \<and> x < length ps \<longrightarrow> ?g x"
    by (elim exE conjE)
  then have "InsertSorted h (map Some ps) t
      = Some (take k (map Some ps) @ Some t # drop k (map Some ps))"
    by (simp add: InsertSorted_def Let_def insert_by_copy)
  then show ?thesis
    using insert_at_boundary [of k ps ?P] k(1) k(2) k(3) [rule_format, of k]
    by (simp add: insert_after_equals_def Let_def take_map drop_map)
qed

lemma sorted_insert_between:
  "sorted (xs @ ys) \<Longrightarrow> \<forall>x \<in> set xs. x \<le> z \<Longrightarrow> \<forall>y \<in> set ys. z \<le> y \<Longrightarrow> sorted (xs @ z # ys)"
  by (auto simp: sorted_append)

lemma insert_after_equals_sorted:
  assumes "sorted (map (\<lambda>p. StartTime (cells h p)) ps)"
  shows "sorted (map (\<lambda>p. StartTime (cells h p)) (insert_after_equals h t ps))"
proof -
  let ?key = "\<lambda>p. StartTime (cells h p)"
  let ?P = "\<lambda>p. ?key p \<le> ?key t"
  have split: "sorted (map ?key (takeWhile ?P ps) @ map ?key (dropWhile ?P ps))"
    using assms by (metis map_append takeWhile_dropWhile_id)
  have low: "\<forall>x \<in> set (takeWhile ?P ps). ?key x \<le> ?key t"
    using set_takeWhileD by fastforce
  have high: "\<forall>x \<in> set (dropWhile ?P ps). ?key t \<le> ?key x"
  proof (cases "dropWhile ?P ps")
    case (Cons y ys)
    then have "\<not> ?P y" by (metis hd_dropWhile list.distinct(1) list.sel(1))
    moreover have "sorted (map ?key (y # ys))" using split Cons by (simp add: sorted_append)
    ultimately show ?thesis using Cons by auto
  qed (simp del: dropWhile_eq_Nil_conv)
  have "sorted (map ?key (takeWhile ?P ps) @ ?key t # map ?key (dropWhile ?P ps))"
    by (rule sorted_insert_between [OF split]) (use low high in auto)
  then show ?thesis by (simp add: insert_after_equals_def Let_def)
qed

text \<open>The walk splits the list between the tasks that do not start later and those that do.\<close>

lemma insert_after_equals_split:
  assumes "sorted (map (\<lambda>p. StartTime (cells h p)) ps)"
  shows "\<exists>before after. ps = before @ after \<and> insert_after_equals h t ps = before @ t # after
      \<and> (\<forall>p \<in> set before. StartTime (cells h p) \<le> StartTime (cells h t))
      \<and> (\<forall>p \<in> set after. StartTime (cells h t) < StartTime (cells h p))"
proof -
  let ?key = "\<lambda>p. StartTime (cells h p)"
  let ?P = "\<lambda>p. ?key p \<le> ?key t"
  have low: "\<forall>p \<in> set (takeWhile ?P ps). ?P p" using set_takeWhileD by fastforce
  have high: "\<forall>p \<in> set (dropWhile ?P ps). ?key t < ?key p"
  proof (cases "dropWhile ?P ps")
    case (Cons y ys)
    have "?key t < ?key y" using Cons by (metis hd_dropWhile list.distinct(1) list.sel(1) not_le)
    moreover have "sorted (map ?key (y # ys))"
      using assms Cons by (metis map_append sorted_append takeWhile_dropWhile_id)
    ultimately show ?thesis using Cons by auto
  qed (simp del: dropWhile_eq_Nil_conv)
  show ?thesis
  proof (intro exI conjI)
    show "ps = takeWhile ?P ps @ dropWhile ?P ps" by simp
    show "insert_after_equals h t ps = takeWhile ?P ps @ t # dropWhile ?P ps"
      by (simp add: insert_after_equals_def Let_def)
  qed (fact low high)+
qed

lemma mset_insert_after_equals: "mset (insert_after_equals h t ps) = add_mset t (mset ps)"
proof -
  have "mset (takeWhile P ps) + mset (dropWhile P ps) = mset ps" for P
    by (metis mset_append takeWhile_dropWhile_id)
  then show ?thesis by (simp add: insert_after_equals_def Let_def)
qed

section \<open>findTaskInSortedList\<close>

text \<open>The index of the first non-nil slot whose task has the identifier, \<open>None\<close> for \<open>-1\<close>.\<close>

fun findTaskInSortedList :: "heap \<Rightarrow> uuid \<Rightarrow> ptr option list \<Rightarrow> nat option" where
  "findTaskInSortedList h taskID [] = None"
| "findTaskInSortedList h taskID (slot # slots) =
     (if (case slot of None \<Rightarrow> False | Some p \<Rightarrow> ID (cells h p) = taskID) then Some 0
      else map_option Suc (findTaskInSortedList h taskID slots))"

lemma find_Some:
  "findTaskInSortedList h u xs = Some i \<Longrightarrow>
     i < length xs \<and> (\<exists>p. xs ! i = Some p \<and> ID (cells h p) = u)"
  by (induction xs arbitrary: i) (auto split: if_splits option.splits)

lemma find_None:
  "findTaskInSortedList h u xs = None \<longleftrightarrow> (\<forall>p. Some p \<in> set xs \<longrightarrow> ID (cells h p) \<noteq> u)"
  by (induction xs) (auto split: option.splits)

section \<open>Properties\<close>

text \<open>Three cells that start at 10, 20 and 20, for the witnesses.\<close>

definition sample_cells :: heap where
  "sample_cells =
     \<lparr>cells = (\<lambda>p. zero_task\<lparr>ID := word_of_nat (Suc p), StartTime := (if p = 0 then 10 else 20)\<rparr>),
      fresh = 3\<rparr>"

text \<open>
  C5: on a slice in the order of the start times, \<open>InsertSorted\<close> gives what a linear walk gives that
  puts the new task behind every task that does not start after it: the result is again in the
  order of the start times, it holds the old tasks and the new one, and tasks that start at the
  same time keep the order in which they came.
\<close>

theorem InsertSorted_correct:
  assumes "sorted (start_times h (map Some ps))"
  shows "InsertSorted h (map Some ps) t = Some (map Some (insert_after_equals h t ps))
    \<and> sorted (start_times h (map Some (insert_after_equals h t ps)))
    \<and> mset (insert_after_equals h t ps) = add_mset t (mset ps)
    \<and> (\<exists>before after. ps = before @ after \<and> insert_after_equals h t ps = before @ t # after
        \<and> (\<forall>p \<in> set before. StartTime (cells h p) \<le> StartTime (cells h t))
        \<and> (\<forall>p \<in> set after. StartTime (cells h t) < StartTime (cells h p)))"
proof -
  have "sorted (map (\<lambda>p. StartTime (cells h p)) ps)" using assms by (simp add: start_times_def)
  from insert_after_equals_sorted [OF this, of t] insert_after_equals_split [OF this, of t]
  show ?thesis
    using InsertSorted_reference [OF assms] mset_insert_after_equals by (simp add: start_times_def)
qed

theorem InsertSorted_correct_witness:
  "InsertSorted sample_cells (map Some [0, 1]) 2 = Some (map Some (insert_after_equals sample_cells 2 [0, 1]))
   \<and> insert_after_equals sample_cells 2 [0, 1] = [0, 1, 2]"
proof -
  have "sorted (start_times sample_cells (map Some [0, 1]))"
    by (simp add: start_times_def pointers_def sample_cells_def)
  from InsertSorted_correct [OF this, of 2] show ?thesis
    by (simp add: insert_after_equals_def sample_cells_def)
qed

end
