(* ===== verification/Task_Queue.thy ===== *)
theory Task_Queue
  imports Task
begin

text \<open>
  \<open>github.com/golang-collections/collections/queue\<close>, which both processes keep their pending tasks
  in, is not part of the repository. It is the parameter \<open>queue_api\<close>; what the program relies on
  is its documented first-in first-out behaviour, the predicate \<open>fifo\<close>: an implementation and
  the sequence of pointers each of its states holds. \<open>Dequeue\<close> of an empty queue gives nil.
\<close>

record 'q queue_api =
  q_New :: 'q
  Enqueue :: "'q \<Rightarrow> ptr \<Rightarrow> 'q"
  Dequeue :: "'q \<Rightarrow> ptr option \<times> 'q"
  Len :: "'q \<Rightarrow> nat"

definition fifo :: "'q queue_api \<Rightarrow> ('q \<Rightarrow> ptr list) \<Rightarrow> bool" where
  "fifo Q contents \<longleftrightarrow>
     contents (q_New Q) = [] \<and>
     (\<forall>q p. contents (Enqueue Q q p) = contents q @ [p]) \<and>
     (\<forall>q. fst (Dequeue Q q) = (case contents q of [] \<Rightarrow> None | p # _ \<Rightarrow> Some p)) \<and>
     (\<forall>q. contents (snd (Dequeue Q q)) = tl (contents q)) \<and>
     (\<forall>q. Len Q q = length (contents q))"

lemma fifo_New: "fifo Q contents \<Longrightarrow> contents (q_New Q) = []"
  and fifo_Enqueue: "fifo Q contents \<Longrightarrow> contents (Enqueue Q q p) = contents q @ [p]"
  and fifo_Len: "fifo Q contents \<Longrightarrow> Len Q q = length (contents q)"
  by (auto simp: fifo_def)

lemma fifo_Dequeue:
  assumes "fifo Q contents" and "contents q = p # ps"
  shows "\<exists>q'. Dequeue Q q = (Some p, q') \<and> contents q' = ps"
proof -
  have "fst (Dequeue Q q) = Some p" "contents (snd (Dequeue Q q)) = ps"
    using assms by (auto simp: fifo_def)
  then show ?thesis by (metis prod.collapse)
qed

lemma fifo_Dequeue_Nil: "fifo Q contents \<Longrightarrow> contents q = [] \<Longrightarrow> fst (Dequeue Q q) = None"
  by (simp add: fifo_def)

lemmas fifo_laws = fifo_New fifo_Enqueue fifo_Len

text \<open>A queue that behaves so: a list, used at the back and at the front.\<close>

definition list_queue :: "ptr list queue_api" where
  "list_queue =
     \<lparr>q_New = [], Enqueue = (\<lambda>q p. q @ [p]),
      Dequeue = (\<lambda>q. case q of [] \<Rightarrow> (None, []) | p # ps \<Rightarrow> (Some p, ps)), Len = length\<rparr>"

lemma fifo_list_queue: "fifo list_queue (\<lambda>q. q)"
  by (auto simp: fifo_def list_queue_def split: list.split)

end
