(* ===== verification/Go_Sync.thy ===== *)
theory Go_Sync
  imports Prelude
begin

text \<open>
  \<open>sync.RWMutex\<close> of Go's standard library. A mutex records whether a writer holds it, how many
  readers hold it and how many writers are waiting for it: \<open>Lock\<close> waits while anybody holds the
  mutex, \<open>RLock\<close> waits while a writer holds it or waits for it, neither is re-entrant, and
  \<open>Unlock\<close> of a mutex no writer holds is a fatal error.

  A component keeps its mutex in a field of its record. The operations below are given the
  field's selector and its update, and the locale \<open>lockable\<close> states the laws the two obey; every
  component that has a mutex interprets it.
\<close>

record rwmutex =
  writer :: bool
  readers :: nat
  writers_waiting :: nat

definition unlocked :: rwmutex where
  "unlocked = \<lparr>writer = False, readers = 0, writers_waiting = 0\<rparr>"

definition can_lock :: "rwmutex \<Rightarrow> bool" where
  "can_lock m \<longleftrightarrow> \<not> writer m \<and> readers m = 0"

definition can_rlock :: "rwmutex \<Rightarrow> bool" where
  "can_rlock m \<longleftrightarrow> \<not> writer m \<and> writers_waiting m = 0"

section \<open>The four operations\<close>

definition lock_op ::
    "('s \<Rightarrow> rwmutex) \<Rightarrow> ((rwmutex \<Rightarrow> rwmutex) \<Rightarrow> 's \<Rightarrow> 's) \<Rightarrow> 's \<Rightarrow> (unit, 's) result" where
  "lock_op mu mu_upd s =
     (if can_lock (mu s) then Return () (mu_upd (\<lambda>m. m\<lparr>writer := True\<rparr>) s) else Blocked s)"

definition unlock_op ::
    "('s \<Rightarrow> rwmutex) \<Rightarrow> ((rwmutex \<Rightarrow> rwmutex) \<Rightarrow> 's \<Rightarrow> 's) \<Rightarrow> 's \<Rightarrow> (unit, 's) result" where
  "unlock_op mu mu_upd s =
     (if writer (mu s) then Return () (mu_upd (\<lambda>m. m\<lparr>writer := False\<rparr>) s)
      else Panic FatalUnlock s)"

definition rlock_op ::
    "('s \<Rightarrow> rwmutex) \<Rightarrow> ((rwmutex \<Rightarrow> rwmutex) \<Rightarrow> 's \<Rightarrow> 's) \<Rightarrow> 's \<Rightarrow> (unit, 's) result" where
  "rlock_op mu mu_upd s =
     (if can_rlock (mu s) then Return () (mu_upd (\<lambda>m. m\<lparr>readers := Suc (readers m)\<rparr>) s)
      else Blocked s)"

definition runlock_op ::
    "('s \<Rightarrow> rwmutex) \<Rightarrow> ((rwmutex \<Rightarrow> rwmutex) \<Rightarrow> 's \<Rightarrow> 's) \<Rightarrow> 's \<Rightarrow> (unit, 's) result" where
  "runlock_op mu mu_upd s =
     (if readers (mu s) = 0 then Panic FatalUnlock s
      else Return () (mu_upd (\<lambda>m. m\<lparr>readers := readers m - 1\<rparr>) s))"

text \<open>
  \<open>defer release()\<close>: the release runs when the body returns and when it panics, not when it
  waits for ever.
\<close>

fun deferred :: "('s \<Rightarrow> (unit, 's) result) \<Rightarrow> ('a, 's) result \<Rightarrow> ('a, 's) result" where
  "deferred release (Return a s) = andthen (release s) (\<lambda>_. Return a)"
| "deferred release (Panic p s) = andthen (release s) (\<lambda>_. Panic p)"
| "deferred release (Blocked s) = Blocked s"

text \<open>\<open>mu.Lock(); defer mu.Unlock(); body\<close> and its reading counterpart.\<close>

definition with_lock ::
    "('s \<Rightarrow> rwmutex) \<Rightarrow> ((rwmutex \<Rightarrow> rwmutex) \<Rightarrow> 's \<Rightarrow> 's) \<Rightarrow> ('s \<Rightarrow> ('a, 's) result) \<Rightarrow> 's
       \<Rightarrow> ('a, 's) result" where
  "with_lock mu mu_upd body s =
     andthen (lock_op mu mu_upd s) (\<lambda>_ t. deferred (unlock_op mu mu_upd) (body t))"

definition with_rlock ::
    "('s \<Rightarrow> rwmutex) \<Rightarrow> ((rwmutex \<Rightarrow> rwmutex) \<Rightarrow> 's \<Rightarrow> 's) \<Rightarrow> ('s \<Rightarrow> ('a, 's) result) \<Rightarrow> 's
       \<Rightarrow> ('a, 's) result" where
  "with_rlock mu mu_upd body s =
     andthen (rlock_op mu mu_upd s) (\<lambda>_ t. deferred (runlock_op mu mu_upd) (body t))"

definition mutex_free :: "rwmutex \<Rightarrow> bool" where
  "mutex_free m \<longleftrightarrow> \<not> writer m \<and> readers m = 0 \<and> writers_waiting m = 0"

lemma mutex_freeD [simp]:
  "mutex_free m \<Longrightarrow> can_lock m" "mutex_free m \<Longrightarrow> can_rlock m"
  by (simp_all add: mutex_free_def can_lock_def can_rlock_def)

lemma mutex_free_unlocked [simp]: "mutex_free unlocked"
  by (simp add: mutex_free_def unlocked_def)

section \<open>The interface of a state with a mutex\<close>

locale lockable =
  fixes mu :: "'s \<Rightarrow> rwmutex"
    and mu_upd :: "(rwmutex \<Rightarrow> rwmutex) \<Rightarrow> 's \<Rightarrow> 's"
  assumes get_upd: "mu (mu_upd f s) = f (mu s)"
    and upd_upd: "mu_upd f (mu_upd g s) = mu_upd (\<lambda>m. f (g m)) s"
    and upd_same: "f (mu s) = mu s \<Longrightarrow> mu_upd f s = s"
begin

lemma with_lock_blocked: "\<not> can_lock (mu s) \<Longrightarrow> with_lock mu mu_upd body s = Blocked s"
  by (simp add: with_lock_def lock_op_def)

lemma with_rlock_blocked: "\<not> can_rlock (mu s) \<Longrightarrow> with_rlock mu mu_upd body s = Blocked s"
  by (simp add: with_rlock_def rlock_op_def)

text \<open>A body that leaves the mutex alone returns with the mutex as it was before \<open>Lock\<close>.\<close>

lemma with_lock_return:
  assumes "can_lock (mu s)"
    and "body (mu_upd (\<lambda>m. m\<lparr>writer := True\<rparr>) s) = Return a t"
    and "mu t = (mu s)\<lparr>writer := True\<rparr>"
  shows "with_lock mu mu_upd body s = Return a (mu_upd (\<lambda>m. m\<lparr>writer := False\<rparr>) t)"
  using assms by (simp add: with_lock_def lock_op_def unlock_op_def)

lemma with_lock_return_mu:
  assumes "can_lock (mu s)" and "mu t = (mu s)\<lparr>writer := True\<rparr>"
  shows "mu (mu_upd (\<lambda>m. m\<lparr>writer := False\<rparr>) t) = mu s"
  using assms by (simp add: get_upd can_lock_def)

text \<open>The same, when the body's effect is known on the state with the mutex free.\<close>

lemma with_lock_step:
  assumes free: "can_lock (mu s)"
    and step: "body (mu_upd (\<lambda>m. m\<lparr>writer := True\<rparr>) s) = Return a (mu_upd (\<lambda>m. m\<lparr>writer := True\<rparr>) t)"
    and keep: "mu t = mu s"
  shows "with_lock mu mu_upd body s = Return a t"
proof -
  have "mu_upd (\<lambda>m. m\<lparr>writer := False\<rparr>) t = t"
    by (rule upd_same) (use free keep in \<open>simp add: can_lock_def\<close>)
  then show ?thesis
    using free step by (simp add: with_lock_def lock_op_def unlock_op_def get_upd upd_upd)
qed

text \<open>
  A body that neither reads nor writes the mutex, and does not wait, acts under the lock as it
  would without it; a panic passes through, and the deferred release has freed the mutex.
\<close>

lemma with_lock_commutes:
  assumes free: "can_lock (mu s)" and comm: "\<And>g. body (mu_upd g s) = map_state (mu_upd g) (body s)"
    and keep: "mu (state_of (body s)) = mu s" and "\<not> waits (body s)"
  shows "with_lock mu mu_upd body s = body s"
proof -
  have restore: "mu_upd (\<lambda>m. m\<lparr>writer := False\<rparr>) (state_of (body s)) = state_of (body s)"
    by (rule upd_same) (use free keep in \<open>simp add: can_lock_def\<close>)
  show ?thesis
    using assms(4) keep restore
    by (cases "body s")
      (simp_all add: with_lock_def lock_op_def unlock_op_def free comm get_upd upd_upd)
qed

text \<open>
  The common case: the body is a pure update \<open>f\<close> that neither reads nor writes the mutex. Under
  the lock it acts as \<open>f\<close>.
\<close>

lemma with_lock_pure:
  assumes free: "can_lock (mu s)"
    and comm: "\<And>g s. f (mu_upd g s) = mu_upd g (f s)" and keep: "mu (f s) = mu s"
    and out: "\<And>g s. out (mu_upd g s) = out s"
  shows "with_lock mu mu_upd (\<lambda>s. Return (out s) (f s)) s = Return (out s) (f s)"
proof -
  have "mu_upd (\<lambda>m. m\<lparr>writer := False, writer := False\<rparr>) (f s) = f s"
    by (rule upd_same) (use free keep in \<open>simp add: can_lock_def\<close>)
  moreover have "mu_upd (\<lambda>m. m\<lparr>writer := False\<rparr>) (f s) = f s"
    by (rule upd_same) (use free keep in \<open>simp add: can_lock_def\<close>)
  ultimately show ?thesis
    using free by (simp add: with_lock_def lock_op_def unlock_op_def comm get_upd upd_upd keep out)
qed

lemma with_rlock_pure:
  assumes "can_rlock (mu s)" and "\<And>g s. out (mu_upd g s) = out s"
  shows "with_rlock mu mu_upd (\<lambda>s. Return (out s) s) s = Return (out s) s"
proof -
  have "mu_upd (\<lambda>m. m) s = s" by (rule upd_same) simp
  then show ?thesis
    using assms by (simp add: with_rlock_def rlock_op_def runlock_op_def get_upd upd_upd)
qed

text \<open>The mutex is not re-entrant: taking it again inside the locked region waits for ever.\<close>

lemma with_lock_nested_blocks:
  assumes "can_lock (mu s)"
  shows "with_lock mu mu_upd (with_lock mu mu_upd body) s
       = Blocked (mu_upd (\<lambda>m. m\<lparr>writer := True\<rparr>) s)"
  using assms by (simp add: with_lock_def lock_op_def get_upd can_lock_def)

text \<open>While a writer holds the mutex nobody else gets in.\<close>

lemma writer_excludes:
  assumes "writer (mu s)"
  shows "with_lock mu mu_upd body s = Blocked s" and "with_rlock mu mu_upd body' s = Blocked s"
  using assms by (simp_all add: with_lock_blocked with_rlock_blocked can_lock_def can_rlock_def)

text \<open>While a reader holds the mutex no writer gets in.\<close>

lemma reader_excludes_writer:
  "readers (mu s) \<noteq> 0 \<Longrightarrow> with_lock mu mu_upd body s = Blocked s"
  by (simp add: with_lock_blocked can_lock_def)

end

end
