(* ===== verification/Worker_State.thy ===== *)
theory Worker_State
  imports Prelude
begin

text \<open>
  The state of a worker, \<open>src/internal/worker/service/state_machine.go\<close>. The manager keeps one per
  worker; \<open>Ready\<close> is the zero value, so a worker it does not know counts as ready.
\<close>

datatype worker_state = Ready | Unhealthy | Overloaded

end
