(* ===== verification/Manager_State.thy ===== *)
theory Manager_State
  imports Sorted_Tasks Task_Queue Go_Sync Worker_State
begin

text \<open>
  The manager's record, \<open>New\<close> and the plain reads of \<open>src/internal/manager/manager.go\<close>.

  The manager keeps pointers to tasks; the cells they point to are in the field \<open>store\<close>. The counts
  of failed health checks are Go's 64-bit integers. \<open>lastWorker\<close>, also an \<open>int\<close> in Go, is a natural
  number: it starts at 0 and is only ever assigned \<open>(lastWorker+1) % len(schedulable)\<close>, so it stays
  below the number of workers, where Go's expression on 64-bit integers has the value used here
  (\<open>round_robin_exact\<close> in \<open>Manager_Sched\<close>, and for every reachable state \<open>round_robin_in_64_bits\<close> in
  \<open>Round_Robin\<close>).
\<close>

record 'q manager =
  store :: heap
  PendingTasks :: 'q
  TaskDb :: "uuid \<rightharpoonup> ptr"
  SortedTasks :: "ptr option list"
  EventDb :: "uuid \<rightharpoonup> task_event"
  Workers :: "string list"
  WorkersTaskMap :: "string \<rightharpoonup> uuid list"
  WorkerHealth :: "string \<rightharpoonup> bool"
  WorkerState :: "string \<rightharpoonup> worker_state"
  WorkerHealthCheckFailures :: "string \<rightharpoonup> go_int"
  TaskWorkerMap :: "uuid \<rightharpoonup> string"
  lastWorker :: nat
  LastCleanupTime :: time
  mu :: rwmutex

definition New :: "'q queue_api \<Rightarrow> string list \<Rightarrow> time \<Rightarrow> 'q manager" where
  "New Q workers now =
     \<lparr>store = empty_heap, PendingTasks = q_New Q, TaskDb = (\<lambda>_. None), SortedTasks = [],
      EventDb = (\<lambda>_. None), Workers = workers,
      WorkersTaskMap = fold (\<lambda>w f. f(w \<mapsto> [])) workers (\<lambda>_. None),
      WorkerHealth = fold (\<lambda>w f. f(w \<mapsto> False)) workers (\<lambda>_. None),
      WorkerState = fold (\<lambda>w f. f(w \<mapsto> Ready)) workers (\<lambda>_. None),
      WorkerHealthCheckFailures = fold (\<lambda>w f. f(w \<mapsto> 0)) workers (\<lambda>_. None),
      TaskWorkerMap = (\<lambda>_. None), lastWorker = 0, LastCleanupTime = now, mu = unlocked\<rparr>"

lemma fold_upd_const:
  "fold (\<lambda>w f. f(w \<mapsto> v)) ws m = (\<lambda>x. if x \<in> set ws then Some v else m x)"
  by (induction ws arbitrary: m) auto

lemmas New_fields = New_def fold_upd_const

text \<open>The manager's mutex obeys the laws of a lock field.\<close>

interpretation mgr: lockable "mu :: 'q manager \<Rightarrow> rwmutex" mu_update
  by unfold_locales (auto simp: comp_def)

lemma mu_update_id [simp]: "mu_update (\<lambda>x. x) (m :: 'q manager) = m"
  by (rule mgr.upd_same) simp

definition quiet :: "'q manager \<Rightarrow> bool" where
  "quiet m \<longleftrightarrow> mutex_free (mu m)"

lemma quietD [simp]: "quiet m \<Longrightarrow> can_lock (mu m)" "quiet m \<Longrightarrow> can_rlock (mu m)"
  by (simp_all add: quiet_def)

definition task_at :: "'q manager \<Rightarrow> ptr \<Rightarrow> task" where
  "task_at m p = cells (store m) p"

definition GetTask :: "uuid \<Rightarrow> 'q manager \<Rightarrow> (ptr option, 'q manager) result" where
  "GetTask tid = with_rlock mu mu_update (\<lambda>m. Return (TaskDb m tid) m)"

text \<open>
  \<open>GetTasks\<close> ranges over a map: \<open>order\<close> is the order in which the runtime enumerates its keys.
\<close>

definition GetTasks :: "uuid list \<Rightarrow> 'q manager \<Rightarrow> (ptr list, 'q manager) result" where
  "GetTasks order =
     with_rlock mu mu_update (\<lambda>m. Return (concat (map (\<lambda>tid. case TaskDb m tid of None \<Rightarrow> [] | Some t \<Rightarrow> [t]) order)) m)"

lemma GetTask_quiet: "quiet m \<Longrightarrow> GetTask tid m = Return (TaskDb m tid) m"
  unfolding GetTask_def by (rule mgr.with_rlock_pure) simp_all

end
