(* ===== verification/Manager_Tasks.thy ===== *)
theory Manager_Tasks
  imports Manager_State
begin

text \<open>
  \<open>AddTask\<close> and \<open>CleanUpTasks\<close> of \<open>src/internal/manager/manager.go\<close>, and the well-formedness of the
  manager's containers that every operation keeps.
\<close>

section \<open>AddTask\<close>

definition AddTask_body :: "'q queue_api \<Rightarrow> ptr \<Rightarrow> 'q manager \<Rightarrow> (unit, 'q manager) result" where
  "AddTask_body Q t m =
     (let taskID = ID (task_at m t);
          m = m\<lparr>PendingTasks := Enqueue Q (PendingTasks m) t\<rparr>;
          m = m\<lparr>TaskDb := (TaskDb m)(taskID \<mapsto> t)\<rparr>
      in case findTaskInSortedList (store m) taskID (SortedTasks m) of
           Some existingIndex \<Rightarrow> Return () (m\<lparr>SortedTasks := (SortedTasks m)[existingIndex := Some t]\<rparr>)
         | None \<Rightarrow>
             (case InsertSorted (store m) (SortedTasks m) t of
                None \<Rightarrow> Panic NilDeref m
              | Some tasks \<Rightarrow> Return () (m\<lparr>SortedTasks := tasks\<rparr>)))"

definition AddTask :: "'q queue_api \<Rightarrow> ptr \<Rightarrow> 'q manager \<Rightarrow> (unit, 'q manager) result" where
  "AddTask Q t = with_lock mu mu_update (AddTask_body Q t)"

text \<open>The slice \<open>AddTask\<close> leaves behind.\<close>

definition listed_after_add :: "ptr \<Rightarrow> 'q manager \<Rightarrow> ptr option list" where
  "listed_after_add t m =
     (case findTaskInSortedList (store m) (ID (task_at m t)) (SortedTasks m) of
        Some i \<Rightarrow> (SortedTasks m)[i := Some t]
      | None \<Rightarrow> the (InsertSorted (store m) (SortedTasks m) t))"

definition added :: "'q queue_api \<Rightarrow> ptr \<Rightarrow> 'q manager \<Rightarrow> 'q manager" where
  "added Q t m =
     m\<lparr>PendingTasks := Enqueue Q (PendingTasks m) t, TaskDb := (TaskDb m)(ID (task_at m t) \<mapsto> t),
       SortedTasks := listed_after_add t m\<rparr>"

lemma AddTask_quiet:
  assumes "quiet m" and "no_nil (SortedTasks m)"
  shows "AddTask Q t m = Return () (added Q t m)"
proof -
  obtain xs ys where ins: "InsertSorted (store m) (SortedTasks m) t = Some (xs @ Some t # ys)"
    using assms(2) by (rule InsertSorted_insertion)
  have "AddTask_body Q t (mu_update (\<lambda>x. x\<lparr>writer := True\<rparr>) m)
      = Return () (mu_update (\<lambda>x. x\<lparr>writer := True\<rparr>) (added Q t m))"
    using ins by (auto simp: AddTask_body_def added_def listed_after_add_def Let_def task_at_def split: option.splits)
  then show ?thesis
    unfolding AddTask_def by (intro mgr.with_lock_step) (use assms in \<open>simp_all add: added_def\<close>)
qed

section \<open>Well-formed managers\<close>

definition listed_ids :: "'q manager \<Rightarrow> uuid set" where
  "listed_ids m = {ID (task_at m p) | p. Some p \<in> set (SortedTasks m)}"

text \<open>
  No slot of \<open>SortedTasks\<close> is nil, every pointer is a cell, the database maps an identifier to a
  task that has it, every task the database or the queue knows is listed, and a task the manager
  holds assigned to a worker is on that worker's list.
\<close>

definition manager_wf :: "('q \<Rightarrow> ptr list) \<Rightarrow> 'q manager \<Rightarrow> bool" where
  "manager_wf contents m \<longleftrightarrow>
     no_nil (SortedTasks m) \<and>
     (\<forall>p. Some p \<in> set (SortedTasks m) \<longrightarrow> p < fresh (store m)) \<and>
     (\<forall>p \<in> set (contents (PendingTasks m)). p < fresh (store m) \<and> ID (task_at m p) \<in> listed_ids m) \<and>
     (\<forall>u p. TaskDb m u = Some p \<longrightarrow> p < fresh (store m) \<and> ID (task_at m p) = u \<and> u \<in> listed_ids m) \<and>
     (\<forall>u w. TaskWorkerMap m u = Some w \<longrightarrow> u \<in> set (lookup_default [] (WorkersTaskMap m) w))"

lemma manager_wfD:
  assumes "manager_wf contents m"
  shows "no_nil (SortedTasks m)"
    and "Some p \<in> set (SortedTasks m) \<Longrightarrow> p < fresh (store m)"
    and "p \<in> set (contents (PendingTasks m)) \<Longrightarrow> p < fresh (store m)"
    and "p \<in> set (contents (PendingTasks m)) \<Longrightarrow> ID (task_at m p) \<in> listed_ids m"
    and "TaskDb m u = Some p \<Longrightarrow> p < fresh (store m)"
    and "TaskDb m u = Some p \<Longrightarrow> ID (task_at m p) = u"
    and "TaskDb m u = Some p \<Longrightarrow> u \<in> listed_ids m"
    and "TaskWorkerMap m u = Some w \<Longrightarrow> u \<in> set (lookup_default [] (WorkersTaskMap m) w)"
  using assms by (auto simp: manager_wf_def)

lemma set_update_same_id:
  assumes "findTaskInSortedList h u xs = Some i" and "ID (cells h t) = u"
  shows "{ID (cells h p) | p. Some p \<in> set (xs[i := Some t])} = {ID (cells h p) | p. Some p \<in> set xs}"
proof -
  obtain q where q: "i < length xs" "xs ! i = Some q" "ID (cells h q) = u"
    using find_Some [OF assms(1)] by blast
  have new: "set (xs[i := Some t]) \<subseteq> insert (Some t) (set xs)" by (rule set_update_subset_insert)
  have t_in: "Some t \<in> set (xs[i := Some t])" using q(1) by (rule set_update_memI)
  have kept: "x \<in> set (xs[i := Some t])" if "x \<in> set xs" "x \<noteq> Some q" for x
    using that q by (metis in_set_conv_nth length_list_update nth_list_update_neq)
  have q_in: "Some q \<in> set xs" using q by (metis nth_mem)
  show ?thesis (is "?L = ?R")
  proof
    show "?L \<subseteq> ?R" using new q_in q(3) assms(2) by fastforce
  next
    have "ID (cells h p) \<in> ?L" if "Some p \<in> set xs" for p
    proof (cases "p = q")
      case True
      with q(3) assms(2) have "ID (cells h p) = ID (cells h t)" by simp
      with t_in show ?thesis by blast
    next
      case False
      with kept [OF that] show ?thesis by auto
    qed
    then show "?R \<subseteq> ?L" by blast
  qed
qed

lemma listed_after_add:
  assumes "no_nil (SortedTasks m)"
  shows "no_nil (listed_after_add t m)"
    and "Some p \<in> set (listed_after_add t m) \<Longrightarrow> p = t \<or> Some p \<in> set (SortedTasks m)"
    and "{ID (task_at m p) | p. Some p \<in> set (listed_after_add t m)} = insert (ID (task_at m t)) (listed_ids m)"
proof -
  let ?f = "findTaskInSortedList (store m) (ID (task_at m t)) (SortedTasks m)"
  obtain xs ys where ins: "SortedTasks m = xs @ ys" "no_nil (xs @ Some t # ys)"
      "InsertSorted (store m) (SortedTasks m) t = Some (xs @ Some t # ys)"
    using assms by (rule InsertSorted_insertion)
  have upd: "set (ts[i := Some t]) \<subseteq> insert (Some t) (set ts)" for ts i
    by (rule set_update_subset_insert)
  show "no_nil (listed_after_add t m)"
    using ins assms upd by (fastforce simp: listed_after_add_def no_nil_def split: option.splits)
  show "p = t \<or> Some p \<in> set (SortedTasks m)" if "Some p \<in> set (listed_after_add t m)"
    using that ins upd [of "SortedTasks m"] by (auto simp: listed_after_add_def split: option.splits)
  show "{ID (task_at m p) | p. Some p \<in> set (listed_after_add t m)} = insert (ID (task_at m t)) (listed_ids m)"
  proof (cases ?f)
    case None
    then show ?thesis using ins by (auto simp: listed_after_add_def listed_ids_def)
  next
    case (Some i)
    have "{ID (task_at m p) | p. Some p \<in> set ((SortedTasks m)[i := Some t])} = listed_ids m"
      using set_update_same_id [OF Some] by (simp add: task_at_def listed_ids_def)
    moreover have "ID (task_at m t) \<in> listed_ids m"
      using find_Some [OF Some] by (auto simp: task_at_def listed_ids_def) (metis nth_mem)
    ultimately show ?thesis using Some by (simp add: listed_after_add_def insert_absorb)
  qed
qed

lemma listed_ids_added:
  "no_nil (SortedTasks m) \<Longrightarrow> listed_ids (added Q t m) = insert (ID (task_at m t)) (listed_ids m)"
  using listed_after_add(3) [of m t] by (simp add: listed_ids_def added_def task_at_def)

lemma added_simps [simp]:
  "store (added Q t m) = store m" "PendingTasks (added Q t m) = Enqueue Q (PendingTasks m) t"
  "TaskDb (added Q t m) = (TaskDb m)(ID (task_at m t) \<mapsto> t)" "task_at (added Q t m) = task_at m"
  "SortedTasks (added Q t m) = listed_after_add t m" "mu (added Q t m) = mu m"
  "TaskWorkerMap (added Q t m) = TaskWorkerMap m" "WorkersTaskMap (added Q t m) = WorkersTaskMap m"
  "EventDb (added Q t m) = EventDb m" "Workers (added Q t m) = Workers m"
  by (simp_all add: added_def task_at_def fun_eq_iff)

lemma added_wf:
  assumes wf: "manager_wf contents m" and fifo: "fifo Q contents" and t: "t < fresh (store m)"
  shows "manager_wf contents (added Q t m)"
proof -
  note D = manager_wfD [OF wf]
  have "p < fresh (store m)" if "Some p \<in> set (listed_after_add t m)" for p
    using listed_after_add(2) [OF D(1) that] D(2) t by blast
  then show ?thesis
    using D t listed_after_add(1) [OF D(1)]
    by (auto simp: manager_wf_def listed_ids_added [OF D(1)] fifo_laws [OF fifo])
qed

lemma New_wf: "fifo Q contents \<Longrightarrow> manager_wf contents (New Q workers now)"
  by (simp add: manager_wf_def New_def no_nil_def fifo_New)

lemma New_quiet: "quiet (New Q workers now)"
  by (simp add: quiet_def New_def)

text \<open>The identifiers along the listing, in its order.\<close>

definition listing :: "'q manager \<Rightarrow> uuid list" where
  "listing m = map (\<lambda>p. ID (task_at m p)) (pointers (SortedTasks m))"

lemma set_listing: "set (listing m) = listed_ids m"
  by (auto simp: listing_def listed_ids_def pointers_def image_iff) force

lemma pointers_append [simp]: "pointers (xs @ ys) = pointers xs @ pointers ys"
  by (simp add: pointers_def)

lemma pointers_Some [simp]: "pointers (Some p # xs) = p # pointers xs"
  by (simp add: pointers_def)

lemma pointers_update:
  assumes "no_nil xs" and "i < length xs"
  shows "pointers (xs[i := Some t]) = (pointers xs)[i := t]"
proof -
  obtain ps where ps: "xs = map Some ps" using assms(1) by (auto simp: no_nil_iff_map)
  then have "xs[i := Some t] = map Some (ps[i := t])" by (simp add: map_update)
  with ps show ?thesis by (metis pointers_map_Some)
qed

text \<open>A task that is listed takes the slot it has; a new one adds its identifier.\<close>

lemma listing_added_known:
  assumes nn: "no_nil (SortedTasks m)"
    and found: "findTaskInSortedList (store m) (ID (task_at m t)) (SortedTasks m) = Some i"
  shows "listing (added Q t m) = listing m"
proof -
  obtain p where p: "i < length (SortedTasks m)" "SortedTasks m ! i = Some p"
      "ID (task_at m p) = ID (task_at m t)"
    using find_Some [OF found] by (auto simp: task_at_def)
  have len: "i < length (pointers (SortedTasks m))" and at: "pointers (SortedTasks m) ! i = p"
    using nn p by (auto simp: no_nil_iff_map)
  have "listing (added Q t m) = (listing m)[i := ID (task_at m t)]"
    by (simp add: listing_def listed_after_add_def found pointers_update [OF nn p(1)] map_update)
  also have "\<dots> = listing m"
    by (rule list_update_same_conv [THEN iffD2]) (use len at p(3) in \<open>simp_all add: listing_def\<close>)
  finally show ?thesis .
qed

lemma listing_added_new:
  assumes nn: "no_nil (SortedTasks m)"
    and "findTaskInSortedList (store m) (ID (task_at m t)) (SortedTasks m) = None"
  shows "\<exists>us vs. listing m = us @ vs \<and> listing (added Q t m) = us @ ID (task_at m t) # vs
      \<and> ID (task_at m t) \<notin> listed_ids m"
proof -
  obtain xs ys where xy: "SortedTasks m = xs @ ys"
      "InsertSorted (store m) (SortedTasks m) t = Some (xs @ Some t # ys)"
    using nn by (rule InsertSorted_insertion)
  have "ID (task_at m t) \<notin> listed_ids m"
    using assms(2) unfolding find_None by (auto simp: listed_ids_def task_at_def)
  then show ?thesis
    using assms(2) xy
    by (intro exI [of _ "map (\<lambda>p. ID (task_at m p)) (pointers xs)"]
        exI [of _ "map (\<lambda>p. ID (task_at m p)) (pointers ys)"])
      (simp add: listing_def listed_after_add_def)
qed

section \<open>CleanUpTasks\<close>

definition TASK_RETENTION_HOURS :: int where
  "TASK_RETENTION_HOURS = 24"

definition expired :: "time \<Rightarrow> task \<Rightarrow> bool" where
  "expired cutoff t \<longleftrightarrow> State t = Completed \<and> StartTime t < cutoff"

definition forget_assignment :: "uuid \<Rightarrow> 'q manager \<Rightarrow> 'q manager" where
  "forget_assignment tid m =
     (case TaskWorkerMap m tid of
        None \<Rightarrow> m
      | Some w \<Rightarrow>
          (let taskIDs = lookup_default [] (WorkersTaskMap m) w;
               m = (if tid \<in> set taskIDs
                    then m\<lparr>WorkersTaskMap := (WorkersTaskMap m)(w \<mapsto> remove1 tid taskIDs)\<rparr> else m)
           in m\<lparr>TaskWorkerMap := (TaskWorkerMap m)(tid := None)\<rparr>))"

definition cleanup_entry :: "time \<Rightarrow> uuid \<Rightarrow> 'q manager \<Rightarrow> 'q manager" where
  "cleanup_entry cutoff tid m =
     (case TaskDb m tid of
        None \<Rightarrow> m
      | Some t \<Rightarrow>
          if expired cutoff (task_at m t)
          then (let m = forget_assignment tid m;
                    m = m\<lparr>EventDb := (EventDb m)(tid := None)\<rparr>
                in m\<lparr>TaskDb := (TaskDb m)(tid := None)\<rparr>)
          else m)"

text \<open>The loop ranges over \<open>TaskDb\<close>, whose keys the runtime enumerates in some order.\<close>

definition CleanUpTasks :: "uuid list \<Rightarrow> time \<Rightarrow> 'q manager \<Rightarrow> (unit, 'q manager) result" where
  "CleanUpTasks order now =
     with_lock mu mu_update
       (\<lambda>m. Return () (fold (cleanup_entry (now - hours TASK_RETENTION_HOURS)) order m))"

lemma forget_assignment_simps [simp]:
  "store (forget_assignment u m) = store m" "TaskDb (forget_assignment u m) = TaskDb m"
  "PendingTasks (forget_assignment u m) = PendingTasks m"
  "SortedTasks (forget_assignment u m) = SortedTasks m"
  "EventDb (forget_assignment u m) = EventDb m" "Workers (forget_assignment u m) = Workers m"
  "TaskWorkerMap (forget_assignment u m) = (TaskWorkerMap m)(u := None)"
  "mu (forget_assignment u m) = mu m"
  by (auto simp: forget_assignment_def Let_def fun_eq_iff split: option.splits)

lemma forget_assignment_mu [simp]:
  "forget_assignment u (mu_update g m) = mu_update g (forget_assignment u m)"
  by (auto simp: forget_assignment_def Let_def split: option.splits)

lemma cleanup_entry_mu [simp]:
  "cleanup_entry c u (mu_update g m) = mu_update g (cleanup_entry c u m)"
  by (auto simp: cleanup_entry_def Let_def task_at_def split: option.splits)

lemma cleanup_fold_mu [simp]:
  "fold (cleanup_entry c) us (mu_update g m) = mu_update g (fold (cleanup_entry c) us m)"
  by (induction us arbitrary: m) auto

lemma cleanup_entry_simps [simp]:
  "store (cleanup_entry c u m) = store m" "PendingTasks (cleanup_entry c u m) = PendingTasks m"
  "SortedTasks (cleanup_entry c u m) = SortedTasks m" "mu (cleanup_entry c u m) = mu m"
  "task_at (cleanup_entry c u m) = task_at m" "Workers (cleanup_entry c u m) = Workers m"
  "listed_ids (cleanup_entry c u m) = listed_ids m"
  by (auto simp: cleanup_entry_def Let_def task_at_def listed_ids_def fun_eq_iff split: option.splits)

lemma cleanup_fold_simps [simp]:
  "store (fold (cleanup_entry c) us m) = store m"
  "PendingTasks (fold (cleanup_entry c) us m) = PendingTasks m"
  "SortedTasks (fold (cleanup_entry c) us m) = SortedTasks m"
  "mu (fold (cleanup_entry c) us m) = mu m" "task_at (fold (cleanup_entry c) us m) = task_at m"
  "Workers (fold (cleanup_entry c) us m) = Workers m"
  by (induction us arbitrary: m) auto

lemma CleanUpTasks_quiet:
  "quiet m \<Longrightarrow> CleanUpTasks us now m
     = Return () (fold (cleanup_entry (now - hours TASK_RETENTION_HOURS)) us m)"
  unfolding CleanUpTasks_def by (rule mgr.with_lock_pure) simp_all

text \<open>What is in the three maps after the loop: the expired entries are gone, nothing else.\<close>

definition expired_entry :: "time \<Rightarrow> 'q manager \<Rightarrow> uuid \<Rightarrow> bool" where
  "expired_entry c m u \<longleftrightarrow> (\<exists>t. TaskDb m u = Some t \<and> expired c (task_at m t))"

lemma cleanup_entry_maps:
  "TaskDb (cleanup_entry c u m) = (\<lambda>x. if x = u \<and> expired_entry c m u then None else TaskDb m x)"
  "EventDb (cleanup_entry c u m) = (\<lambda>x. if x = u \<and> expired_entry c m u then None else EventDb m x)"
  "TaskWorkerMap (cleanup_entry c u m)
     = (\<lambda>x. if x = u \<and> expired_entry c m u then None else TaskWorkerMap m x)"
  by (auto simp: cleanup_entry_def expired_entry_def Let_def fun_eq_iff split: option.splits)

lemma expired_entry_cleanup:
  "expired_entry c (cleanup_entry c u m) x \<longleftrightarrow> x \<noteq> u \<and> expired_entry c m x"
  by (auto simp: expired_entry_def cleanup_entry_maps split: if_splits)

lemma cleanup_fold_maps:
  "TaskDb (fold (cleanup_entry c) us m)
     = (\<lambda>x. if x \<in> set us \<and> expired_entry c m x then None else TaskDb m x)"
  "EventDb (fold (cleanup_entry c) us m)
     = (\<lambda>x. if x \<in> set us \<and> expired_entry c m x then None else EventDb m x)"
  "TaskWorkerMap (fold (cleanup_entry c) us m)
     = (\<lambda>x. if x \<in> set us \<and> expired_entry c m x then None else TaskWorkerMap m x)"
  by (induction us arbitrary: m)
    (auto simp: fun_eq_iff cleanup_entry_maps expired_entry_cleanup)

lemma cleanup_entry_wf: "manager_wf contents m \<Longrightarrow> manager_wf contents (cleanup_entry c u m)"
proof -
  assume wf: "manager_wf contents m"
  note D = manager_wfD [OF wf]
  have "x \<in> set (lookup_default [] (WorkersTaskMap (cleanup_entry c u m)) w)"
    if "TaskWorkerMap (cleanup_entry c u m) x = Some w" for x w
    using that D(8)
    by (auto simp: cleanup_entry_def forget_assignment_def Let_def in_set_remove1
        split: option.splits if_splits)
  then show ?thesis
    using D by (auto simp: manager_wf_def cleanup_entry_maps split: if_splits)
qed

lemma cleanup_fold_wf: "manager_wf contents m \<Longrightarrow> manager_wf contents (fold (cleanup_entry c) us m)"
  by (induction us arbitrary: m) (auto intro: cleanup_entry_wf)

text \<open>One occurrence of each expired identifier leaves the list of the worker it was assigned to.\<close>

definition assigned_list :: "'q manager \<Rightarrow> string \<Rightarrow> uuid list" where
  "assigned_list m w = lookup_default [] (WorkersTaskMap m) w"

lemma count_absent: "x \<notin> set xs \<Longrightarrow> count (mset xs) x = 0"
  by (simp add: count_mset_0_iff)

lemma cleanup_entry_lists:
  "count (mset (assigned_list (cleanup_entry c u m) w)) x =
     count (mset (assigned_list m w)) x
       - (if x = u \<and> expired_entry c m x \<and> TaskWorkerMap m x = Some w then 1 else 0)"
  by (auto simp: assigned_list_def cleanup_entry_def expired_entry_def forget_assignment_def Let_def
      count_absent split: option.splits)

lemma cleanup_fold_lists:
  "count (mset (assigned_list (fold (cleanup_entry c) us m) w)) x =
     count (mset (assigned_list m w)) x
       - (if x \<in> set us \<and> expired_entry c m x \<and> TaskWorkerMap m x = Some w then 1 else 0)"
  by (induction us arbitrary: m)
    (auto simp: cleanup_entry_lists expired_entry_cleanup cleanup_entry_maps)

section \<open>Properties\<close>

text \<open>A manager of one worker that has seen no task, but whose store holds one cell.\<close>

definition sample_manager :: "ptr list manager" where
  "sample_manager = (New list_queue [''w1''] 0)\<lparr>store :=
     \<lparr>cells = (\<lambda>_. zero_task\<lparr>ID := 7, State := Completed, StartTime := 5\<rparr>), fresh = 1\<rparr>\<rparr>"

lemma sample_manager_wf: "manager_wf (\<lambda>q. q) sample_manager" "quiet sample_manager"
  by (simp_all add: sample_manager_def manager_wf_def New_def no_nil_def list_queue_def quiet_def)

text \<open>
  C6: \<open>AddTask\<close> returns with the mutex free: the task is at the end of the pending queue, the
  database gives it under its identifier and every other identifier is as before, its identifier
  is listed beside those that were, and the manager stays well formed.
\<close>

theorem AddTask_effect:
  assumes "manager_wf contents m" and "fifo Q contents" and "quiet m" and "t < fresh (store m)"
  shows "\<exists>m'. AddTask Q t m = Return () m' \<and> quiet m' \<and> manager_wf contents m'
    \<and> contents (PendingTasks m') = contents (PendingTasks m) @ [t]
    \<and> GetTask (ID (task_at m t)) m' = Return (Some t) m'
    \<and> (\<forall>u. u \<noteq> ID (task_at m t) \<longrightarrow> TaskDb m' u = TaskDb m u)
    \<and> listed_ids m' = insert (ID (task_at m t)) (listed_ids m)"
proof -
  note nn = manager_wfD(1) [OF assms(1)]
  have "quiet (added Q t m)" using assms(3) by (simp add: quiet_def)
  then show ?thesis
    using AddTask_quiet [OF assms(3) nn, of Q t] added_wf [OF assms(1,2,4)]
    by (simp add: fifo_Enqueue [OF assms(2)] GetTask_quiet listed_ids_added [OF nn])
qed

theorem AddTask_effect_witness:
  "\<exists>m'. AddTask list_queue 0 sample_manager = Return () m' \<and> quiet m' \<and> manager_wf (\<lambda>q. q) m'
    \<and> PendingTasks m' = PendingTasks sample_manager @ [0]
    \<and> GetTask (ID (task_at sample_manager 0)) m' = Return (Some 0) m'
    \<and> (\<forall>u. u \<noteq> ID (task_at sample_manager 0) \<longrightarrow> TaskDb m' u = TaskDb sample_manager u)
    \<and> listed_ids m' = insert (ID (task_at sample_manager 0)) (listed_ids sample_manager)"
  using AddTask_effect [OF sample_manager_wf(1) fifo_list_queue sample_manager_wf(2), of 0]
  by (simp add: sample_manager_def)

text \<open>
  \<open>AddTask\<close> never lists a task twice. Adding a task whose identifier is listed leaves the
  sequence of listed identifiers as it is, adding a new one inserts its identifier once; so a
  listing without duplicates stays one.
\<close>

theorem AddTask_lists_once:
  assumes "no_nil (SortedTasks m)" and "quiet m" and "distinct (listing m)"
  shows "\<exists>m'. AddTask Q t m = Return () m' \<and> distinct (listing m')
    \<and> mset (listing m') = mset (listing m)
        + (if ID (task_at m t) \<in> listed_ids m then {#} else {#ID (task_at m t)#})"
proof (cases "findTaskInSortedList (store m) (ID (task_at m t)) (SortedTasks m)")
  case None
  obtain us vs where "listing m = us @ vs" "listing (added Q t m) = us @ ID (task_at m t) # vs"
      "ID (task_at m t) \<notin> listed_ids m"
    using listing_added_new [OF assms(1) None, of Q] by blast
  moreover from this have "ID (task_at m t) \<notin> set (us @ vs)" by (metis set_listing)
  ultimately show ?thesis using assms(3) AddTask_quiet [OF assms(2,1)] by auto
next
  case (Some i)
  have "ID (task_at m t) \<in> listed_ids m"
    using find_Some [OF Some] by (auto simp: listed_ids_def task_at_def) (metis nth_mem)
  then show ?thesis
    using assms(3) AddTask_quiet [OF assms(2,1)] listing_added_known [OF assms(1) Some, of Q] by simp
qed

theorem AddTask_lists_once_witness:
  "\<exists>m'. AddTask list_queue 0 sample_manager = Return () m' \<and> distinct (listing m')
    \<and> mset (listing m') = {#7#}"
  using AddTask_lists_once [of sample_manager list_queue 0] sample_manager_wf
  by (simp add: sample_manager_def New_def no_nil_def listing_def pointers_def task_at_def listed_ids_def)

text \<open>
  C24: \<open>CleanUpTasks\<close> removes from the database, the events and the assignments exactly the tasks
  that are Completed and started more than 24 hours ago, takes one entry of each off the list of
  its worker, and changes nothing else in those maps. It does not touch the listing: a task it
  removed is not found by its identifier any more and is still listed.
\<close>

theorem CleanUpTasks_exact:
  assumes "quiet m" and "dom (TaskDb m) \<subseteq> set order"
  shows "\<exists>m'. CleanUpTasks order now m = Return () m' \<and> quiet m' \<and> SortedTasks m' = SortedTasks m
    \<and> (\<forall>u. let gone = expired_entry (now - hours 24) m u in
          TaskDb m' u = (if gone then None else TaskDb m u)
        \<and> EventDb m' u = (if gone then None else EventDb m u)
        \<and> TaskWorkerMap m' u = (if gone then None else TaskWorkerMap m u)
        \<and> (\<forall>w. count (mset (assigned_list m' w)) u = count (mset (assigned_list m w)) u
              - (if gone \<and> TaskWorkerMap m u = Some w then 1 else 0)))"
proof -
  have "expired_entry c m u \<Longrightarrow> u \<in> set order" for c u
    using assms(2) by (auto simp: expired_entry_def)
  then have "(u \<in> set order \<and> expired_entry c m u) = expired_entry c m u"
    and "(u \<in> set order \<and> expired_entry c m u \<and> b) = (expired_entry c m u \<and> b)" for c u b
    by blast+
  then show ?thesis
    using CleanUpTasks_quiet [OF assms(1), of order now] assms(1)
    by (simp add: TASK_RETENTION_HOURS_def cleanup_fold_maps cleanup_fold_lists quiet_def Let_def)
qed

text \<open>The sample manager with its cell in the database and assigned to the worker.\<close>

definition sample_finished :: "ptr list manager" where
  "sample_finished = sample_manager\<lparr>TaskDb := [7 \<mapsto> 0], SortedTasks := [Some 0],
     TaskWorkerMap := [7 \<mapsto> ''w1''], WorkersTaskMap := [''w1'' \<mapsto> [7]]\<rparr>"

theorem CleanUpTasks_exact_witness:
  "\<exists>m'. CleanUpTasks [7] (hours 24 + 6) sample_finished = Return () m' \<and> TaskDb m' 7 = None
    \<and> TaskWorkerMap m' 7 = None"
proof -
  have "quiet sample_finished" "dom (TaskDb sample_finished) \<subseteq> set [7]"
    using sample_manager_wf(2) by (simp_all add: sample_finished_def quiet_def)
  from CleanUpTasks_exact [OF this, of "hours 24 + 6"] obtain m' where
    run: "CleanUpTasks [7] (hours 24 + 6) sample_finished = Return () m'"
    and at: "let gone = expired_entry (hours 24 + 6 - hours 24) sample_finished 7 in
          TaskDb m' 7 = (if gone then None else TaskDb sample_finished 7)
        \<and> EventDb m' 7 = (if gone then None else EventDb sample_finished 7)
        \<and> TaskWorkerMap m' 7 = (if gone then None else TaskWorkerMap sample_finished 7)
        \<and> (\<forall>w. count (mset (assigned_list m' w)) 7 = count (mset (assigned_list sample_finished w)) 7
              - (if gone \<and> TaskWorkerMap sample_finished 7 = Some w then 1 else 0))"
    by blast
  have "expired_entry (hours 24 + 6 - hours 24) sample_finished 7"
    by (simp add: expired_entry_def expired_def sample_finished_def sample_manager_def task_at_def)
  with run at show ?thesis by (simp add: Let_def)
qed

end
