(* ===== verification/Manager_Sched.thy ===== *)
theory Manager_Sched
  imports Manager_State
begin

text \<open>
  Worker selection and worker health of \<open>src/internal/manager/manager.go\<close>: the workers that pass the
  health check, those whose state is Ready, the round robin over the workers that are both, and
  the bookkeeping of the health checks.
\<close>

section \<open>Which workers can be scheduled\<close>

definition IsWorkerReady :: "string \<Rightarrow> 'q manager \<Rightarrow> (bool, 'q manager) result" where
  "IsWorkerReady w = with_rlock mu mu_update (\<lambda>m. Return (lookup_default Ready (WorkerState m) w = Ready) m)"

definition IsWorkerHealthy :: "string \<Rightarrow> 'q manager \<Rightarrow> (bool, 'q manager) result" where
  "IsWorkerHealthy w = with_rlock mu mu_update (\<lambda>m. Return (lookup_default False (WorkerHealth m) w) m)"

text \<open>\<open>for _, w := range ws { if test(w) { out = append(out, w) } }\<close>\<close>

fun collect :: "('x \<Rightarrow> 's \<Rightarrow> (bool, 's) result) \<Rightarrow> 'x list \<Rightarrow> 's \<Rightarrow> ('x list, 's) result" where
  "collect test [] s = Return [] s"
| "collect test (w # ws) s =
     andthen (test w s) (\<lambda>ok s. andthen (collect test ws s)
       (\<lambda>out s. Return (if ok then w # out else out) s))"

text \<open>Both loops call a method that takes the read lock again while they hold it.\<close>

definition GetHealthyWorkers :: "'q manager \<Rightarrow> (error + string list, 'q manager) result" where
  "GetHealthyWorkers m =
     andthen (rlock_op mu mu_update m) (\<lambda>_ m.
     andthen (collect IsWorkerHealthy (Workers m) m) (\<lambda>healthyWorkers m.
     andthen (runlock_op mu mu_update m) (\<lambda>_ m.
       Return (if healthyWorkers = [] then Inl ''no healthy workers exist'' else Inr healthyWorkers) m)))"

definition GetReadyWorkers :: "'q manager \<Rightarrow> (error + string list, 'q manager) result" where
  "GetReadyWorkers m =
     andthen (rlock_op mu mu_update m) (\<lambda>_ m.
     andthen (collect IsWorkerReady (Workers m) m) (\<lambda>readyWorkers m.
     andthen (runlock_op mu mu_update m) (\<lambda>_ m.
       Return (if readyWorkers = [] then Inl ''no ready workers exist'' else Inr readyWorkers) m)))"

definition workersInBoth :: "string list \<Rightarrow> string list \<Rightarrow> string list" where
  "workersInBoth a b =
     (let set_of = fold (\<lambda>w s. s(w \<mapsto> ())) a (\<lambda>_. None)
      in fold (\<lambda>w out. if set_of w \<noteq> None then out @ [w] else out) b [])"

text \<open>\<open>schedulable[lastWorker]\<close> is an index into a slice, a panic when it is out of range.\<close>

definition SelectWorker :: "'q manager \<Rightarrow> (error + string, 'q manager) result" where
  "SelectWorker m =
     (if Workers m = [] then Return (Inl ''no workers available to select'') m
      else andthen (GetHealthyWorkers m) (\<lambda>healthy m.
        case healthy of Inl err \<Rightarrow> Return (Inl err) m
        | Inr healthyWorkers \<Rightarrow> andthen (GetReadyWorkers m) (\<lambda>ready m.
        case ready of Inl err \<Rightarrow> Return (Inl err) m
        | Inr readyWorkers \<Rightarrow>
            (let schedulable = workersInBoth healthyWorkers readyWorkers
             in if schedulable = []
                then Return (Inl ''no workers that are both healthy and ready'') m
                else andthen (lock_op mu mu_update m) (\<lambda>_ m.
                  let m = m\<lparr>lastWorker := (lastWorker m + 1) mod length schedulable\<rparr>
                  in if lastWorker m < length schedulable
                     then andthen (unlock_op mu mu_update m)
                            (\<lambda>_ m. Return (Inr (schedulable ! lastWorker m)) m)
                     else Panic IndexOutOfRange m)))))"

section \<open>The abstract scheduler\<close>

text \<open>The workers that can be scheduled, in the order of \<open>Workers\<close>.\<close>

definition healthy :: "'q manager \<Rightarrow> string \<Rightarrow> bool" where
  "healthy m w \<longleftrightarrow> lookup_default False (WorkerHealth m) w"

definition ready :: "'q manager \<Rightarrow> string \<Rightarrow> bool" where
  "ready m w \<longleftrightarrow> lookup_default Ready (WorkerState m) w = Ready"

definition schedulable :: "'q manager \<Rightarrow> string list" where
  "schedulable m = filter (\<lambda>w. healthy m w \<and> ready m w) (Workers m)"

definition select_spec :: "'q manager \<Rightarrow> (error + string) \<times> 'q manager" where
  "select_spec m =
     (if Workers m = [] then (Inl ''no workers available to select'', m)
      else if filter (healthy m) (Workers m) = [] then (Inl ''no healthy workers exist'', m)
      else if filter (ready m) (Workers m) = [] then (Inl ''no ready workers exist'', m)
      else if schedulable m = [] then (Inl ''no workers that are both healthy and ready'', m)
      else (let k = Suc (lastWorker m) mod length (schedulable m)
            in (Inr (schedulable m ! k), m\<lparr>lastWorker := k\<rparr>)))"

lemma collect_filter:
  "(\<And>w. w \<in> set ws \<Longrightarrow> test w s = Return (P w) s) \<Longrightarrow> collect test ws s = Return (filter P ws) s"
  by (induction ws) auto

lemma workersInBoth_filter: "workersInBoth a b = filter (\<lambda>w. w \<in> set a) b"
proof -
  have "fold (\<lambda>w out. if P w then out @ [w] else out) b acc = acc @ filter P b" for P acc
    by (induction b arbitrary: acc) auto
  then show ?thesis by (simp add: workersInBoth_def Let_def fold_upd_const)
qed

lemma workersInBoth_schedulable:
  "workersInBoth (filter (healthy m) (Workers m)) (filter (ready m) (Workers m)) = schedulable m"
  by (auto simp: workersInBoth_filter schedulable_def conj_commute intro: filter_cong)

lemma rlocked_reads:
  assumes "quiet m"
  defines "m' \<equiv> mu_update (\<lambda>x. x\<lparr>readers := Suc (readers x)\<rparr>) m"
  shows "IsWorkerHealthy w m' = Return (healthy m w) m'"
    and "IsWorkerReady w m' = Return (ready m w) m'"
proof -
  have r: "can_rlock (mu m')"
    using assms(1) by (simp add: m'_def quiet_def mutex_free_def can_rlock_def)
  show "IsWorkerHealthy w m' = Return (healthy m w) m'"
    using mgr.with_rlock_pure [OF r, of "\<lambda>m. healthy m w"]
    by (simp add: IsWorkerHealthy_def healthy_def m'_def)
  show "IsWorkerReady w m' = Return (ready m w) m'"
    using mgr.with_rlock_pure [OF r, of "\<lambda>m. ready m w"]
    by (simp add: IsWorkerReady_def ready_def m'_def)
qed

lemma mu_readers_back: "mu_update (\<lambda>x. x\<lparr>readers := readers x\<rparr>) m = m"
  by simp

lemma GetHealthyWorkers_quiet:
  assumes "quiet m"
  shows "GetHealthyWorkers m =
    Return (if filter (healthy m) (Workers m) = [] then Inl ''no healthy workers exist''
            else Inr (filter (healthy m) (Workers m))) m"
proof -
  let ?m = "mu_update (\<lambda>x. x\<lparr>readers := Suc (readers x)\<rparr>) m"
  have "collect IsWorkerHealthy (Workers ?m) ?m = Return (filter (healthy m) (Workers m)) ?m"
    using collect_filter [of "Workers ?m" IsWorkerHealthy ?m "healthy m"] rlocked_reads(1) [OF assms] by simp
  with assms show ?thesis
    by (simp add: GetHealthyWorkers_def rlock_op_def runlock_op_def comp_def)
qed

lemma GetReadyWorkers_quiet:
  assumes "quiet m"
  shows "GetReadyWorkers m =
    Return (if filter (ready m) (Workers m) = [] then Inl ''no ready workers exist''
            else Inr (filter (ready m) (Workers m))) m"
proof -
  let ?m = "mu_update (\<lambda>x. x\<lparr>readers := Suc (readers x)\<rparr>) m"
  have "collect IsWorkerReady (Workers ?m) ?m = Return (filter (ready m) (Workers m)) ?m"
    using collect_filter [of "Workers ?m" IsWorkerReady ?m "ready m"] rlocked_reads(2) [OF assms] by simp
  with assms show ?thesis
    by (simp add: GetReadyWorkers_def rlock_op_def runlock_op_def comp_def)
qed

text \<open>On its own, with the mutex free, \<open>SelectWorker\<close> computes the abstract selection.\<close>

lemma SelectWorker_quiet:
  assumes "quiet m"
  shows "SelectWorker m = Return (fst (select_spec m)) (snd (select_spec m))"
proof -
  have "\<not> writer (mu m)" "readers (mu m) = 0" using assms by (auto simp: quiet_def mutex_free_def)
  then have "(mu m)\<lparr>writer := False\<rparr> = mu m" by (cases "mu m") simp
  then have restore: "mu_update (writer_update (\<lambda>_. False)) (m\<lparr>lastWorker := k\<rparr>) = m\<lparr>lastWorker := k\<rparr>" for k
    by (intro mgr.upd_same) simp
  show ?thesis
    using assms
    by (simp add: SelectWorker_def GetHealthyWorkers_quiet GetReadyWorkers_quiet select_spec_def
        workersInBoth_schedulable Let_def lock_op_def unlock_op_def comp_def restore)
qed

lemma select_spec_frame [simp]:
  "store (snd (select_spec m)) = store m" "PendingTasks (snd (select_spec m)) = PendingTasks m"
  "TaskDb (snd (select_spec m)) = TaskDb m" "SortedTasks (snd (select_spec m)) = SortedTasks m"
  "TaskWorkerMap (snd (select_spec m)) = TaskWorkerMap m" "EventDb (snd (select_spec m)) = EventDb m"
  "WorkersTaskMap (snd (select_spec m)) = WorkersTaskMap m" "Workers (snd (select_spec m)) = Workers m"
  "WorkerHealth (snd (select_spec m)) = WorkerHealth m" "WorkerState (snd (select_spec m)) = WorkerState m"
  "mu (snd (select_spec m)) = mu m"
  by (simp_all add: select_spec_def Let_def)

lemma select_spec_Inr_iff:
  "fst (select_spec m) = Inr w \<longleftrightarrow>
     schedulable m \<noteq> [] \<and> w = schedulable m ! (Suc (lastWorker m) mod length (schedulable m))"
  by (auto simp: select_spec_def schedulable_def Let_def filter_empty_conv)

lemma schedulable_select [simp]: "schedulable (snd (select_spec m)) = schedulable m"
  by (simp add: schedulable_def healthy_def [abs_def] ready_def [abs_def])

text \<open>
  \<open>lastWorker\<close> is a Go \<open>int\<close>. The selections keep it below the number of workers, and there
  \<open>(lastWorker+1) % len(schedulable)\<close> on 64-bit integers, with Go's truncating remainder, does not
  wrap and has the value the model computes.
\<close>

lemma round_robin_exact:
  assumes "0 < len" and "len < 2 ^ 63" and "l < 2 ^ 63 - 1"
  shows "sint (go_rem (word_of_nat l + 1) (word_of_nat len)) = int ((l + 1) mod len)"
proof -
  have l: "sint (word_of_nat l + 1 :: go_int) = int (l + 1)"
    using assms(3) sint_of_int [of "int (l + 1)"] by (simp add: add.commute)
  have n: "sint (word_of_nat len :: go_int) = int len"
    using assms(2) sint_of_int [of "int len"] by simp
  have "(l + 1) mod len < 2 ^ 63"
    using mod_less_divisor [OF assms(1)] assms(2) by (rule less_trans)
  then have "sint (word_of_int (int ((l + 1) mod len)) :: go_int) = int ((l + 1) mod len)"
    by (intro sint_of_int) simp_all
  moreover have "sgn (int (l + 1)) * (\<bar>int (l + 1)\<bar> mod \<bar>int len\<bar>) = int ((l + 1) mod len)"
    by (simp add: zmod_int)
  ultimately show ?thesis unfolding go_rem_def l n by (simp only:)
qed

lemma lastWorker_selected:
  "fst (select_spec m) = Inr w \<Longrightarrow> lastWorker (snd (select_spec m)) < length (schedulable m)"
  by (auto simp: select_spec_def schedulable_def Let_def filter_empty_conv split: if_splits)

section \<open>Rounds of selections\<close>

text \<open>The workers \<open>n\<close> selections in a row choose, nothing else changing between them.\<close>

fun select_many :: "nat \<Rightarrow> 'q manager \<Rightarrow> string list \<times> 'q manager" where
  "select_many 0 m = ([], m)"
| "select_many (Suc n) m =
     (case SelectWorker m of
        Return (Inr w) m' \<Rightarrow> (let (ws, m'') = select_many n m' in (w # ws, m''))
      | Return (Inl e) m' \<Rightarrow> ([], m')
      | Panic p m' \<Rightarrow> ([], m')
      | Blocked m' \<Rightarrow> ([], m'))"

lemma select_many_nth:
  assumes "quiet m" and "schedulable m \<noteq> []"
  shows "fst (select_many n m) =
    map (\<lambda>i. schedulable m ! ((lastWorker m + Suc i) mod length (schedulable m))) [0..<n]"
  using assms
proof (induction n arbitrary: m)
  case (Suc n)
  let ?S = "schedulable m" and ?m = "snd (select_spec m)"
  let ?k = "Suc (lastWorker m) mod length (schedulable m)"
  have fst: "fst (select_spec m) = Inr (?S ! ?k)"
    using Suc.prems by (simp add: select_spec_Inr_iff)
  then have last: "lastWorker ?m = ?k"
    by (auto simp: select_spec_def Let_def split: if_splits)
  have quiet: "quiet ?m" using Suc.prems by (simp add: quiet_def)
  have "fst (select_many (Suc n) m) = ?S ! ?k # fst (select_many n ?m)"
    using Suc.prems fst by (simp add: SelectWorker_quiet split_beta)
  also have "fst (select_many n ?m)
      = map (\<lambda>i. ?S ! ((?k + Suc i) mod length ?S)) [0..<n]"
    using Suc.IH [OF quiet] Suc.prems last by simp
  also have "\<dots> = map (\<lambda>i. ?S ! ((lastWorker m + Suc (Suc i)) mod length ?S)) [0..<n]"
  proof -
    have "(?k + Suc i) mod length ?S = (lastWorker m + Suc (Suc i)) mod length ?S" for i
      using mod_add_left_eq [of "Suc (lastWorker m)" "length ?S" "Suc i"] by simp
    then show ?thesis by (simp only:)
  qed
  finally show ?case by (simp add: upt_conv_Cons map_Suc_upt [symmetric] del: upt_Suc)
qed simp

lemma rotation_permutes:
  assumes "0 < n"
  shows "mset (map (\<lambda>i. (b + Suc i) mod n) [0..<n]) = mset [0..<n]"
proof -
  have inj: "inj_on (\<lambda>i. (b + Suc i) mod n) {0..<n}"
  proof (rule inj_onI)
    fix x y assume xy: "x \<in> {0..<n}" "y \<in> {0..<n}" "(b + Suc x) mod n = (b + Suc y) mod n"
    show "x = y"
    proof (cases "x \<le> y")
      case True
      then have "n dvd y - x" using xy(3) mod_eq_dvd_iff_nat [of "b + Suc x" "b + Suc y" n] by simp
      with xy True show ?thesis by (auto dest: dvd_imp_le)
    next
      case False
      then have "n dvd x - y" using xy(3) mod_eq_dvd_iff_nat [of "b + Suc y" "b + Suc x" n] by simp
      with xy False show ?thesis by (auto dest: dvd_imp_le)
    qed
  qed
  have "(\<lambda>i. (b + Suc i) mod n) ` {0..<n} = {0..<n}"
    by (rule endo_inj_surj) (use assms inj in auto)
  then have "set (map (\<lambda>i. (b + Suc i) mod n) [0..<n]) = set [0..<n]" by simp
  moreover have "distinct (map (\<lambda>i. (b + Suc i) mod n) [0..<n])"
    using inj by (simp add: distinct_map)
  ultimately show ?thesis using set_eq_iff_mset_eq_distinct [OF _ distinct_upt] by blast
qed

section \<open>Health\<close>

definition MarkWorkerDown_body :: "string \<Rightarrow> 'q manager \<Rightarrow> 'q manager" where
  "MarkWorkerDown_body w m =
     (let m = m\<lparr>WorkerHealth := (WorkerHealth m)(w \<mapsto> False)\<rparr>;
          m = m\<lparr>WorkerHealthCheckFailures := (WorkerHealthCheckFailures m)
                   (w \<mapsto> lookup_default 0 (WorkerHealthCheckFailures m) w + 1)\<rparr>
      in if sint (lookup_default 0 (WorkerHealthCheckFailures m) w) > 5
         then m\<lparr>WorkerState := (WorkerState m)(w \<mapsto> Unhealthy)\<rparr> else m)"

definition MarkWorkerDown :: "string \<Rightarrow> 'q manager \<Rightarrow> (unit, 'q manager) result" where
  "MarkWorkerDown w = with_lock mu mu_update (\<lambda>m. Return () (MarkWorkerDown_body w m))"

definition MarkWorkerUp_body :: "string \<Rightarrow> 'q manager \<Rightarrow> 'q manager" where
  "MarkWorkerUp_body w m =
     m\<lparr>WorkerHealth := (WorkerHealth m)(w \<mapsto> True),
       WorkerHealthCheckFailures := (WorkerHealthCheckFailures m)(w \<mapsto> 0),
       WorkerState := (WorkerState m)(w \<mapsto> Ready)\<rparr>"

definition MarkWorkerUp :: "string \<Rightarrow> 'q manager \<Rightarrow> (unit, 'q manager) result" where
  "MarkWorkerUp w = with_lock mu mu_update (\<lambda>m. Return () (MarkWorkerUp_body w m))"

text \<open>
  A round of \<open>HealthCheckWorkers\<close> starts one goroutine per worker. The list holds, in the order in
  which they finish, each worker with what became of its request. \<open>NoRequest\<close> is a worker name that
  gives no valid URL: the error of \<open>http.NewRequestWithContext\<close> is thrown away, and \<open>httpClient.Do\<close>
  dereferences the nil request, which ends the process. The status of a reply that did arrive is
  not looked at.
\<close>

datatype health_reply = NoRequest | NoAnswer | Answered

definition health_result :: "string \<times> health_reply \<Rightarrow> 'q manager \<Rightarrow> (unit, 'q manager) result" where
  "health_result r m =
     (case r of (w, reply) \<Rightarrow>
        case reply of
          NoRequest \<Rightarrow> Panic NilDeref m
        | NoAnswer \<Rightarrow> MarkWorkerDown w m
        | Answered \<Rightarrow> MarkWorkerUp w m)"

definition HealthCheckWorkers :: "(string \<times> health_reply) list \<Rightarrow> 'q manager \<Rightarrow> (unit, 'q manager) result" where
  "HealthCheckWorkers results m = for_each health_result results m"

lemma Mark_frame [simp]:
  "mu (MarkWorkerDown_body w m) = mu m" "mu (MarkWorkerUp_body w m) = mu m"
  "Workers (MarkWorkerDown_body w m) = Workers m" "Workers (MarkWorkerUp_body w m) = Workers m"
  "store (MarkWorkerDown_body w m) = store m" "store (MarkWorkerUp_body w m) = store m"
  "TaskDb (MarkWorkerDown_body w m) = TaskDb m" "TaskDb (MarkWorkerUp_body w m) = TaskDb m"
  "SortedTasks (MarkWorkerDown_body w m) = SortedTasks m" "SortedTasks (MarkWorkerUp_body w m) = SortedTasks m"
  "PendingTasks (MarkWorkerDown_body w m) = PendingTasks m" "PendingTasks (MarkWorkerUp_body w m) = PendingTasks m"
  "TaskWorkerMap (MarkWorkerDown_body w m) = TaskWorkerMap m" "TaskWorkerMap (MarkWorkerUp_body w m) = TaskWorkerMap m"
  "WorkersTaskMap (MarkWorkerDown_body w m) = WorkersTaskMap m" "WorkersTaskMap (MarkWorkerUp_body w m) = WorkersTaskMap m"
  "EventDb (MarkWorkerDown_body w m) = EventDb m" "EventDb (MarkWorkerUp_body w m) = EventDb m"
  by (simp_all add: MarkWorkerDown_body_def MarkWorkerUp_body_def Let_def)

lemma MarkWorkerDown_quiet: "quiet m \<Longrightarrow> MarkWorkerDown w m = Return () (MarkWorkerDown_body w m)"
  unfolding MarkWorkerDown_def
  by (rule mgr.with_lock_pure) (simp_all add: MarkWorkerDown_body_def Let_def)

lemma MarkWorkerUp_quiet: "quiet m \<Longrightarrow> MarkWorkerUp w m = Return () (MarkWorkerUp_body w m)"
  unfolding MarkWorkerUp_def
  by (rule mgr.with_lock_pure) (simp_all add: MarkWorkerUp_body_def Let_def)

text \<open>What a round of results does, as a fold of the pure updates.\<close>

definition health_update :: "string \<times> health_reply \<Rightarrow> 'q manager \<Rightarrow> 'q manager" where
  "health_update r m =
     (case r of (w, reply) \<Rightarrow>
        case reply of
          NoRequest \<Rightarrow> m
        | NoAnswer \<Rightarrow> MarkWorkerDown_body w m
        | Answered \<Rightarrow> MarkWorkerUp_body w m)"

lemma health_update_mu [simp]: "mu (health_update r m) = mu m"
  by (simp add: health_update_def split: prod.split health_reply.split)

lemma health_result_quiet:
  "quiet m \<Longrightarrow> health_result r m =
     (if snd r = NoRequest then Panic NilDeref m else Return () (health_update r m))"
  by (cases r; cases "snd r")
    (simp_all add: health_result_def health_update_def MarkWorkerDown_quiet MarkWorkerUp_quiet)

lemma HealthCheckWorkers_cases:
  "quiet m \<Longrightarrow> HealthCheckWorkers rs m =
     (let done = takeWhile (\<lambda>r. snd r \<noteq> NoRequest) rs
      in if done = rs then Return () (fold health_update rs m)
         else Panic NilDeref (fold health_update done m))"
proof (induction rs arbitrary: m)
  case (Cons r rs)
  have "quiet (health_update r m)" using Cons.prems by (simp add: quiet_def)
  then show ?case
    using Cons.IH Cons.prems by (auto simp: HealthCheckWorkers_def health_result_quiet Let_def)
qed (simp add: HealthCheckWorkers_def)

lemma HealthCheckWorkers_quiet:
  "quiet m \<Longrightarrow> NoRequest \<notin> snd ` set rs \<Longrightarrow> HealthCheckWorkers rs m = Return () (fold health_update rs m)"
  by (auto simp: HealthCheckWorkers_cases takeWhile_eq_all_conv image_iff Let_def)

lemma HealthCheckWorkers_Return:
  "quiet m \<Longrightarrow> HealthCheckWorkers rs m = Return () t \<Longrightarrow>
     t = fold health_update rs m \<and> NoRequest \<notin> snd ` set rs"
  by (auto simp: HealthCheckWorkers_cases takeWhile_eq_all_conv image_iff Let_def split: if_splits)

definition failures :: "'q manager \<Rightarrow> string \<Rightarrow> go_int" where
  "failures m w = lookup_default 0 (WorkerHealthCheckFailures m) w"

lemma Down_fields:
  "healthy (MarkWorkerDown_body w m) v \<longleftrightarrow> v \<noteq> w \<and> healthy m v"
  "failures (MarkWorkerDown_body w m) v = (if v = w then failures m w + 1 else failures m v)"
  "ready (MarkWorkerDown_body w m) v \<longleftrightarrow> ready m v \<and> (v = w \<longrightarrow> sint (failures m w + 1) \<le> 5)"
  by (auto simp: MarkWorkerDown_body_def Let_def healthy_def failures_def ready_def)

lemma Up_fields:
  "healthy (MarkWorkerUp_body w m) v \<longleftrightarrow> v = w \<or> healthy m v"
  "failures (MarkWorkerUp_body w m) v = (if v = w then 0 else failures m v)"
  "ready (MarkWorkerUp_body w m) v \<longleftrightarrow> v = w \<or> ready m v"
  by (auto simp: MarkWorkerUp_body_def healthy_def failures_def ready_def)

lemma fold_Down:
  "failures (fold health_update (replicate n (w, NoAnswer)) m) w = failures m w + word_of_nat n
   \<and> (healthy (fold health_update (replicate n (w, NoAnswer)) m) w \<longleftrightarrow> n = 0 \<and> healthy m w)
   \<and> (ready (fold health_update (replicate n (w, NoAnswer)) m) w
       \<longleftrightarrow> ready m w \<and> (\<forall>j < n. sint (failures m w + word_of_nat (Suc j)) \<le> 5))"
proof (induction n)
  case (Suc n)
  have split: "fold health_update (replicate (Suc n) (w, NoAnswer)) m
      = MarkWorkerDown_body w (fold health_update (replicate n (w, NoAnswer)) m)"
    unfolding replicate_Suc replicate_append_same [symmetric]
    by (simp add: health_update_def del: fold_replicate)
  show ?case
    unfolding split Down_fields using Suc by (auto simp: algebra_simps less_Suc_eq)
qed simp

lemma fold_Down_others:
  "v \<noteq> w \<Longrightarrow> healthy (fold health_update (replicate n (w, NoAnswer)) m) v = healthy m v
   \<and> ready (fold health_update (replicate n (w, NoAnswer)) m) v = ready m v
   \<and> failures (fold health_update (replicate n (w, NoAnswer)) m) v = failures m v"
  by (induction n arbitrary: m) (simp_all add: health_update_def Down_fields)

text \<open>Counted from 0, the sixth failure is the first above 5, and it comes long before the counter wraps.\<close>

lemma sixth_failure:
  "(\<forall>j < n. sint (word_of_nat (Suc j) :: go_int) \<le> 5) \<longleftrightarrow> n \<le> 5"
proof
  assume *: "\<forall>j < n. sint (word_of_nat (Suc j) :: go_int) \<le> 5"
  show "n \<le> 5"
  proof (rule ccontr)
    assume "\<not> n \<le> 5"
    then have "sint (word_of_nat (Suc 5) :: go_int) \<le> 5" using * by (intro *[rule_format]) simp
    then show False by simp
  qed
next
  assume "n \<le> 5"
  show "\<forall>j < n. sint (word_of_nat (Suc j) :: go_int) \<le> 5"
  proof (intro allI impI)
    fix j assume "j < n"
    with \<open>n \<le> 5\<close> have "j \<in> {0, 1, 2, 3, 4}" by auto
    then show "sint (word_of_nat (Suc j) :: go_int) \<le> 5" by auto
  qed
qed

lemma fold_health_mu [simp]: "mu (fold health_update rs m) = mu m"
  by (induction rs arbitrary: m) simp_all

section \<open>Properties\<close>

text \<open>Three workers, the first of which is down and the others up.\<close>

definition sample_cluster :: "ptr list manager" where
  "sample_cluster = (New list_queue [''w1'', ''w2'', ''w3''] 0)
     \<lparr>WorkerHealth := [''w1'' \<mapsto> False, ''w2'' \<mapsto> True, ''w3'' \<mapsto> True]\<rparr>"

lemma sample_cluster_facts:
  "quiet sample_cluster" "schedulable sample_cluster = [''w2'', ''w3'']" "lastWorker sample_cluster = 0"
  by (simp_all add: sample_cluster_def quiet_def New_def schedulable_def healthy_def ready_def
      lookup_default_def)

text \<open>
  C7: with the mutex free and no other goroutine acting on it meanwhile, \<open>SelectWorker\<close> returns,
  without a panic and with the mutex free again. It gives a worker of the configuration that passed
  its last health check and whose state is Ready, and it gives an error only if there is no such
  worker. (With another goroutine asking for the write lock it can wait for ever, see
  \<open>nested_read_locks_deadlock\<close>.)
\<close>

theorem SelectWorker_correct:
  assumes "quiet m"
  shows "\<exists>r m'. SelectWorker m = Return r m' \<and> quiet m'
    \<and> (\<forall>w. r = Inr w \<longrightarrow> w \<in> set (Workers m) \<and> healthy m w \<and> ready m w)
    \<and> ((\<exists>e. r = Inl e) \<longleftrightarrow> \<not> (\<exists>w \<in> set (Workers m). healthy m w \<and> ready m w))"
proof -
  have member: "schedulable m \<noteq> [] \<Longrightarrow>
      schedulable m ! (Suc (lastWorker m) mod length (schedulable m)) \<in> set (schedulable m)"
    by (intro nth_mem) simp
  have chosen: "w \<in> set (Workers m) \<and> healthy m w \<and> ready m w" if "fst (select_spec m) = Inr w" for w
    using that member by (auto simp: select_spec_Inr_iff schedulable_def)
  have "(\<exists>e. fst (select_spec m) = Inl e) \<longleftrightarrow> schedulable m = []"
    using select_spec_Inr_iff [of m] by (cases "fst (select_spec m)") auto
  moreover have "schedulable m = [] \<longleftrightarrow> \<not> (\<exists>w \<in> set (Workers m). healthy m w \<and> ready m w)"
    by (auto simp: schedulable_def filter_empty_conv)
  moreover have "quiet (snd (select_spec m))" using assms by (simp add: quiet_def)
  ultimately show ?thesis using SelectWorker_quiet [OF assms] chosen by blast
qed

theorem SelectWorker_correct_witness:
  "\<exists>r m'. SelectWorker sample_cluster = Return r m' \<and> quiet m'
    \<and> (\<forall>w. r = Inr w \<longrightarrow> w \<in> set (Workers sample_cluster) \<and> healthy sample_cluster w \<and> ready sample_cluster w)
    \<and> ((\<exists>e. r = Inl e) \<longleftrightarrow> \<not> (\<exists>w \<in> set (Workers sample_cluster). healthy sample_cluster w \<and> ready sample_cluster w))"
  by (rule SelectWorker_correct) (rule sample_cluster_facts)

text \<open>
  C16: the selection is a fair round robin: while nothing else changes, as many selections as there
  are healthy and ready workers choose each of them once, whatever was chosen before.
\<close>

theorem SelectWorker_fair:
  assumes "quiet m" and "schedulable m \<noteq> []"
  shows "mset (fst (select_many (length (schedulable m)) m)) = mset (schedulable m)"
proof -
  let ?S = "schedulable m" and ?r = "\<lambda>i. (lastWorker m + Suc i) mod length (schedulable m)"
  have "mset (fst (select_many (length ?S) m)) = mset (map ((!) ?S) (map ?r [0..<length ?S]))"
    using select_many_nth [OF assms, of "length ?S"] by (simp add: comp_def)
  also have "\<dots> = image_mset ((!) ?S) (mset (map ?r [0..<length ?S]))"
    by (rule mset_map)
  also have "\<dots> = image_mset ((!) ?S) (mset [0..<length ?S])"
    using rotation_permutes [of "length ?S" "lastWorker m"] assms(2) by simp
  also have "\<dots> = mset (map ((!) ?S) [0..<length ?S])" by (rule mset_map [symmetric])
  also have "\<dots> = mset ?S" by (simp add: map_nth)
  finally show ?thesis .
qed

theorem SelectWorker_fair_witness:
  "mset (fst (select_many 2 sample_cluster)) = {#''w2'', ''w3''#}"
  using SelectWorker_fair [of sample_cluster] sample_cluster_facts
  by (simp add: numeral_2_eq_2 del: select_many.simps)

text \<open>
  C25: with the mutex free, a worker leaves the set of schedulable workers with its first failed
  health check, but its state becomes Unhealthy only at the sixth failure in a row, and it stays so
  for any number of further ones, past the wrap-around of the 64-bit counter; the other workers
  are not affected, and one answer makes it healthy and ready again.
\<close>

theorem health_checks_in_a_row:
  assumes "quiet m" and "failures m w = 0" and "ready m w"
  shows "\<exists>m1 m2. HealthCheckWorkers (replicate n (w, NoAnswer)) m = Return () m1
    \<and> HealthCheckWorkers [(w, Answered)] m1 = Return () m2
    \<and> (healthy m1 w \<longleftrightarrow> n = 0 \<and> healthy m w) \<and> (ready m1 w \<longleftrightarrow> n \<le> 5) \<and> failures m1 w = word_of_nat n
    \<and> (\<forall>v. v \<noteq> w \<longrightarrow> healthy m1 v = healthy m v \<and> ready m1 v = ready m v)
    \<and> healthy m2 w \<and> ready m2 w \<and> failures m2 w = 0"
proof -
  let ?m1 = "fold health_update (replicate n (w, NoAnswer)) m"
  have q: "quiet ?m1" using assms(1) by (simp add: quiet_def del: fold_replicate)
  have "HealthCheckWorkers [(w, Answered)] ?m1 = Return () (MarkWorkerUp_body w ?m1)"
    using HealthCheckWorkers_quiet [OF q, of "[(w, Answered)]"] by (simp add: health_update_def)
  moreover have "HealthCheckWorkers (replicate n (w, NoAnswer)) m = Return () ?m1"
    by (rule HealthCheckWorkers_quiet [OF assms(1)]) auto
  ultimately show ?thesis
    using fold_Down [of n w m] fold_Down_others [of _ w n m] assms(2,3) sixth_failure [of n]
    by (intro exI [of _ ?m1] exI [of _ "MarkWorkerUp_body w ?m1"]) (simp add: Up_fields del: fold_replicate)
qed

theorem health_checks_in_a_row_witness:
  "\<exists>m1 m2. HealthCheckWorkers (replicate 6 (''w2'', NoAnswer)) sample_cluster = Return () m1
    \<and> HealthCheckWorkers [(''w2'', Answered)] m1 = Return () m2 \<and> \<not> ready m1 ''w2'' \<and> ready m2 ''w2''"
proof -
  have "failures sample_cluster ''w2'' = 0" "ready sample_cluster ''w2''"
    by (simp_all add: sample_cluster_def failures_def ready_def New_def)
  from health_checks_in_a_row [OF sample_cluster_facts(1) this, of 6] show ?thesis by auto
qed

text \<open>
  \<open>GetHealthyWorkers\<close> and \<open>GetReadyWorkers\<close> call, while they hold the read lock, a method that
  takes it again. If a writer has started to wait in between, the inner call waits for the writer,
  which waits for the outer read lock: the loop never goes on.
\<close>

theorem nested_read_lock_blocks:
  assumes "readers (mu m) \<noteq> 0" and "writers_waiting (mu m) \<noteq> 0" and "Workers m = w # ws"
  shows "collect IsWorkerHealthy (Workers m) m = Blocked m
    \<and> collect IsWorkerReady (Workers m) m = Blocked m \<and> lock_op mu mu_update m = Blocked m"
  using assms
  by (simp add: mgr.with_rlock_blocked IsWorkerHealthy_def IsWorkerReady_def can_rlock_def lock_op_def can_lock_def)

theorem nested_read_lock_blocks_witness:
  "let m = sample_cluster\<lparr>mu := \<lparr>writer = False, readers = 1, writers_waiting = 1\<rparr>\<rparr>
   in collect IsWorkerHealthy (Workers m) m = Blocked m
    \<and> collect IsWorkerReady (Workers m) m = Blocked m \<and> lock_op mu mu_update m = Blocked m"
  unfolding Let_def
  by (rule nested_read_lock_blocks [of _ "''w1''" "[''w2'', ''w3'']"])
    (simp_all add: sample_cluster_def New_def)

end
