(* ===== verification/Manager_Sync.thy ===== *)
theory Manager_Sync
  imports Manager_Tasks Manager_Sched
begin

text \<open>
  The two loops of the manager that talk to the workers, \<open>updateTasks\<close> and \<open>SendWork\<close> of
  \<open>src/internal/manager/manager.go\<close>. What the network answers is an input of the model: the reply to
  each request, with the body already decoded (or its decoding error).
\<close>

section \<open>updateTasks\<close>

text \<open>
  The answer to \<open>GET /tasks?page=1&limit=1000\<close>: the request could not be built, no answer came, or
  an answer with a status and a decoded body. A decoded list may hold JSON \<open>null\<close> entries.
\<close>

datatype tasks_reply =
    RequestError error
  | TransportError error
  | Response nat "error + task option list"

definition reconcile :: "task \<Rightarrow> task \<Rightarrow> task" where
  "reconcile workerTask managerTask =
     (if State managerTask \<noteq> State workerTask
      then managerTask\<lparr>State := State workerTask, ContainerID := ContainerID workerTask,
             StartTime := StartTime workerTask, EndTime := EndTime workerTask\<rparr>
      else managerTask)"

definition merge_task :: "string \<Rightarrow> task option \<Rightarrow> 'q manager \<Rightarrow> (unit, 'q manager) result" where
  "merge_task work entry m =
     (case entry of
        None \<Rightarrow> Panic NilDeref m
      | Some workerTask \<Rightarrow>
          (case TaskDb m (ID workerTask) of
             Some p \<Rightarrow> Return () (m\<lparr>store := write_cell p (reconcile workerTask) (store m)\<rparr>)
           | None \<Rightarrow>
               (let (p, h) = alloc workerTask (store m);
                    m = m\<lparr>store := h\<rparr>;
                    m = m\<lparr>TaskDb := (TaskDb m)(ID workerTask \<mapsto> p)\<rparr>;
                    m = m\<lparr>TaskWorkerMap := (TaskWorkerMap m)(ID workerTask \<mapsto> work)\<rparr>
                in case InsertSorted (store m) (SortedTasks m) p of
                     None \<Rightarrow> Panic NilDeref m
                   | Some tasks \<Rightarrow>
                       (let m = m\<lparr>SortedTasks := tasks\<rparr>;
                            ids = lookup_default [] (WorkersTaskMap m) work
                        in Return () (if ID workerTask \<in> set ids then m
                             else m\<lparr>WorkersTaskMap := (WorkersTaskMap m)
                                      (work \<mapsto> ids @ [ID workerTask])\<rparr>)))))"

text \<open>One worker's goroutine; the result is the error it sends, if any.\<close>

definition worker_update :: "string \<Rightarrow> tasks_reply \<Rightarrow> 'q manager \<Rightarrow> (error option, 'q manager) result" where
  "worker_update work reply m =
     (case reply of
        RequestError err \<Rightarrow>
          Return (Some (''error retrieving tasks for worker '' @ work @ '': '' @ err)) m
      | TransportError err \<Rightarrow> Return None m
      | Response code body \<Rightarrow>
          if code \<noteq> 200
          then Return (Some (''error response from worker '' @ work @ '': status '' @ show_nat code)) m
          else (case body of
                  Inl err \<Rightarrow>
                    Return (Some (''could not decode list of tasks from '' @ work @ '': '' @ err)) m
                | Inr tasks \<Rightarrow>
                    andthen (lock_op mu mu_update m) (\<lambda>_ m.
                    andthen (for_each (merge_task work) tasks m) (\<lambda>_ m.
                    andthen (unlock_op mu mu_update m) (\<lambda>_. Return None)))))"

text \<open>
  The goroutines in the order in which they finish; the channel keeps the errors in that order and
  the first one is returned.
\<close>

fun gather :: "(string \<times> tasks_reply) list \<Rightarrow> 'q manager \<Rightarrow> (error option, 'q manager) result" where
  "gather [] m = Return None m"
| "gather ((work, reply) # replies) m =
     andthen (worker_update work reply m) (\<lambda>err m.
     andthen (gather replies m) (\<lambda>later m.
       Return (case err of None \<Rightarrow> later | Some e \<Rightarrow> Some e) m))"

definition updateTasks :: "(string \<times> tasks_reply) list \<Rightarrow> 'q manager \<Rightarrow> (error option, 'q manager) result" where
  "updateTasks replies m =
     andthen (rlock_op mu mu_update m) (\<lambda>_ m.
     andthen (runlock_op mu mu_update m) (\<lambda>_. gather replies))"

section \<open>SendWork\<close>

text \<open>The answer to the POST: none, or a status and the error of decoding an error body.\<close>

datatype post_reply = PostFailed error | Posted nat "error option"

record send_env =
  new_uuid :: uuid
  send_now :: time
  marshal_error :: "error option"
  new_request_error :: "error option"
  post :: "string \<Rightarrow> task_event \<Rightarrow> post_reply"

definition scheduled :: "ptr \<Rightarrow> 'q manager \<Rightarrow> 'q manager" where
  "scheduled t m = m\<lparr>store := write_cell t (\<lambda>x. x\<lparr>State := Scheduled\<rparr>) (store m)\<rparr>"

definition event_for :: "send_env \<Rightarrow> ptr \<Rightarrow> 'q manager \<Rightarrow> task_event" where
  "event_for env t m =
     \<lparr>ev_ID = new_uuid env, ev_State = State (task_at m t), ev_Timestamp = send_now env,
      ev_Task = task_at m t\<rparr>"

definition record_assignment :: "string \<Rightarrow> ptr \<Rightarrow> task_event \<Rightarrow> 'q manager \<Rightarrow> 'q manager" where
  "record_assignment w t te m =
     (let tid = ID (task_at m t);
          m = m\<lparr>EventDb := (EventDb m)(tid \<mapsto> te)\<rparr>;
          m = m\<lparr>WorkersTaskMap := (WorkersTaskMap m)
                   (w \<mapsto> lookup_default [] (WorkersTaskMap m) w @ [tid])\<rparr>;
          m = m\<lparr>TaskWorkerMap := (TaskWorkerMap m)(tid \<mapsto> w)\<rparr>
      in m\<lparr>TaskDb := (TaskDb m)(tid \<mapsto> t)\<rparr>)"

text \<open>
  From the chosen worker on. When the request cannot be built \<open>req\<close> is nil, and its header is
  written before the error is looked at.
\<close>

definition send_to :: "'q queue_api \<Rightarrow> send_env \<Rightarrow> ptr \<Rightarrow> string \<Rightarrow> 'q manager \<Rightarrow> (unit, 'q manager) result" where
  "send_to Q env t w m =
     (let m = scheduled t m;
          te = event_for env t m
      in if marshal_error env \<noteq> None then AddTask Q t m
         else if new_request_error env \<noteq> None then Panic NilDeref m
         else (case post env w te of
                 PostFailed err \<Rightarrow> AddTask Q t m
               | Posted code decode_error \<Rightarrow>
                   if code \<noteq> 201
                   then (if decode_error \<noteq> None then Return () m else AddTask Q t m)
                   else andthen (lock_op mu mu_update m) (\<lambda>_ m.
                        unlock_op mu mu_update (record_assignment w t te m))))"

definition SendWork :: "'q queue_api \<Rightarrow> send_env \<Rightarrow> 'q manager \<Rightarrow> (unit, 'q manager) result" where
  "SendWork Q env m =
     andthen (lock_op mu mu_update m) (\<lambda>_ m.
       if Len Q (PendingTasks m) = 0 then unlock_op mu mu_update m
       else (let (e, q) = Dequeue Q (PendingTasks m)
             in andthen (unlock_op mu mu_update (m\<lparr>PendingTasks := q\<rparr>)) (\<lambda>_ m.
                case e of
                  None \<Rightarrow> Return () m
                | Some t \<Rightarrow>
                    andthen (SelectWorker m) (\<lambda>chosen m.
                      case chosen of
                        Inl err \<Rightarrow> Return () m
                      | Inr w \<Rightarrow> send_to Q env t w m))))"

section \<open>Merging, as a pure update\<close>

definition adopted :: "string \<Rightarrow> task \<Rightarrow> 'q manager \<Rightarrow> 'q manager" where
  "adopted work wt m =
     (let p = fresh (store m);
          h = snd (alloc wt (store m));
          ids = lookup_default [] (WorkersTaskMap m) work
      in m\<lparr>store := h, TaskDb := (TaskDb m)(ID wt \<mapsto> p), SortedTasks := the (InsertSorted h (SortedTasks m) p),
           WorkersTaskMap := (if ID wt \<in> set ids then WorkersTaskMap m
                              else (WorkersTaskMap m)(work \<mapsto> ids @ [ID wt])),
           TaskWorkerMap := (TaskWorkerMap m)(ID wt \<mapsto> work)\<rparr>)"

definition merged :: "string \<Rightarrow> task \<Rightarrow> 'q manager \<Rightarrow> 'q manager" where
  "merged work wt m =
     (case TaskDb m (ID wt) of
        Some p \<Rightarrow> m\<lparr>store := write_cell p (reconcile wt) (store m)\<rparr>
      | None \<Rightarrow> adopted work wt m)"

lemma merge_task_merged:
  assumes "no_nil (SortedTasks m)"
  shows "merge_task work (Some wt) m = Return () (merged work wt m)"
proof (cases "TaskDb m (ID wt)")
  case None
  let ?h = "snd (alloc wt (store m))" and ?p = "fresh (store m)"
  obtain xs ys where "InsertSorted ?h (SortedTasks m) ?p = Some (xs @ Some ?p # ys)"
    using assms by (rule InsertSorted_insertion)
  with None show ?thesis
    by (simp add: merge_task_def merged_def adopted_def alloc_def Let_def)
next
  case (Some p)
  then show ?thesis by (simp add: merge_task_def merged_def)
qed

lemma reconcile_ID [simp]: "ID (reconcile wt t) = ID t"
  by (simp add: reconcile_def)

lemma merged_mu [simp]: "merged work wt (mu_update g m) = mu_update g (merged work wt m)"
  by (simp add: merged_def adopted_def Let_def split: option.split)

lemma merged_frame [simp]:
  "mu (merged work wt m) = mu m" "PendingTasks (merged work wt m) = PendingTasks m"
  "EventDb (merged work wt m) = EventDb m" "Workers (merged work wt m) = Workers m"
  by (simp_all add: merged_def adopted_def Let_def split: option.split)

text \<open>Writing a cell without touching its identifier keeps the manager well formed.\<close>

definition keeps_id :: "(task \<Rightarrow> task) \<Rightarrow> bool" where
  "keeps_id f \<longleftrightarrow> (\<forall>t. ID (f t) = ID t)"

lemma write_wf:
  assumes "manager_wf contents m" and "keeps_id f"
  shows "manager_wf contents (m\<lparr>store := write_cell p f (store m)\<rparr>)"
proof -
  let ?m = "m\<lparr>store := write_cell p f (store m)\<rparr>"
  have "ID (task_at ?m q) = ID (task_at m q)" for q
    using assms(2) by (simp add: task_at_def keeps_id_def)
  then show ?thesis using assms(1) by (simp add: manager_wf_def listed_ids_def)
qed

lemma adopted_listed:
  assumes "manager_wf contents m"
  obtains xs ys where "SortedTasks m = xs @ ys"
    "SortedTasks (adopted work wt m) = xs @ Some (fresh (store m)) # ys"
    "no_nil (SortedTasks (adopted work wt m))"
proof -
  let ?h = "snd (alloc wt (store m))" and ?p = "fresh (store m)"
  obtain xs ys where "SortedTasks m = xs @ ys" "no_nil (xs @ Some ?p # ys)"
      "InsertSorted ?h (SortedTasks m) ?p = Some (xs @ Some ?p # ys)"
    using manager_wfD(1) [OF assms] by (rule InsertSorted_insertion)
  then show thesis by (intro that) (simp_all add: adopted_def Let_def)
qed

lemma adopted_cells:
  "task_at (adopted work wt m) p = (if p = fresh (store m) then wt else task_at m p)"
  "fresh (store (adopted work wt m)) = Suc (fresh (store m))"
  "TaskDb (adopted work wt m) = (TaskDb m)(ID wt \<mapsto> fresh (store m))"
  "TaskWorkerMap (adopted work wt m) = (TaskWorkerMap m)(ID wt \<mapsto> work)"
  "PendingTasks (adopted work wt m) = PendingTasks m"
  by (simp_all add: adopted_def task_at_def alloc_def Let_def)

lemma adopted_ids:
  assumes "manager_wf contents m"
  shows "listed_ids (adopted work wt m) = insert (ID wt) (listed_ids m)"
proof -
  obtain xs ys where xy: "SortedTasks m = xs @ ys"
      "SortedTasks (adopted work wt m) = xs @ Some (fresh (store m)) # ys"
    using assms by (rule adopted_listed)
  have "task_at (adopted work wt m) p = task_at m p" if "Some p \<in> set (SortedTasks m)" for p
    using manager_wfD(2) [OF assms that] by (simp add: adopted_cells)
  then have "{ID (task_at (adopted work wt m) p) | p. Some p \<in> set (SortedTasks m)} = listed_ids m"
    unfolding listed_ids_def by (metis (no_types, lifting))
  moreover have "listed_ids (adopted work wt m)
      = insert (ID wt) {ID (task_at (adopted work wt m) p) | p. Some p \<in> set (SortedTasks m)}"
    by (auto simp: listed_ids_def xy adopted_cells(1))
  ultimately show ?thesis by simp
qed

lemma adopted_wf:
  assumes wf: "manager_wf contents m" and new: "TaskDb m (ID wt) = None"
  shows "manager_wf contents (adopted work wt m)"
proof -
  note D = manager_wfD [OF wf]
  obtain xs ys where xy: "SortedTasks m = xs @ ys"
      "SortedTasks (adopted work wt m) = xs @ Some (fresh (store m)) # ys"
      "no_nil (SortedTasks (adopted work wt m))"
    using wf by (rule adopted_listed)
  have valid: "p < Suc (fresh (store m))" if "Some p \<in> set (SortedTasks (adopted work wt m))" for p
    using that D(2) [of p] xy(1) unfolding xy(2) by auto
  have assign: "u \<in> set (lookup_default [] (WorkersTaskMap (adopted work wt m)) w)"
    if "TaskWorkerMap (adopted work wt m) u = Some w" for u w
    using that D(8) by (auto simp: adopted_def Let_def split: if_splits)
  have db: "p < Suc (fresh (store m)) \<and> ID (task_at (adopted work wt m) p) = u
      \<and> u \<in> insert (ID wt) (listed_ids m)"
    if "TaskDb (adopted work wt m) u = Some p" for u p
    using that D(5) [of u p] D(6) [of u p] D(7) [of u p]
    by (auto simp: adopted_cells split: if_splits)
  have pending: "p < Suc (fresh (store m)) \<and> ID (task_at (adopted work wt m) p) \<in> insert (ID wt) (listed_ids m)"
    if "p \<in> set (contents (PendingTasks m))" for p
    using D(3) [OF that] D(4) [OF that] by (auto simp: adopted_cells)
  show ?thesis
    unfolding manager_wf_def adopted_ids [OF wf] adopted_cells(2) adopted_cells(5)
    using xy(3) valid assign db pending by blast
qed

lemma merged_wf: "manager_wf contents m \<Longrightarrow> manager_wf contents (merged work wt m)"
  by (auto simp: merged_def keeps_id_def split: option.split intro!: write_wf adopted_wf)

text \<open>A whole report: no entry is nil, so the loop runs to its end.\<close>

definition merge_all :: "string \<Rightarrow> task list \<Rightarrow> 'q manager \<Rightarrow> 'q manager" where
  "merge_all work wts m = fold (merged work) wts m"

lemma merge_all_mu [simp]: "merge_all work wts (mu_update g m) = mu_update g (merge_all work wts m)"
  unfolding merge_all_def by (induction wts arbitrary: m) simp_all

lemma merge_all_frame [simp]:
  "mu (merge_all work wts m) = mu m" "PendingTasks (merge_all work wts m) = PendingTasks m"
  "EventDb (merge_all work wts m) = EventDb m" "Workers (merge_all work wts m) = Workers m"
  unfolding merge_all_def by (induction wts arbitrary: m) simp_all

lemma merge_all_wf: "manager_wf contents m \<Longrightarrow> manager_wf contents (merge_all work wts m)"
  unfolding merge_all_def by (induction wts arbitrary: m) (simp_all add: merged_wf)

lemma for_each_merge:
  "manager_wf contents m \<Longrightarrow>
     for_each (merge_task work) (map Some wts) m = Return () (merge_all work wts m)"
  unfolding merge_all_def
proof (induction wts arbitrary: m)
  case (Cons wt wts)
  then show ?case
    using merge_task_merged [OF manager_wfD(1) [OF Cons.prems]] Cons.IH [OF merged_wf [OF Cons.prems]] by simp
qed simp

lemma manager_wf_mu [simp]: "manager_wf contents (mu_update g m) = manager_wf contents m"
  by (simp add: manager_wf_def listed_ids_def task_at_def)

lemma worker_update_ok:
  assumes wf: "manager_wf contents m" and quiet: "quiet m"
  shows "worker_update work (Response 200 (Inr (map Some wts))) m = Return None (merge_all work wts m)"
proof -
  let ?w = "mu_update (\<lambda>x. x\<lparr>writer := True\<rparr>)"
  have "for_each (merge_task work) (map Some wts) (?w m) = Return () (?w (merge_all work wts m))"
    using for_each_merge [of contents "?w m"] wf by simp
  moreover have "mu_update (\<lambda>x. x\<lparr>writer := False\<rparr>) (?w (merge_all work wts m)) = merge_all work wts m"
    unfolding mgr.upd_upd by (rule mgr.upd_same) (use quiet in \<open>simp add: quiet_def mutex_free_def\<close>)
  ultimately show ?thesis
    using quiet by (simp add: worker_update_def lock_op_def unlock_op_def)
qed

text \<open>Any other reply leaves the manager as it is.\<close>

fun carries_tasks :: "tasks_reply \<Rightarrow> task list option" where
  "carries_tasks (Response code (Inr ts)) = (if code = 200 then Some (map the ts) else None)"
| "carries_tasks r = None"

fun no_null_entry :: "tasks_reply \<Rightarrow> bool" where
  "no_null_entry (Response code (Inr ts)) = no_nil ts"
| "no_null_entry r = True"

definition apply_reply :: "string \<times> tasks_reply \<Rightarrow> 'q manager \<Rightarrow> 'q manager" where
  "apply_reply r m =
     (case carries_tasks (snd r) of None \<Rightarrow> m | Some wts \<Rightarrow> merge_all (fst r) wts m)"

lemma apply_reply_frame [simp]: "mu (apply_reply r m) = mu m"
  by (simp add: apply_reply_def split: option.split)

lemma apply_reply_wf: "manager_wf contents m \<Longrightarrow> manager_wf contents (apply_reply r m)"
  by (simp add: apply_reply_def merge_all_wf split: option.split)

lemma worker_update_quiet:
  assumes "manager_wf contents m" and "quiet m" and "no_null_entry reply"
  shows "\<exists>e. worker_update work reply m = Return e (apply_reply (work, reply) m)"
proof (cases "carries_tasks reply")
  case None
  then show ?thesis
    by (cases reply; cases "case reply of Response c b \<Rightarrow> b | _ \<Rightarrow> Inl []")
      (auto simp: worker_update_def apply_reply_def split: if_splits sum.splits)
next
  case (Some wts)
  then obtain ts where r: "reply = Response 200 (Inr ts)" "wts = map the ts"
    by (cases reply rule: carries_tasks.cases) (auto split: if_splits)
  with assms(3) obtain ps where "ts = map Some ps" by (auto simp: no_nil_iff_map)
  with r show ?thesis
    using worker_update_ok [OF assms(1,2), of work ps] by (simp add: apply_reply_def comp_def)
qed

lemma gather_quiet:
  assumes "manager_wf contents m" and "quiet m" and "\<forall>r \<in> set replies. no_null_entry (snd r)"
  shows "\<exists>e. gather replies m = Return e (fold apply_reply replies m)"
  using assms
proof (induction replies arbitrary: m)
  case (Cons r replies)
  obtain work reply where r: "r = (work, reply)" by (cases r)
  then obtain e where e: "worker_update work reply m = Return e (apply_reply r m)"
    using worker_update_quiet [of contents m reply work] Cons.prems by auto
  have "manager_wf contents (apply_reply r m)" "quiet (apply_reply r m)"
    using Cons.prems by (simp_all add: apply_reply_wf quiet_def)
  then obtain e' where "gather replies (apply_reply r m) = Return e' (fold apply_reply replies (apply_reply r m))"
    using Cons.IH Cons.prems(3) by auto
  with r e show ?case by simp
qed simp

lemma updateTasks_quiet:
  assumes "manager_wf contents m" and "quiet m" and "\<forall>r \<in> set replies. no_null_entry (snd r)"
  shows "\<exists>e. updateTasks replies m = Return e (fold apply_reply replies m)"
  using gather_quiet [OF assms] assms(2)
  by (simp add: updateTasks_def rlock_op_def runlock_op_def comp_def)

lemma apply_replies_wf: "manager_wf contents m \<Longrightarrow> manager_wf contents (fold apply_reply replies m)"
  by (induction replies arbitrary: m) (simp_all add: apply_reply_wf)

section \<open>Sending, as a pure update\<close>

lemma lock_unlock_pure:
  assumes "quiet m" and "\<And>g m. f (mu_update g m) = mu_update g (f m)" and "mu (f m) = mu m"
  shows "andthen (lock_op mu mu_update m) (\<lambda>_ m. unlock_op mu mu_update (f m)) = Return () (f m)"
proof -
  have "(mu m)\<lparr>writer := False\<rparr> = mu m" using assms(1) by (simp add: quiet_def mutex_free_def)
  then have "mu_update (\<lambda>x. x\<lparr>writer := False\<rparr>) (f m) = f m"
    by (intro mgr.upd_same) (simp add: assms(3))
  moreover have "can_lock (mu m)" using assms(1) by simp
  ultimately show ?thesis
    by (simp add: lock_op_def unlock_op_def mgr.upd_upd assms(2))
qed

text \<open>What happens to a task taken off the queue.\<close>

datatype sending = NoWorker | Requeued string | Lost string | Assigned string | Crashed string

definition sending_of :: "send_env \<Rightarrow> ptr \<Rightarrow> 'q manager \<Rightarrow> sending" where
  "sending_of env t m =
     (case fst (select_spec m) of
        Inl err \<Rightarrow> NoWorker
      | Inr w \<Rightarrow>
          if marshal_error env \<noteq> None then Requeued w
          else if new_request_error env \<noteq> None then Crashed w
          else (case post env w (event_for env t (scheduled t (snd (select_spec m)))) of
                  PostFailed err \<Rightarrow> Requeued w
                | Posted code decode_error \<Rightarrow>
                    if code = 201 then Assigned w
                    else if decode_error \<noteq> None then Lost w else Requeued w))"

definition sent :: "'q queue_api \<Rightarrow> send_env \<Rightarrow> ptr \<Rightarrow> 'q manager \<Rightarrow> 'q manager" where
  "sent Q env t m =
     (let m' = scheduled t (snd (select_spec m))
      in case sending_of env t m of
           NoWorker \<Rightarrow> snd (select_spec m)
         | Requeued w \<Rightarrow> added Q t m'
         | Lost w \<Rightarrow> m'
         | Crashed w \<Rightarrow> m'
         | Assigned w \<Rightarrow> record_assignment w t (event_for env t m') m')"

lemma scheduled_frame [simp]:
  "mu (scheduled t m) = mu m" "SortedTasks (scheduled t m) = SortedTasks m"
  "PendingTasks (scheduled t m) = PendingTasks m" "TaskDb (scheduled t m) = TaskDb m"
  "ID (task_at (scheduled t m) p) = ID (task_at m p)" "fresh (store (scheduled t m)) = fresh (store m)"
  "EventDb (scheduled t m) = EventDb m" "TaskWorkerMap (scheduled t m) = TaskWorkerMap m"
  "WorkersTaskMap (scheduled t m) = WorkersTaskMap m"
  by (simp_all add: scheduled_def task_at_def)

lemma record_assignment_frame [simp]:
  "mu (record_assignment w t te m) = mu m" "store (record_assignment w t te m) = store m"
  "SortedTasks (record_assignment w t te m) = SortedTasks m"
  "PendingTasks (record_assignment w t te m) = PendingTasks m"
  "TaskDb (record_assignment w t te m) = (TaskDb m)(ID (task_at m t) \<mapsto> t)"
  "TaskWorkerMap (record_assignment w t te m) = (TaskWorkerMap m)(ID (task_at m t) \<mapsto> w)"
  "EventDb (record_assignment w t te m) = (EventDb m)(ID (task_at m t) \<mapsto> te)"
  "WorkersTaskMap (record_assignment w t te m) = (WorkersTaskMap m)
      (w \<mapsto> lookup_default [] (WorkersTaskMap m) w @ [ID (task_at m t)])"
  by (simp_all add: record_assignment_def Let_def)

lemma record_assignment_mu [simp]:
  "record_assignment w t te (mu_update g m) = mu_update g (record_assignment w t te m)"
  by (simp add: record_assignment_def Let_def task_at_def)

lemma send_to_quiet:
  assumes q: "quiet m" and nn: "no_nil (SortedTasks m)" and sel: "fst (select_spec m) = Inr w"
  shows "send_to Q env t w (snd (select_spec m)) =
    (case sending_of env t m of Crashed w \<Rightarrow> Panic NilDeref (sent Q env t m) | _ \<Rightarrow> Return () (sent Q env t m))"
proof -
  let ?m = "scheduled t (snd (select_spec m))"
  have add: "AddTask Q t ?m = Return () (added Q t ?m)"
    by (rule AddTask_quiet) (use q nn in \<open>simp_all add: quiet_def\<close>)
  have rec: "andthen (lock_op mu mu_update ?m) (\<lambda>_ m. unlock_op mu mu_update (record_assignment w t te m))
      = Return () (record_assignment w t te ?m)" for te
    by (rule lock_unlock_pure) (use q in \<open>simp_all add: quiet_def\<close>)
  show ?thesis
    unfolding send_to_def sending_of_def sent_def Let_def sel
    by (simp add: add rec sel split: post_reply.split)
qed

text \<open>The whole of \<open>SendWork\<close>, by what is at the head of the queue.\<close>

lemma SendWork_empty:
  assumes "quiet m" and "fifo Q contents" and "contents (PendingTasks m) = []"
  shows "SendWork Q env m = Return () m"
proof -
  have "mu_update (\<lambda>x. x\<lparr>writer := False\<rparr>) m = m"
    by (rule mgr.upd_same) (use assms(1) in \<open>simp add: quiet_def mutex_free_def\<close>)
  then show ?thesis
    using assms by (simp add: SendWork_def lock_op_def unlock_op_def fifo_Len mgr.upd_upd quiet_def)
qed

lemma SendWork_head:
  assumes q: "quiet m" and nn: "no_nil (SortedTasks m)" and fifo: "fifo Q contents"
    and head: "contents (PendingTasks m) = t # ts" and deq: "Dequeue Q (PendingTasks m) = (Some t, q')"
  shows "SendWork Q env m =
    (let m = m\<lparr>PendingTasks := q'\<rparr>
     in case sending_of env t m of Crashed w \<Rightarrow> Panic NilDeref (sent Q env t m)
        | _ \<Rightarrow> Return () (sent Q env t m))"
proof -
  let ?m = "m\<lparr>PendingTasks := q'\<rparr>"
  have restore: "mu_update (\<lambda>x. x\<lparr>writer := False\<rparr>) ?m = ?m"
    by (rule mgr.upd_same) (use q in \<open>simp add: quiet_def mutex_free_def\<close>)
  have qm: "quiet ?m" using q by (simp add: quiet_def)
  have "SendWork Q env m = andthen (SelectWorker ?m)
      (\<lambda>chosen m. case chosen of Inl err \<Rightarrow> Return () m | Inr w \<Rightarrow> send_to Q env t w m)"
    using q deq restore head
    by (simp add: SendWork_def lock_op_def unlock_op_def fifo_Len [OF fifo] mgr.upd_upd comp_def)
  also have "\<dots> = (case sending_of env t ?m of Crashed w \<Rightarrow> Panic NilDeref (sent Q env t ?m)
      | _ \<Rightarrow> Return () (sent Q env t ?m))"
  proof (cases "fst (select_spec ?m)")
    case (Inl err)
    then show ?thesis by (simp add: SelectWorker_quiet [OF qm] sending_of_def sent_def)
  next
    case (Inr w)
    then show ?thesis
      using send_to_quiet [OF qm _ Inr] nn by (simp add: SelectWorker_quiet [OF qm])
  qed
  finally show ?thesis by (simp only: Let_def)
qed

lemma SendWork_cons:
  assumes q: "quiet m" and nn: "no_nil (SortedTasks m)" and fifo: "fifo Q contents"
    and head: "contents (PendingTasks m) = t # ts"
  obtains q' where "contents q' = ts"
    "SendWork Q env m =
       (let m = m\<lparr>PendingTasks := q'\<rparr>
        in case sending_of env t m of Crashed w \<Rightarrow> Panic NilDeref (sent Q env t m)
           | _ \<Rightarrow> Return () (sent Q env t m))"
proof -
  obtain q' where "Dequeue Q (PendingTasks m) = (Some t, q')" "contents q' = ts"
    using fifo_Dequeue [OF fifo head] by blast
  then show thesis using SendWork_head [OF q nn fifo head] that by blast
qed

lemma scheduled_wf: "manager_wf contents m \<Longrightarrow> manager_wf contents (scheduled t m)"
  unfolding scheduled_def by (rule write_wf) (simp_all add: keeps_id_def)

lemma select_wf: "manager_wf contents m \<Longrightarrow> manager_wf contents (snd (select_spec m))"
  by (simp add: manager_wf_def listed_ids_def task_at_def)

lemma record_assignment_wf:
  assumes wf: "manager_wf contents m" and t: "t < fresh (store m)" "ID (task_at m t) \<in> listed_ids m"
  shows "manager_wf contents (record_assignment w t te m)"
proof -
  let ?m = "record_assignment w t te m"
  note D = manager_wfD [OF wf]
  have l: "listed_ids ?m = listed_ids m" "task_at ?m = task_at m"
    by (simp_all add: listed_ids_def task_at_def fun_eq_iff)
  have "u \<in> set (lookup_default [] (WorkersTaskMap ?m) v)" if "TaskWorkerMap ?m u = Some v" for u v
    using that D(8) by (auto split: if_splits)
  then show ?thesis
    unfolding manager_wf_def l using D t by (auto split: if_splits)
qed

lemma dequeued_wf:
  assumes "manager_wf contents m" and "contents (PendingTasks m) = t # ts" and "contents q' = ts"
  shows "manager_wf contents (m\<lparr>PendingTasks := q'\<rparr>)"
  using assms by (auto simp: manager_wf_def listed_ids_def task_at_def)

lemma sent_wf:
  assumes wf: "manager_wf contents m" and fifo: "fifo Q contents"
    and t: "t < fresh (store m)" "ID (task_at m t) \<in> listed_ids m"
  shows "manager_wf contents (sent Q env t m)"
proof -
  let ?m = "scheduled t (snd (select_spec m))"
  have wf': "manager_wf contents ?m" by (intro scheduled_wf select_wf wf)
  have ids: "listed_ids ?m = listed_ids m" "ID (task_at ?m t) = ID (task_at m t)"
    by (simp_all add: listed_ids_def) (simp_all add: task_at_def)
  have fr: "fresh (store ?m) = fresh (store m)" by simp
  show ?thesis
    using wf' added_wf [OF wf' fifo] record_assignment_wf [OF wf'] t ids fr select_wf [OF wf]
    by (auto simp: sent_def Let_def split: sending.split)
qed

section \<open>What a report does to the tasks it names, and to the others\<close>

lemma merged_other:
  assumes wf: "manager_wf contents m" and u: "TaskDb m u = Some p" "u \<noteq> ID wt"
  shows "TaskDb (merged work wt m) u = Some p" and "task_at (merged work wt m) p = task_at m p"
proof -
  have "q \<noteq> p" if "TaskDb m (ID wt) = Some q" for q
    using manager_wfD(6) [OF wf that] manager_wfD(6) [OF wf u(1)] u(2) by auto
  moreover have "p < fresh (store m)" using manager_wfD(5) [OF wf u(1)] .
  ultimately show "TaskDb (merged work wt m) u = Some p" "task_at (merged work wt m) p = task_at m p"
    using u by (auto simp: merged_def adopted_cells split: option.split) (auto simp: task_at_def)
qed

lemma merged_self:
  "\<exists>p. TaskDb (merged work wt m) (ID wt) = Some p \<and> State (task_at (merged work wt m) p) = State wt"
proof (cases "TaskDb m (ID wt)")
  case None
  then show ?thesis by (simp add: merged_def adopted_cells)
next
  case (Some p)
  then show ?thesis by (simp add: merged_def reconcile_def) (simp add: task_at_def reconcile_def)
qed

lemma merged_dom: "dom (TaskDb (merged work wt m)) = insert (ID wt) (dom (TaskDb m))"
  by (auto simp: merged_def adopted_cells split: option.splits)

lemma merge_all_dom: "dom (TaskDb (merge_all work wts m)) = ID ` set wts \<union> dom (TaskDb m)"
  unfolding merge_all_def by (induction wts arbitrary: m) (simp_all add: merged_dom)

lemma merge_all_other:
  assumes "manager_wf contents m" and "TaskDb m u = Some p" and "u \<notin> ID ` set wts"
  shows "TaskDb (merge_all work wts m) u = Some p \<and> task_at (merge_all work wts m) p = task_at m p"
  using assms unfolding merge_all_def
proof (induction wts arbitrary: m)
  case (Cons wt wts)
  have "u \<noteq> ID wt" using Cons.prems(3) by auto
  note other = merged_other [OF Cons.prems(1,2) this, of work]
  have "TaskDb (fold (merged work) wts (merged work wt m)) u = Some p
      \<and> task_at (fold (merged work) wts (merged work wt m)) p = task_at (merged work wt m) p"
    by (rule Cons.IH [OF merged_wf [OF Cons.prems(1)] other(1)]) (use Cons.prems(3) in auto)
  then show ?case using other(2) by simp
qed simp

lemma merge_all_self:
  assumes "manager_wf contents m" and "distinct (map ID wts)" and "wt \<in> set wts"
  shows "\<exists>p. TaskDb (merge_all work wts m) (ID wt) = Some p
    \<and> State (task_at (merge_all work wts m) p) = State wt"
  using assms
proof (induction wts arbitrary: m)
  case (Cons x wts)
  have wf: "manager_wf contents (merged work x m)" by (rule merged_wf [OF Cons.prems(1)])
  have step: "merge_all work (x # wts) m = merge_all work wts (merged work x m)"
    by (simp add: merge_all_def)
  show ?case
  proof (cases "wt \<in> set wts")
    case True
    then show ?thesis using Cons.IH [OF wf] Cons.prems(2) by (simp add: step)
  next
    case False
    then have x: "x = wt" "ID wt \<notin> ID ` set wts" using Cons.prems(2,3) by auto
    obtain p where p: "TaskDb (merged work x m) (ID wt) = Some p" "State (task_at (merged work x m) p) = State wt"
      using merged_self [of work wt m] x(1) by blast
    then show ?thesis using merge_all_other [OF wf p(1) x(2), of work] by (simp add: step)
  qed
qed simp

lemma apply_replies_dom: "dom (TaskDb m) \<subseteq> dom (TaskDb (fold apply_reply replies m))"
proof (induction replies arbitrary: m)
  case (Cons r replies)
  have "dom (TaskDb m) \<subseteq> dom (TaskDb (apply_reply r m))"
    using merge_all_dom by (fastforce simp: apply_reply_def split: option.split)
  then show ?case using Cons.IH [of "apply_reply r m"] by simp
qed simp

lemma listing_adopted:
  assumes "manager_wf contents m"
  shows "\<exists>us vs. listing m = us @ vs \<and> listing (adopted work wt m) = us @ ID wt # vs"
proof -
  obtain xs ys where xy: "SortedTasks m = xs @ ys"
      "SortedTasks (adopted work wt m) = xs @ Some (fresh (store m)) # ys"
    using assms by (rule adopted_listed)
  have old: "ID (task_at (adopted work wt m) p) = ID (task_at m p)" if "p \<in> set (pointers (SortedTasks m))" for p
  proof -
    have "Some p \<in> set (SortedTasks m)" using that by (auto simp: pointers_def)
    then have "p < fresh (store m)" by (rule manager_wfD(2) [OF assms])
    then show ?thesis by (simp add: adopted_cells)
  qed
  then have "listing (adopted work wt m) = map (\<lambda>p. ID (task_at m p)) (pointers xs)
      @ ID wt # map (\<lambda>p. ID (task_at m p)) (pointers ys)"
    by (simp add: listing_def xy adopted_cells(1))
  moreover have "listing m = map (\<lambda>p. ID (task_at m p)) (pointers xs) @ map (\<lambda>p. ID (task_at m p)) (pointers ys)"
    by (simp add: listing_def xy(1))
  ultimately show ?thesis by blast
qed

section \<open>Sending does not look at the queue\<close>

lemma select_spec_queue:
  "select_spec (m\<lparr>PendingTasks := q\<rparr>) = apsnd (\<lambda>m. m\<lparr>PendingTasks := q\<rparr>) (select_spec m)"
  by (simp add: select_spec_def schedulable_def healthy_def [abs_def] ready_def [abs_def] Let_def)

lemma event_for_eq:
  "event_for env t (scheduled t m) =
     \<lparr>ev_ID = new_uuid env, ev_State = Scheduled, ev_Timestamp = send_now env,
      ev_Task = (task_at m t)\<lparr>State := Scheduled\<rparr>\<rparr>"
  by (simp add: event_for_def scheduled_def task_at_def)

lemma task_at_select [simp]: "task_at (snd (select_spec m)) = task_at m"
  by (simp add: task_at_def fun_eq_iff)

lemma task_at_queue [simp]: "task_at (m\<lparr>PendingTasks := q\<rparr>) = task_at m"
  by (simp add: task_at_def fun_eq_iff)

lemma sending_of_queue: "sending_of env t (m\<lparr>PendingTasks := q\<rparr>) = sending_of env t m"
proof -
  have ev: "event_for env t (scheduled t (snd (select_spec (m\<lparr>PendingTasks := q\<rparr>))))
      = event_for env t (scheduled t (snd (select_spec m)))"
    by (simp add: event_for_eq select_spec_queue)
  show ?thesis unfolding sending_of_def ev by (simp add: select_spec_queue)
qed

text \<open>The event the worker is sent.\<close>

definition sent_event :: "send_env \<Rightarrow> ptr \<Rightarrow> 'q manager \<Rightarrow> task_event" where
  "sent_event env t m =
     \<lparr>ev_ID = new_uuid env, ev_State = Scheduled, ev_Timestamp = send_now env,
      ev_Task = (task_at m t)\<lparr>State := Scheduled\<rparr>\<rparr>"

lemma SendWork_step:
  assumes wf: "manager_wf contents m" and q: "quiet m" and fifo: "fifo Q contents"
    and head: "contents (PendingTasks m) = t # ts" and ok: "\<forall>w. sending_of env t m \<noteq> Crashed w"
  shows "\<exists>q'. contents q' = ts \<and> SendWork Q env m = Return () (sent Q env t (m\<lparr>PendingTasks := q'\<rparr>))
    \<and> manager_wf contents (sent Q env t (m\<lparr>PendingTasks := q'\<rparr>))
    \<and> mu (sent Q env t (m\<lparr>PendingTasks := q'\<rparr>)) = mu m"
proof -
  obtain q' where q': "contents q' = ts"
      "SendWork Q env m =
        (let m = m\<lparr>PendingTasks := q'\<rparr>
         in case sending_of env t m of Crashed w \<Rightarrow> Panic NilDeref (sent Q env t m)
            | _ \<Rightarrow> Return () (sent Q env t m))"
    using q manager_wfD(1) [OF wf] fifo head by (rule SendWork_cons)
  let ?m = "m\<lparr>PendingTasks := q'\<rparr>"
  have "SendWork Q env m = Return () (sent Q env t ?m)"
    using q'(2) ok by (simp add: Let_def sending_of_queue split: sending.split)
  moreover have "manager_wf contents (sent Q env t ?m)"
    by (rule sent_wf [OF dequeued_wf [OF wf head q'(1)] fifo])
      (use manager_wfD(3,4) [OF wf, of t] head in \<open>simp_all add: listed_ids_def task_at_def\<close>)
  moreover have "mu (sent Q env t ?m) = mu m"
    by (simp add: sent_def Let_def split: sending.split)
  ultimately show ?thesis using q'(1) by blast
qed

section \<open>Properties\<close>

text \<open>
  A manager whose two listed tasks start at 10 and 20; the first is queued too, and \<open>w2\<close> is the one
  worker that is up.
\<close>

definition sample_two :: "ptr list manager" where
  "sample_two = (New list_queue [''w1'', ''w2''] 0)
     \<lparr>store := \<lparr>cells = (\<lambda>p. zero_task\<lparr>ID := word_of_nat (Suc p), StartTime := (if p = 0 then 10 else 20)\<rparr>),
                fresh = 2\<rparr>,
      PendingTasks := [0], TaskDb := [1 \<mapsto> 0, 2 \<mapsto> 1], SortedTasks := [Some 0, Some 1],
      WorkerHealth := [''w1'' \<mapsto> False, ''w2'' \<mapsto> True]\<rparr>"

lemma sample_two_listed: "listed_ids sample_two = {1, 2}"
proof -
  have "listed_ids sample_two = set (listing sample_two)" by (rule set_listing [symmetric])
  also have "\<dots> = {1, 2}" by (simp add: listing_def sample_two_def pointers_def task_at_def)
  finally show ?thesis .
qed

lemma sample_two_ok: "manager_wf (\<lambda>q. q) sample_two" "quiet sample_two"
  by (simp_all add: manager_wf_def sample_two_listed)
    (auto simp: sample_two_def New_def no_nil_def task_at_def quiet_def split: if_splits)

definition running_report :: task where
  "running_report = zero_task\<lparr>ID := 1, State := Running, StartTime := 30, ContainerID := ''c''\<rparr>"

text \<open>
  Whatever the workers answer, as long as no list they send has a JSON null in it, a round of
  \<open>updateTasks\<close> returns with the mutex free and the manager well formed, and no task the database
  knew is forgotten. A worker that cannot be reached or that answers with an error is only
  reported: it changes nothing.
\<close>

theorem updateTasks_total:
  assumes "manager_wf contents m" and "quiet m" and "\<forall>r \<in> set replies. no_null_entry (snd r)"
  shows "\<exists>e m'. updateTasks replies m = Return e m' \<and> quiet m' \<and> manager_wf contents m'
    \<and> dom (TaskDb m) \<subseteq> dom (TaskDb m')
    \<and> ((\<forall>r \<in> set replies. carries_tasks (snd r) = None) \<longrightarrow> m' = m)"
proof -
  let ?m = "fold apply_reply replies m"
  have "mu ?m = mu m" by (induction replies arbitrary: m) simp_all
  then have "quiet ?m" using assms(2) by (simp add: quiet_def)
  moreover have "?m = m" if "\<forall>r \<in> set replies. carries_tasks (snd r) = None"
    using that by (induction replies) (simp_all add: apply_reply_def)
  ultimately show ?thesis
    using updateTasks_quiet [OF assms] apply_replies_wf [OF assms(1), of replies] apply_replies_dom
    by blast
qed

theorem updateTasks_total_witness:
  "\<exists>e m'. updateTasks [(''w1'', TransportError ''timeout''), (''w2'', Response 200 (Inr [Some running_report]))]
      sample_two = Return e m' \<and> quiet m' \<and> manager_wf (\<lambda>q. q) m' \<and> 1 \<in> dom (TaskDb m')"
proof -
  let ?rs = "[(''w1'', TransportError ''timeout''), (''w2'', Response 200 (Inr [Some running_report]))]"
  have rs: "\<forall>r \<in> set ?rs. no_null_entry (snd r)" by (simp add: no_nil_def)
  have "1 \<in> dom (TaskDb sample_two)" by (simp add: sample_two_def)
  then show ?thesis using updateTasks_total [OF sample_two_ok rs] by blast
qed

text \<open>
  C9: after a worker's report of distinct tasks the manager knows each of them, in the state the
  worker reported; the tasks the report does not name are as they were.
\<close>

theorem updateTasks_reconciles:
  assumes "manager_wf contents m" and "quiet m" and "distinct (map ID wts)"
  shows "\<exists>m'. updateTasks [(work, Response 200 (Inr (map Some wts)))] m = Return None m'
    \<and> (\<forall>wt \<in> set wts. \<exists>p. TaskDb m' (ID wt) = Some p \<and> State (task_at m' p) = State wt)
    \<and> (\<forall>u p. TaskDb m u = Some p \<and> u \<notin> ID ` set wts \<longrightarrow>
          TaskDb m' u = Some p \<and> task_at m' p = task_at m p)"
proof -
  have "updateTasks [(work, Response 200 (Inr (map Some wts)))] m = Return None (merge_all work wts m)"
    using worker_update_ok [OF assms(1,2), of work wts] assms(2)
    by (simp add: updateTasks_def rlock_op_def runlock_op_def comp_def)
  then show ?thesis
    using merge_all_self [OF assms(1,3)] merge_all_other [OF assms(1)] by blast
qed

theorem updateTasks_reconciles_witness:
  "\<exists>m'. updateTasks [(''w2'', Response 200 (Inr (map Some [running_report])))] sample_two = Return None m'
    \<and> (\<forall>wt \<in> set [running_report]. \<exists>p. TaskDb m' (ID wt) = Some p \<and> State (task_at m' p) = State wt)
    \<and> (\<forall>u p. TaskDb sample_two u = Some p \<and> u \<notin> ID ` set [running_report] \<longrightarrow>
          TaskDb m' u = Some p \<and> task_at m' p = task_at sample_two p)"
  by (rule updateTasks_reconciles [OF sample_two_ok]) simp

text \<open>
  A task that is listed but not in the database, which is how \<open>CleanUpTasks\<close> leaves a finished
  one, is adopted again as soon as its worker reports it, and is then listed twice.
\<close>

theorem updateTasks_lists_twice:
  assumes "manager_wf contents m" and "quiet m"
    and "TaskDb m (ID wt) = None" and "ID wt \<in> listed_ids m"
  shows "\<exists>m'. updateTasks [(work, Response 200 (Inr [Some wt]))] m = Return None m'
    \<and> \<not> distinct (listing m') \<and> (\<exists>p. TaskDb m' (ID wt) = Some p)"
proof -
  have "updateTasks [(work, Response 200 (Inr [Some wt]))] m = Return None (adopted work wt m)"
    using worker_update_ok [OF assms(1,2), of work "[wt]"] assms(2,3)
    by (simp add: updateTasks_def rlock_op_def runlock_op_def comp_def merge_all_def merged_def)
  moreover obtain us vs where "listing m = us @ vs" "listing (adopted work wt m) = us @ ID wt # vs"
    using listing_adopted [OF assms(1)] by blast
  moreover from this have "ID wt \<in> set (us @ vs)" using assms(4) by (metis set_listing)
  ultimately show ?thesis by (auto simp: adopted_cells)
qed

theorem updateTasks_lists_twice_witness:
  "\<exists>m'. updateTasks [(''w2'', Response 200 (Inr [Some running_report]))]
      (sample_two\<lparr>TaskDb := [2 \<mapsto> 1]\<rparr>) = Return None m'
    \<and> \<not> distinct (listing m') \<and> (\<exists>p. TaskDb m' (ID running_report) = Some p)"
proof (rule updateTasks_lists_twice)
  let ?m = "sample_two\<lparr>TaskDb := [2 \<mapsto> 1]\<rparr>"
  have l: "listed_ids ?m = listed_ids sample_two" by (simp add: listed_ids_def task_at_def)
  show "manager_wf (\<lambda>q. q) ?m"
    using sample_two_ok(1) l by (auto simp: manager_wf_def task_at_def sample_two_def)
  show "quiet ?m" using sample_two_ok(2) by (simp add: quiet_def)
  show "TaskDb ?m (ID running_report) = None" by (simp add: running_report_def)
  show "ID running_report \<in> listed_ids ?m" unfolding l sample_two_listed by (simp add: running_report_def)
qed

text \<open>
  \<open>updateTasks\<close> writes the start time a worker reports into a task that is already listed and
  does not move it, so the order by start time, on which the binary search of \<open>InsertSorted\<close> and
  the pages rely, is lost.
\<close>

theorem updateTasks_breaks_order:
  "sorted (start_times (store sample_two) (SortedTasks sample_two))
   \<and> (\<exists>m'. updateTasks [(''w2'', Response 200 (Inr [Some running_report]))] sample_two = Return None m'
        \<and> start_times (store m') (SortedTasks m') = [30, 20])"
proof
  show "sorted (start_times (store sample_two) (SortedTasks sample_two))"
    by (simp add: start_times_def pointers_def sample_two_def)
  have "updateTasks [(''w2'', Response 200 (Inr [Some running_report]))] sample_two
      = Return None (merged ''w2'' running_report sample_two)"
    using worker_update_ok [OF sample_two_ok, of "''w2''" "[running_report]"] sample_two_ok(2)
    by (simp add: updateTasks_def rlock_op_def runlock_op_def comp_def merge_all_def)
  moreover have "start_times (store (merged ''w2'' running_report sample_two))
      (SortedTasks (merged ''w2'' running_report sample_two)) = [30, 20]"
    by (simp add: merged_def reconcile_def sample_two_def running_report_def start_times_def pointers_def zero_task_def)
  ultimately show "\<exists>m'. updateTasks [(''w2'', Response 200 (Inr [Some running_report]))] sample_two = Return None m'
      \<and> start_times (store m') (SortedTasks m') = [30, 20]" by blast
qed

section \<open>Properties of SendWork\<close>

text \<open>The worker \<open>SelectWorker\<close> gives is one that can be scheduled.\<close>

lemma select_schedulable:
  assumes "schedulable m \<noteq> []"
  obtains w where "fst (select_spec m) = Inr w" "w \<in> set (schedulable m)"
  using assms by (intro that [of "schedulable m ! (Suc (lastWorker m) mod length (schedulable m))"])
    (simp_all add: select_spec_Inr_iff)

lemma select_none: "schedulable m = [] \<Longrightarrow> \<exists>e. fst (select_spec m) = Inl e"
  using select_spec_Inr_iff [of m] by (cases "fst (select_spec m)") auto

lemma sent_event_eq: "event_for env t (scheduled t (snd (select_spec m))) = sent_event env t m"
  by (simp add: event_for_eq sent_event_def)

lemma scheduled_State [simp]: "State (task_at (scheduled t m) t) = Scheduled"
  by (simp add: scheduled_def task_at_def)

text \<open>
  If the request cannot be built (a worker address that is not a valid host, say), \<open>SendWork\<close>
  writes a header of the nil request before it looks at the error: the goroutine panics, and with
  it the manager.
\<close>

lemma SendWork_nil_request:
  assumes q: "quiet m" and nn: "no_nil (SortedTasks m)" and fifo: "fifo Q contents"
    and head: "contents (PendingTasks m) = t # ts" and some: "schedulable m \<noteq> []"
    and bad: "marshal_error env = None" "new_request_error env = Some err"
  shows "\<exists>m'. SendWork Q env m = Panic NilDeref m'"
proof -
  obtain w where w: "fst (select_spec m) = Inr w" using some by (rule select_schedulable)
  have out: "sending_of env t m = Crashed w" by (simp add: sending_of_def w bad)
  obtain q' where "SendWork Q env m =
        (let m = m\<lparr>PendingTasks := q'\<rparr>
         in case sending_of env t m of Crashed w \<Rightarrow> Panic NilDeref (sent Q env t m)
            | _ \<Rightarrow> Return () (sent Q env t m))"
    using q nn fifo head by (rule SendWork_cons)
  then show ?thesis by (simp add: Let_def sending_of_queue out)
qed

definition posting_env :: "(string \<Rightarrow> task_event \<Rightarrow> post_reply) \<Rightarrow> send_env" where
  "posting_env p = \<lparr>new_uuid = 99, send_now = 40, marshal_error = None, new_request_error = None, post = p\<rparr>"

lemma sample_two_send:
  "contents = (\<lambda>q. q) \<Longrightarrow> contents (PendingTasks sample_two) = 0 # []" "schedulable sample_two = [''w2'']"
  by (simp_all add: sample_two_def New_def schedulable_def healthy_def ready_def)

text \<open>An accepted task: the state the manager is left in.\<close>

definition accepted_state :: "send_env \<Rightarrow> ptr \<Rightarrow> string \<Rightarrow> 'q manager \<Rightarrow> 'q manager" where
  "accepted_state env t w m =
     record_assignment w t (sent_event env t m) (scheduled t (snd (select_spec m)))"

lemma SendWork_accepted:
  assumes wf: "manager_wf contents m" and q: "quiet m" and fifo: "fifo Q contents"
    and head: "contents (PendingTasks m) = t # ts" and some: "schedulable m \<noteq> []"
    and built: "marshal_error env = None" "new_request_error env = None"
    and accepted: "\<forall>w. \<exists>d. post env w (sent_event env t m) = Posted 201 d"
  shows "\<exists>w q'. w \<in> set (schedulable m) \<and> contents q' = ts
    \<and> SendWork Q env m = Return () (accepted_state env t w (m\<lparr>PendingTasks := q'\<rparr>))
    \<and> manager_wf contents (accepted_state env t w (m\<lparr>PendingTasks := q'\<rparr>))
    \<and> quiet (accepted_state env t w (m\<lparr>PendingTasks := q'\<rparr>))"
proof -
  obtain w where w: "fst (select_spec m) = Inr w" "w \<in> set (schedulable m)"
    using some by (rule select_schedulable)
  obtain d where d: "post env w (sent_event env t m) = Posted 201 d" using accepted by blast
  have out: "sending_of env t m = Assigned w"
    by (simp add: sending_of_def w built sent_event_eq d)
  obtain q' where q': "contents q' = ts" "SendWork Q env m = Return () (sent Q env t (m\<lparr>PendingTasks := q'\<rparr>))"
      "manager_wf contents (sent Q env t (m\<lparr>PendingTasks := q'\<rparr>))"
      "mu (sent Q env t (m\<lparr>PendingTasks := q'\<rparr>)) = mu m"
    using SendWork_step [OF wf q fifo head, of env] by (auto simp: out)
  have "sent Q env t (m\<lparr>PendingTasks := q'\<rparr>) = accepted_state env t w (m\<lparr>PendingTasks := q'\<rparr>)"
    using out by (simp add: sent_def sending_of_queue accepted_state_def Let_def event_for_eq sent_event_def)
  then show ?thesis
    using q' q w(2) by (intro exI [of _ w] exI [of _ q']) (simp add: quiet_def)
qed

lemma accepted_state_simps [simp]:
  "PendingTasks (accepted_state env t w m) = PendingTasks m"
  "TaskDb (accepted_state env t w m) = (TaskDb m)(ID (task_at m t) \<mapsto> t)"
  "EventDb (accepted_state env t w m) = (EventDb m)(ID (task_at m t) \<mapsto> sent_event env t m)"
  "TaskWorkerMap (accepted_state env t w m) = (TaskWorkerMap m)(ID (task_at m t) \<mapsto> w)"
  "ID (task_at m t) \<in> set (assigned_list (accepted_state env t w m) w)"
  "State (task_at (accepted_state env t w m) t) = Scheduled"
  "ID (task_at (accepted_state env t w m) p) = ID (task_at m p)"
  by (simp_all add: accepted_state_def assigned_list_def)
    (simp_all add: task_at_def scheduled_def)

lemma sent_event_queue [simp]: "sent_event env t (m\<lparr>PendingTasks := q\<rparr>) = sent_event env t m"
  by (simp add: sent_event_def)

text \<open>
  C8: when some worker can be scheduled and accepts the task with status 201, \<open>SendWork\<close> takes the
  first pending task off the queue, marks it Scheduled and records it in all four maps: the event
  the worker was sent, the worker of the task, the task on that worker's list and the task itself.
\<close>

theorem SendWork_assigns:
  assumes wf: "manager_wf contents m" and q: "quiet m" and fifo: "fifo Q contents"
    and head: "contents (PendingTasks m) = t # ts" and some: "schedulable m \<noteq> []"
    and built: "marshal_error env = None" "new_request_error env = None"
    and accepted: "\<forall>w. \<exists>d. post env w (sent_event env t m) = Posted 201 d"
  shows "\<exists>w m'. SendWork Q env m = Return () m' \<and> quiet m' \<and> manager_wf contents m'
    \<and> w \<in> set (schedulable m) \<and> contents (PendingTasks m') = ts
    \<and> State (task_at m' t) = Scheduled \<and> TaskDb m' (ID (task_at m t)) = Some t
    \<and> EventDb m' (ID (task_at m t)) = Some (sent_event env t m)
    \<and> TaskWorkerMap m' (ID (task_at m t)) = Some w \<and> ID (task_at m t) \<in> set (assigned_list m' w)"
proof -
  obtain w q' where "w \<in> set (schedulable m)" "contents q' = ts"
      "SendWork Q env m = Return () (accepted_state env t w (m\<lparr>PendingTasks := q'\<rparr>))"
      "manager_wf contents (accepted_state env t w (m\<lparr>PendingTasks := q'\<rparr>))"
      "quiet (accepted_state env t w (m\<lparr>PendingTasks := q'\<rparr>))"
    using SendWork_accepted [OF assms] by blast
  moreover have "ID (task_at m t) \<in> set (assigned_list (accepted_state env t w (m\<lparr>PendingTasks := q'\<rparr>)) w)"
    using accepted_state_simps(5) [of "m\<lparr>PendingTasks := q'\<rparr>"] by simp
  ultimately show ?thesis
    by (intro exI [of _ w] exI [of _ "accepted_state env t w (m\<lparr>PendingTasks := q'\<rparr>)"]) simp
qed

theorem SendWork_assigns_witness:
  "\<exists>w m'. SendWork list_queue (posting_env (\<lambda>w e. Posted 201 None)) sample_two = Return () m'
    \<and> w = ''w2'' \<and> PendingTasks m' = [] \<and> TaskWorkerMap m' 1 = Some w"
proof -
  let ?env = "posting_env (\<lambda>w e. Posted 201 None)"
  have id: "ID (task_at sample_two 0) = 1" by (simp add: sample_two_def task_at_def)
  show ?thesis
    using SendWork_assigns [OF sample_two_ok fifo_list_queue sample_two_send(1) [OF refl], of ?env]
    by (auto simp: sample_two_send(2) posting_env_def id)
qed

text \<open>
  C15: when the worker cannot be reached, or refuses the task with an error body that can be read, the
  task goes back to the end of the queue; it stays Scheduled and no assignment is recorded.
\<close>

theorem SendWork_requeues:
  assumes wf: "manager_wf contents m" and q: "quiet m" and fifo: "fifo Q contents"
    and head: "contents (PendingTasks m) = t # ts" and some: "schedulable m \<noteq> []"
    and built: "marshal_error env = None" "new_request_error env = None"
    and refused: "\<forall>w. (\<exists>e. post env w (sent_event env t m) = PostFailed e)
      \<or> (\<exists>c. c \<noteq> 201 \<and> post env w (sent_event env t m) = Posted c None)"
  shows "\<exists>m'. SendWork Q env m = Return () m' \<and> quiet m' \<and> manager_wf contents m'
    \<and> contents (PendingTasks m') = ts @ [t] \<and> State (task_at m' t) = Scheduled
    \<and> EventDb m' = EventDb m \<and> TaskWorkerMap m' = TaskWorkerMap m
    \<and> WorkersTaskMap m' = WorkersTaskMap m"
proof -
  obtain w where w: "fst (select_spec m) = Inr w" using some by (rule select_schedulable)
  have out: "sending_of env t m = Requeued w"
    using refused [rule_format, of w] by (auto simp: sending_of_def w built sent_event_eq)
  obtain q' where q': "contents q' = ts" "SendWork Q env m = Return () (sent Q env t (m\<lparr>PendingTasks := q'\<rparr>))"
      "manager_wf contents (sent Q env t (m\<lparr>PendingTasks := q'\<rparr>))"
      "mu (sent Q env t (m\<lparr>PendingTasks := q'\<rparr>)) = mu m"
    using SendWork_step [OF wf q fifo head, of env] by (auto simp: out)
  let ?s = "scheduled t (snd (select_spec (m\<lparr>PendingTasks := q'\<rparr>)))"
  have s: "sent Q env t (m\<lparr>PendingTasks := q'\<rparr>) = added Q t ?s"
    using out by (simp add: sent_def sending_of_queue Let_def)
  have "contents (PendingTasks ?s) = ts" using q'(1) by (simp add: select_spec_queue)
  then show ?thesis
    using q' q by (simp add: s fifo_Enqueue [OF fifo] quiet_def)
qed

theorem SendWork_requeues_witness:
  "\<exists>m'. SendWork list_queue (posting_env (\<lambda>w e. PostFailed ''refused'')) sample_two = Return () m'
    \<and> PendingTasks m' = [0] \<and> State (task_at m' 0) = Scheduled"
  using SendWork_requeues [OF sample_two_ok fifo_list_queue sample_two_send(1) [OF refl],
      of "posting_env (\<lambda>w e. PostFailed ''refused'')"]
  by (auto simp: sample_two_send(2) posting_env_def)

text \<open>
  C14: when no worker can be scheduled, or the worker refuses the task with a body that cannot be
  decoded, the task is lost: \<open>SendWork\<close> takes it off the queue and returns without putting it back and
  without recording an assignment, while the database and the listing stay as they were.
\<close>

theorem SendWork_loses:
  assumes wf: "manager_wf contents m" and q: "quiet m" and fifo: "fifo Q contents"
    and head: "contents (PendingTasks m) = t # ts"
    and lost: "schedulable m = [] \<or> (marshal_error env = None \<and> new_request_error env = None
      \<and> (\<forall>w. \<exists>c e. c \<noteq> 201 \<and> post env w (sent_event env t m) = Posted c (Some e)))"
  shows "\<exists>m'. SendWork Q env m = Return () m' \<and> quiet m' \<and> contents (PendingTasks m') = ts
    \<and> TaskDb m' = TaskDb m \<and> SortedTasks m' = SortedTasks m \<and> EventDb m' = EventDb m
    \<and> TaskWorkerMap m' = TaskWorkerMap m \<and> WorkersTaskMap m' = WorkersTaskMap m"
proof -
  have out: "sending_of env t m = NoWorker \<or> (\<exists>w. sending_of env t m = Lost w)"
  proof (cases "schedulable m = []")
    case True
    then show ?thesis using select_none [of m] by (auto simp: sending_of_def)
  next
    case False
    then obtain w where "fst (select_spec m) = Inr w" by (rule select_schedulable)
    moreover from lost False obtain c e where "c \<noteq> 201" "post env w (sent_event env t m) = Posted c (Some e)"
      by blast
    ultimately show ?thesis using lost False by (simp add: sending_of_def sent_event_eq)
  qed
  then obtain q' where q': "contents q' = ts"
      "SendWork Q env m = Return () (sent Q env t (m\<lparr>PendingTasks := q'\<rparr>))"
      "mu (sent Q env t (m\<lparr>PendingTasks := q'\<rparr>)) = mu m"
    using SendWork_step [OF wf q fifo head, of env] by fastforce
  then show ?thesis
    using out q by (auto simp: sent_def sending_of_queue select_spec_queue quiet_def)
qed

theorem SendWork_loses_witness:
  "\<exists>m'. SendWork list_queue (posting_env (\<lambda>w e. Posted 201 None)) (sample_two\<lparr>WorkerHealth := (\<lambda>_. None)\<rparr>)
      = Return () m' \<and> PendingTasks m' = [] \<and> TaskDb m' = TaskDb sample_two
    \<and> TaskWorkerMap m' = TaskWorkerMap sample_two"
proof -
  let ?m = "sample_two\<lparr>WorkerHealth := (\<lambda>_. None)\<rparr>"
  have "listed_ids ?m = listed_ids sample_two" "task_at ?m = task_at sample_two"
    by (simp_all add: listed_ids_def task_at_def fun_eq_iff)
  then have wf: "manager_wf (\<lambda>q. q) ?m" using sample_two_ok(1) by (simp add: manager_wf_def)
  have q: "quiet ?m" using sample_two_ok(2) by (simp add: quiet_def)
  have head: "PendingTasks ?m = 0 # []" by (simp add: sample_two_def)
  have "schedulable ?m = []" by (simp add: schedulable_def healthy_def lookup_default_def)
  then show ?thesis
    using SendWork_loses [OF wf q fifo_list_queue head, of "posting_env (\<lambda>w e. Posted 201 None)"]
    by auto
qed

end
