(* ===== verification/Go_Http.thy ===== *)
theory Go_Http
  imports Go_Strings
begin

text \<open>
  The parts of \<open>net/http\<close> both APIs use. A handler is given a request and the state of the server
  and leaves a log of what it did to the response writer. \<open>WriteHeader\<close> after the first one is
  ignored by \<open>net/http\<close>, and a body written before any \<open>WriteHeader\<close> implies status 200: that is
  \<open>status_of\<close>. A body is the structured error record both APIs use, or JSON of a handler's own data.

  A middleware wraps a handler. The locale \<open>middleware\<close> states the contract of one that only
  decides: it either lets the request through, or answers by itself without running the handler.
\<close>

record request =
  r_Method :: string
  r_Path :: string
  r_Header :: "string \<Rightarrow> string"                \<comment> \<open>\<open>r.Header.Get\<close>: empty when absent\<close>
  r_Query :: "string \<Rightarrow> string"                 \<comment> \<open>\<open>r.URL.Query().Get\<close>: empty when absent\<close>
  r_correlation :: "string option"             \<comment> \<open>the context value \<open>correlation_id\<close>\<close>

datatype 'b body = ErrResponse nat string | Json 'b | Lines string

datatype 'b write_event = SetHeader string string | WriteHeader nat | WriteBody "'b body"

type_synonym ('b, 's) handler = "request \<Rightarrow> 's \<Rightarrow> ('b write_event list, 's) result"

fun status_of :: "'b write_event list \<Rightarrow> nat" where
  "status_of [] = 200"
| "status_of (SetHeader k v # ws) = status_of ws"
| "status_of (WriteHeader c # ws) = c"
| "status_of (WriteBody b # ws) = 200"

fun bodies :: "'b write_event list \<Rightarrow> 'b body list" where
  "bodies [] = []"
| "bodies (WriteBody b # ws) = b # bodies ws"
| "bodies (SetHeader k v # ws) = bodies ws"
| "bodies (WriteHeader c # ws) = bodies ws"

definition writeErrorResponse :: "nat \<Rightarrow> string \<Rightarrow> 'b write_event list" where
  "writeErrorResponse statusCode message =
     [SetHeader ''Content-Type'' ''application/json'', WriteHeader statusCode,
      WriteBody (ErrResponse statusCode message)]"

definition writeSuccessResponse :: "nat \<Rightarrow> 'b \<Rightarrow> 'b write_event list" where
  "writeSuccessResponse statusCode data =
     [SetHeader ''Content-Type'' ''application/json'', WriteHeader statusCode, WriteBody (Json data)]"

lemma status_writeError [simp]: "status_of (writeErrorResponse c msg) = c"
  by (simp add: writeErrorResponse_def)

lemma status_writeSuccess [simp]: "status_of (writeSuccessResponse c d) = c"
  by (simp add: writeSuccessResponse_def)

lemma bodies_append [simp]: "bodies (ws @ vs) = bodies ws @ bodies vs"
  by (induction ws rule: bodies.induct) simp_all

section \<open>Middlewares that only decide\<close>

datatype 'b verdict = Pass "'b write_event list" request | Deny "'b write_event list" | Crash panic

definition obey :: "'b verdict \<Rightarrow> ('b, 's) handler \<Rightarrow> 's \<Rightarrow> ('b write_event list, 's) result" where
  "obey v next_h s =
     (case v of
        Pass ws r \<Rightarrow> andthen (next_h r s) (\<lambda>vs. Return (ws @ vs))
      | Deny ws \<Rightarrow> Return ws s
      | Crash p \<Rightarrow> Panic p s)"

locale middleware =
  fixes mw :: "('b, 's) handler \<Rightarrow> ('b, 's) handler"
    and verdict :: "request \<Rightarrow> 'b verdict"
  assumes decides: "mw next_h r s = obey (verdict r) next_h s"
begin

text \<open>A request that is not passed on changes nothing.\<close>

lemma denied_unchanged:
  assumes "\<And>ws r'. verdict r \<noteq> Pass ws r'"
  shows "state_of (mw next_h r s) = s"
  using assms by (cases "verdict r") (auto simp: decides obey_def)

text \<open>What the handler keeps, the wrapped handler keeps.\<close>

lemma keeps_invariant:
  assumes "\<And>r s. I s \<Longrightarrow> I (state_of (next_h r s))" and "I s"
  shows "I (state_of (mw next_h r s))"
proof (cases "verdict r")
  case (Pass ws r')
  then show ?thesis using assms(1) [OF assms(2), of r'] by (cases "next_h r' s") (simp_all add: decides obey_def)
qed (use assms(2) in \<open>simp_all add: decides obey_def\<close>)

text \<open>The handler runs at most once, on the request the verdict names.\<close>

lemma passes_once:
  assumes "verdict r = Pass ws r'" and "next_h r' s = Return vs t"
  shows "mw next_h r s = Return (ws @ vs) t"
  using assms by (simp add: decides obey_def)

end

end
