(* ===== verification/Manager_Auth.thy ===== *)
theory Manager_Auth
  imports Go_Http
begin

text \<open>
  Authentication, permissions and rate limits of the manager's API, \<open>src/internal/manager/http/api.go\<close>:
  the key table, the three middlewares and the chain in front of the \<open>/tasks\<close> handlers.
\<close>

section \<open>Keys and endpoints\<close>

record api_key_info =
  Permissions :: "string list"
  Description :: string
  CurrentRate :: go_int
  RateLimits :: go_int
  IsActive :: bool
  ExpiresAt :: string

type_synonym api_keys = "string \<rightharpoonup> api_key_info"

definition endpointPermissions :: "string \<rightharpoonup> string" where
  "endpointPermissions =
     [''POST /tasks'' \<mapsto> ''tasks:write'', ''GET /tasks'' \<mapsto> ''tasks:read'',
      ''DELETE /tasks/*'' \<mapsto> ''tasks:write'']"

definition endpointRateLimits :: "string \<rightharpoonup> go_int" where
  "endpointRateLimits =
     [''POST /tasks'' \<mapsto> 400, ''GET /tasks'' \<mapsto> 5000, ''DELETE /tasks/*'' \<mapsto> 400]"

definition keyIsActive :: "api_keys \<Rightarrow> string \<Rightarrow> bool \<times> error option" where
  "keyIsActive keys apiKey =
     (case keys apiKey of
        None \<Rightarrow> (False, Some ''API key does not exist'')
      | Some keyInfo \<Rightarrow>
          if \<not> IsActive keyInfo then (False, Some ''API key is inactive'') else (True, None))"

definition bearerToken :: "request \<Rightarrow> error + string" where
  "bearerToken r =
     (let authHeader = r_Header r ''Authorization''
      in if authHeader = [] then Inl ''Missing Authorization header''
         else (let pieces = SplitN2 authHeader (CHR '' '')
               in if length pieces < 2 \<or> pieces ! 0 \<noteq> ''Bearer''
                  then Inl ''token with incorrect bearer format''
                  else (let token = TrimSpace (pieces ! 1)
                        in if token = [] then Inl ''bearer token is empty'' else Inr token)))"

fun has_permission :: "string list \<Rightarrow> string \<Rightarrow> bool" where
  "has_permission [] required = False"
| "has_permission (permission # ps) required =
     (if permission = required \<or> permission = ''admin:*'' then True else has_permission ps required)"

definition ApiKeyHasPermissions :: "api_keys \<Rightarrow> string \<Rightarrow> string \<Rightarrow> bool \<times> error option" where
  "ApiKeyHasPermissions keys apiKey required =
     (case keys apiKey of
        None \<Rightarrow> (False, Some ''API key not found'')
      | Some keyInfo \<Rightarrow>
          if has_permission (Permissions keyInfo) required then (True, None)
          else (False, Some ''Insufficient permissions''))"

definition method_path :: "request \<Rightarrow> string" where
  "method_path r =
     (if r_Method r = ''DELETE'' \<and> HasPrefix (r_Path r) ''/tasks/'' then ''DELETE /tasks''
      else r_Method r @ '' '' @ r_Path r)"

definition getRateLimits :: "request \<Rightarrow> go_int" where
  "getRateLimits r = lookup_default 0 endpointRateLimits (method_path r)"

definition belowRateLimit :: "api_keys \<Rightarrow> string \<Rightarrow> go_int \<Rightarrow> bool \<times> error option" where
  "belowRateLimit keys apikey requiredRateLimit =
     (case keys apikey of
        None \<Rightarrow> (False, Some ''API key does not exist'')
      | Some keyInfo \<Rightarrow>
          if sint (CurrentRate keyInfo) < sint requiredRateLimit then (True, None)
          else (False, Some ''API key currently is above the allowed rate limit''))"

definition getRequiredPermission :: "request \<Rightarrow> string" where
  "getRequiredPermission r = lookup_default [] endpointPermissions (method_path r)"

section \<open>The middlewares\<close>

definition deny :: "nat \<Rightarrow> string \<Rightarrow> 'b write_event list" where
  "deny code message = [WriteHeader code, WriteBody (ErrResponse code message)]"

text \<open>\<open>apiKey[:8]\<close> in a log line is a slice expression, and panics on a shorter key.\<close>

definition log_key :: "string \<Rightarrow> ('a, 's) result \<Rightarrow> 's \<Rightarrow> ('a, 's) result" where
  "log_key apiKey k s = (if length apiKey < 8 then Panic SliceBounds s else k)"

definition ApiRateLimitMiddleware :: "api_keys \<Rightarrow> ('b, 's) handler \<Rightarrow> ('b, 's) handler" where
  "ApiRateLimitMiddleware keys next_h r s =
     (case bearerToken r of
        Inl err \<Rightarrow> Return (deny 401 ''Invalid or missing unauthorized api key'') s
      | Inr apiKey \<Rightarrow>
          if \<not> fst (keyIsActive keys apiKey) then Return (deny 403 ''API key is inactive.'') s
          else
            (let rateLimitAllowed = getRateLimits r
             in andthen (if rateLimitAllowed = 0 then next_h r s else Return [] s) (\<lambda>ws s.
                  case belowRateLimit keys apiKey rateLimitAllowed of
                    (below, Some err) \<Rightarrow> Return (ws @ deny 401 ''Invalid API key'') s
                  | (below, None) \<Rightarrow>
                      if \<not> below then Return (ws @ deny 429 ''Beyond the allowed rate limit'') s
                      else log_key apiKey (andthen (next_h r s) (\<lambda>vs. Return (ws @ vs))) s)))"

definition ApiKeyAuthMiddleware :: "api_keys \<Rightarrow> ('b, 's) handler \<Rightarrow> ('b, 's) handler" where
  "ApiKeyAuthMiddleware keys next_h r s =
     (case bearerToken r of
        Inl err \<Rightarrow> Return (deny 401 ''Invalid or missing authorization header'') s
      | Inr apiKey \<Rightarrow>
          (let requiredPermission = getRequiredPermission r
           in if requiredPermission = [] then next_h r s
              else (case ApiKeyHasPermissions keys apiKey requiredPermission of
                      (has, Some err) \<Rightarrow> Return (deny 403 ''Invalid API key'') s
                    | (has, None) \<Rightarrow>
                        if \<not> has
                        then log_key apiKey
                          (Return (deny 403 (''insufficient permissions for '' @ requiredPermission)) s) s
                        else log_key apiKey (next_h r s) s)))"

text \<open>\<open>generated\<close> is the fresh identifier \<open>uuid.New().String()\<close> gives.\<close>

definition CorrelationMiddleware :: "string \<Rightarrow> ('b, 's) handler \<Rightarrow> ('b, 's) handler" where
  "CorrelationMiddleware generated next_h r s =
     (let h = r_Header r ''X-Request-ID'';
          correlationID = (if h = [] then generated else h)
      in andthen (next_h (r\<lparr>r_correlation := Some correlationID\<rparr>) s)
           (\<lambda>ws. Return (SetHeader ''X-Request-ID'' correlationID # ws)))"

definition loadAPIKeys :: api_keys where
  "loadAPIKeys =
     [''mk_manager_internal'' \<mapsto>
        \<lparr>Permissions = [''admin:*''], Description = ''Manager API key'', CurrentRate = 0,
         RateLimits = 10000, IsActive = True, ExpiresAt = []\<rparr>,
      ''mk_admin_xyz789'' \<mapsto>
        \<lparr>Permissions = [''admin:*''], Description = ''Admin access key'', CurrentRate = 0,
         RateLimits = 5000, IsActive = True, ExpiresAt = ''2030-09-09''\<rparr>,
      ''mk_client_abc123'' \<mapsto>
        \<lparr>Permissions = [''tasks:read'', ''tasks:write''], Description = ''Client application key'',
         CurrentRate = 0, RateLimits = 500, IsActive = True, ExpiresAt = ''2029-04-02''\<rparr>,
      ''mk_readonly_def456'' \<mapsto>
        \<lparr>Permissions = [''tasks:read''], Description = ''Read-only access key'', CurrentRate = 0,
         RateLimits = 1000, IsActive = False, ExpiresAt = []\<rparr>]"

text \<open>The chain \<open>initRouter\<close> puts in front of every handler under \<open>/tasks\<close>, outermost first.\<close>

definition tasks_chain :: "api_keys \<Rightarrow> string \<Rightarrow> ('b, 's) handler \<Rightarrow> ('b, 's) handler" where
  "tasks_chain keys generated h =
     ApiKeyAuthMiddleware keys (ApiRateLimitMiddleware keys (CorrelationMiddleware generated h))"

section \<open>What the pieces decide\<close>

lemma has_permission_iff: "has_permission ps required \<longleftrightarrow> required \<in> set ps \<or> ''admin:*'' \<in> set ps"
  by (induction ps) auto

lemma bearerToken_Inr_iff:
  "bearerToken r = Inr token \<longleftrightarrow>
     (\<exists>rest. r_Header r ''Authorization'' = ''Bearer '' @ rest \<and> TrimSpace rest = token \<and> token \<noteq> [])"
proof -
  let ?h = "r_Header r ''Authorization''"
  show ?thesis
  proof (cases rule: SplitN2_cases [of "CHR '' ''" ?h])
    case 1
    then have "?h \<noteq> ''Bearer '' @ rest" for rest by auto
    with 1 show ?thesis by (auto simp: bearerToken_def Let_def)
  next
    case (2 u v)
    have "u = ''Bearer'' \<and> v = rest \<longleftrightarrow> ?h = ''Bearer '' @ rest" for rest
    proof
      assume "?h = ''Bearer '' @ rest"
      then have "SplitN2 ?h (CHR '' '') = [''Bearer'', rest]"
        using SplitN2_sep [of "CHR '' ''" "''Bearer''" rest] by simp
      with 2 show "u = ''Bearer'' \<and> v = rest" by simp
    qed (use 2 in auto)
    with 2 show ?thesis by (auto simp: bearerToken_def Let_def)
  qed
qed

lemma keyIsActive_iff: "fst (keyIsActive keys k) \<longleftrightarrow> (\<exists>i. keys k = Some i \<and> IsActive i)"
  by (auto simp: keyIsActive_def split: option.splits)

lemma ApiKeyHasPermissions_cases:
  "ApiKeyHasPermissions keys k p = (True, None) \<or> (\<exists>e. ApiKeyHasPermissions keys k p = (False, Some e))"
  by (auto simp: ApiKeyHasPermissions_def split: option.split)

lemma ApiKeyHasPermissions_iff:
  "fst (ApiKeyHasPermissions keys k p) \<longleftrightarrow>
     (\<exists>i. keys k = Some i \<and> (p \<in> set (Permissions i) \<or> ''admin:*'' \<in> set (Permissions i)))"
  by (auto simp: ApiKeyHasPermissions_def has_permission_iff split: option.splits)

lemma belowRateLimit_cases:
  "belowRateLimit keys k l = (True, None) \<or> (\<exists>e. belowRateLimit keys k l = (False, Some e))"
  by (auto simp: belowRateLimit_def split: option.split)

lemma belowRateLimit_iff:
  "fst (belowRateLimit keys k l) \<longleftrightarrow> (\<exists>i. keys k = Some i \<and> sint (CurrentRate i) < sint l)"
  by (auto simp: belowRateLimit_def split: option.splits)

section \<open>The verdicts\<close>

definition auth_verdict :: "api_keys \<Rightarrow> request \<Rightarrow> 'b verdict" where
  "auth_verdict keys r =
     (case bearerToken r of
        Inl err \<Rightarrow> Deny (deny 401 ''Invalid or missing authorization header'')
      | Inr apiKey \<Rightarrow>
          if getRequiredPermission r = [] then Pass [] r
          else if \<not> fst (ApiKeyHasPermissions keys apiKey (getRequiredPermission r))
          then Deny (deny 403 ''Invalid API key'')
          else if length apiKey < 8 then Crash SliceBounds
          else Pass [] r)"

definition correlation_verdict :: "string \<Rightarrow> request \<Rightarrow> 'b verdict" where
  "correlation_verdict generated r =
     (let h = r_Header r ''X-Request-ID''; cid = (if h = [] then generated else h)
      in Pass [SetHeader ''X-Request-ID'' cid] (r\<lparr>r_correlation := Some cid\<rparr>))"

lemma andthen_Return_same [simp]: "andthen r Return = r"
  by (cases r) simp_all

interpretation auth: middleware "ApiKeyAuthMiddleware keys" "auth_verdict keys" for keys
proof unfold_locales
  fix next_h :: "('b, 's) handler" and r s
  show "ApiKeyAuthMiddleware keys next_h r s = obey (auth_verdict keys r) next_h s"
  proof (cases "bearerToken r")
    case (Inr apiKey)
    then show ?thesis
      using ApiKeyHasPermissions_cases [of keys apiKey "getRequiredPermission r"]
      by (auto simp: ApiKeyAuthMiddleware_def auth_verdict_def obey_def log_key_def Let_def)
  qed (simp add: ApiKeyAuthMiddleware_def auth_verdict_def obey_def)
qed

interpretation correlation: middleware "CorrelationMiddleware generated" "correlation_verdict generated"
  for generated
  by unfold_locales (simp add: CorrelationMiddleware_def correlation_verdict_def obey_def Let_def)

text \<open>
  The rate limiter obeys the contract on the endpoints that have a limit. On the others it runs
  the handler and then goes on to compare the key's rate with the limit 0.
\<close>

definition rate_verdict :: "api_keys \<Rightarrow> request \<Rightarrow> 'b verdict" where
  "rate_verdict keys r =
     (case bearerToken r of
        Inl err \<Rightarrow> Deny (deny 401 ''Invalid or missing unauthorized api key'')
      | Inr apiKey \<Rightarrow>
          if \<not> fst (keyIsActive keys apiKey) then Deny (deny 403 ''API key is inactive.'')
          else if \<not> fst (belowRateLimit keys apiKey (getRateLimits r))
          then Deny (deny 401 ''Invalid API key'')
          else if length apiKey < 8 then Crash SliceBounds
          else Pass [] r)"

lemma rate_limited_obeys:
  assumes "getRateLimits r \<noteq> 0"
  shows "ApiRateLimitMiddleware keys next_h r s = obey (rate_verdict keys r) next_h s"
proof (cases "bearerToken r")
  case (Inr apiKey)
  then show ?thesis
    using assms belowRateLimit_cases [of keys apiKey "getRateLimits r"]
    by (auto simp: ApiRateLimitMiddleware_def rate_verdict_def obey_def log_key_def Let_def)
qed (simp add: ApiRateLimitMiddleware_def rate_verdict_def obey_def)

lemma rate_unlimited:
  assumes "getRateLimits r = 0" and "bearerToken r = Inr apiKey" and "keys apiKey = Some i"
    and "IsActive i" and "0 \<le> sint (CurrentRate i)"
  shows "ApiRateLimitMiddleware keys next_h r s
    = andthen (next_h r s) (\<lambda>ws. Return (ws @ deny 401 ''Invalid API key''))"
  using assms
  by (simp add: ApiRateLimitMiddleware_def keyIsActive_def belowRateLimit_def Let_def)

section \<open>The chain\<close>

text \<open>The request carries an active key below its rate that has the permission of the endpoint.\<close>

definition authorised :: "api_keys \<Rightarrow> request \<Rightarrow> bool" where
  "authorised keys r \<longleftrightarrow>
     (\<exists>token i. bearerToken r = Inr token \<and> keys token = Some i \<and> IsActive i
        \<and> (getRequiredPermission r \<in> set (Permissions i) \<or> ''admin:*'' \<in> set (Permissions i))
        \<and> sint (CurrentRate i) < sint (getRateLimits r))"

definition correlation_id :: "string \<Rightarrow> request \<Rightarrow> string" where
  "correlation_id generated r =
     (if r_Header r ''X-Request-ID'' = [] then generated else r_Header r ''X-Request-ID'')"

lemma correlation_runs:
  "CorrelationMiddleware generated h r s =
     andthen (h (r\<lparr>r_correlation := Some (correlation_id generated r)\<rparr>) s)
       (\<lambda>ws. Return (SetHeader ''X-Request-ID'' (correlation_id generated r) # ws))"
  by (simp add: CorrelationMiddleware_def correlation_id_def Let_def)

lemma listed_endpoint:
  "getRequiredPermission r \<noteq> [] \<longleftrightarrow>
     method_path r \<in> {''POST /tasks'', ''GET /tasks'', ''DELETE /tasks/*''}"
  by (auto simp: getRequiredPermission_def endpointPermissions_def split: if_splits)

lemma listed_endpoint_limited: "getRequiredPermission r \<noteq> [] \<Longrightarrow> getRateLimits r \<noteq> 0"
  unfolding listed_endpoint by (auto simp: getRateLimits_def endpointRateLimits_def)

lemma unlisted_endpoint:
  "method_path r \<notin> {''POST /tasks'', ''GET /tasks'', ''DELETE /tasks/*''} \<Longrightarrow>
     getRequiredPermission r = [] \<and> getRateLimits r = 0"
  by (auto simp: getRequiredPermission_def endpointPermissions_def getRateLimits_def endpointRateLimits_def)

text \<open>On an endpoint that has a permission the two middlewares together are one decision.\<close>

lemma chain_decides:
  assumes "getRequiredPermission r \<noteq> []" and "\<forall>k \<in> dom keys. 8 \<le> length k"
  shows "if authorised keys r then tasks_chain keys generated h r s = CorrelationMiddleware generated h r s
    else \<exists>code message. tasks_chain keys generated h r s = Return (deny code message) s \<and> code \<in> {401, 403}"
proof (cases "bearerToken r")
  case (Inl e)
  then show ?thesis
    by (simp add: tasks_chain_def auth.decides auth_verdict_def obey_def authorised_def) blast
next
  case (Inr token)
  show ?thesis
  proof (cases "keys token")
    case None
    with Inr assms(1) show ?thesis
      by (simp add: tasks_chain_def auth.decides auth_verdict_def obey_def authorised_def
          ApiKeyHasPermissions_iff keyIsActive_iff) blast
  next
    case (Some i)
    then have "token \<in> dom keys" by blast
    with assms(2) have "\<not> length token < 8" by (simp add: not_less)
    moreover have "ApiRateLimitMiddleware keys (CorrelationMiddleware generated h) r s
        = obey (rate_verdict keys r) (CorrelationMiddleware generated h) s"
      using listed_endpoint_limited [OF assms(1)] by (rule rate_limited_obeys)
    ultimately show ?thesis
      using Inr Some assms(1)
      by (simp add: tasks_chain_def auth.decides auth_verdict_def rate_verdict_def obey_def authorised_def
          ApiKeyHasPermissions_iff keyIsActive_iff belowRateLimit_iff) blast
  qed
qed

text \<open>On an endpoint that has none, the handler runs for every active key and the limiter answers again.\<close>

lemma chain_unlisted:
  assumes "getRequiredPermission r = []" and "getRateLimits r = 0" and "bearerToken r = Inr token"
    and "keys token = Some i" and "IsActive i" and "0 \<le> sint (CurrentRate i)"
  shows "tasks_chain keys generated h r s =
    andthen (h (r\<lparr>r_correlation := Some (correlation_id generated r)\<rparr>) s)
      (\<lambda>ws. Return ((SetHeader ''X-Request-ID'' (correlation_id generated r) # ws) @ deny 401 ''Invalid API key''))"
proof -
  have "tasks_chain keys generated h r s
      = ApiRateLimitMiddleware keys (CorrelationMiddleware generated h) r s"
    using assms(1,3) by (simp add: tasks_chain_def ApiKeyAuthMiddleware_def)
  also have "\<dots> = andthen (CorrelationMiddleware generated h r s)
      (\<lambda>ws. Return (ws @ deny 401 ''Invalid API key''))"
    by (rule rate_unlimited [where keys = keys and apiKey = token and i = i]) (use assms in simp_all)
  finally show ?thesis by (simp add: correlation_runs andthen_assoc)
qed

section \<open>Properties\<close>

text \<open>
  A bearer token is what follows \<open>Bearer\<close> and one space in the Authorization header, without
  the white space around it, and it is not empty; every other header is refused with an error. A
  token without white space at its ends is read back as it was sent.
\<close>

theorem bearerToken_correct:
  "(bearerToken r = Inr token \<longleftrightarrow>
      (\<exists>rest. r_Header r ''Authorization'' = ''Bearer '' @ rest \<and> TrimSpace rest = token \<and> token \<noteq> []))
   \<and> (\<forall>t. t \<noteq> [] \<and> space_width t = 0 \<and> last_space_width t = 0 \<longrightarrow>
        bearerToken (r\<lparr>r_Header := (\<lambda>k. if k = ''Authorization'' then ''Bearer '' @ t else [])\<rparr>) = Inr t)"
  using bearerToken_Inr_iff TrimSpace_id by auto

definition sample_get :: "string \<Rightarrow> request" where
  "sample_get token =
     \<lparr>r_Method = ''GET'', r_Path = ''/tasks'',
      r_Header = (\<lambda>k. if k = ''Authorization'' then ''Bearer '' @ token else []),
      r_Query = (\<lambda>_. []), r_correlation = None\<rparr>"

theorem bearerToken_correct_witness: "bearerToken (sample_get ''mk_client_abc123'') = Inr ''mk_client_abc123''"
proof -
  have "space_width ''mk_client_abc123'' = 0" "last_space_width ''mk_client_abc123'' = 0"
    by (simp_all add: space_width_def last_space_width_def byte_at_def)
  then show ?thesis
    using bearerToken_correct [of "sample_get []"] by (simp add: sample_get_def)
qed

text \<open>
  C10: on the endpoints that have a permission, POST and GET on \<open>/tasks\<close>, the handler runs exactly for
  authorised requests: an active key, known to the server, with the permission or \<open>admin:*\<close>, below
  the endpoint's rate. Then it runs once, with the correlation identifier in its context and in
  the answer. Any other request is answered with status 401 or 403 and nothing changes.
\<close>

theorem tasks_chain_authorises:
  assumes "getRequiredPermission r \<noteq> []" and "\<forall>k \<in> dom keys. 8 \<le> length k"
  shows "(authorised keys r \<longrightarrow> tasks_chain keys generated h r s =
      andthen (h (r\<lparr>r_correlation := Some (correlation_id generated r)\<rparr>) s)
        (\<lambda>ws. Return (SetHeader ''X-Request-ID'' (correlation_id generated r) # ws)))
    \<and> (\<not> authorised keys r \<longrightarrow>
        (\<exists>code message. tasks_chain keys generated h r s = Return (deny code message) s \<and> code \<in> {401, 403}))"
  using chain_decides [OF assms, of generated h s] by (simp add: correlation_runs split: if_splits)

lemma loaded_keys_long: "\<forall>k \<in> dom loadAPIKeys. 8 \<le> length k"
  by (auto simp: loadAPIKeys_def split: if_splits)

lemma sample_get_facts:
  "r_Header (sample_get t) ''Authorization'' = ''Bearer '' @ t" "method_path (sample_get t) = ''GET /tasks''"
  by (simp_all add: sample_get_def method_path_def)

lemma sample_get_empty: "\<not> authorised keys (sample_get [])"
proof -
  have "bearerToken (sample_get []) \<noteq> Inr t" for t
    unfolding bearerToken_Inr_iff sample_get_facts by (auto simp: TrimSpace_def trim_left.simps trim_right.simps space_width_def)
  then show ?thesis by (auto simp: authorised_def)
qed

theorem tasks_chain_authorises_witness:
  "\<exists>code message. tasks_chain loadAPIKeys ''c'' (\<lambda>r s. Return [] (Suc s)) (sample_get []) (0 :: nat)
      = Return (deny code message) 0 \<and> code \<in> {401, 403}"
proof -
  have "getRequiredPermission (sample_get []) \<noteq> []"
    unfolding listed_endpoint sample_get_facts by simp
  from tasks_chain_authorises [OF this loaded_keys_long, of "''c''" "\<lambda>r s. Return [] (Suc s)" 0] sample_get_empty
  show ?thesis by simp
qed

text \<open>
  With the keys the server loads, a request to those endpoints is authorised exactly when it
  carries the manager's key, the administrator's key or the client's key. The read-only key is
  refused, for reading too: its entry does not set \<open>IsActive\<close>.
\<close>

theorem loaded_keys_authorise:
  assumes "getRequiredPermission r \<noteq> []"
  shows "authorised loadAPIKeys r \<longleftrightarrow>
      bearerToken r \<in> {Inr ''mk_manager_internal'', Inr ''mk_admin_xyz789'', Inr ''mk_client_abc123''}"
    (is "?L \<longleftrightarrow> ?R")
proof -
  have p: "getRequiredPermission r \<in> {''tasks:read'', ''tasks:write''}"
    using assms by (auto simp: getRequiredPermission_def endpointPermissions_def split: if_splits)
  have l: "0 < sint (getRateLimits r)"
    using assms unfolding listed_endpoint by (auto simp: getRateLimits_def endpointRateLimits_def)
  show ?thesis
    using p l by (cases "bearerToken r") (auto simp: authorised_def loadAPIKeys_def)
qed

theorem loaded_keys_authorise_witness:
  "authorised loadAPIKeys (sample_get ''mk_client_abc123'') \<and> \<not> authorised loadAPIKeys (sample_get ''mk_readonly_def456'')"
proof -
  have req: "getRequiredPermission (sample_get t) \<noteq> []" for t
    unfolding listed_endpoint sample_get_facts by simp
  have tok: "bearerToken (sample_get t) = Inr t" if "t \<noteq> []" "space_width t = 0" "last_space_width t = 0" for t
    unfolding bearerToken_Inr_iff sample_get_facts using that TrimSpace_id by auto
  have "bearerToken (sample_get ''mk_client_abc123'') = Inr ''mk_client_abc123''"
      "bearerToken (sample_get ''mk_readonly_def456'') = Inr ''mk_readonly_def456''"
    by (rule tok; simp add: space_width_def last_space_width_def byte_at_def)+
  then show ?thesis using loaded_keys_authorise [OF req] by simp
qed

text \<open>
  Any other method and path under \<open>/tasks\<close>, in particular DELETE of a task and \<open>/tasks/\<close> with its
  trailing slash, needs no permission: the handler runs for every active key, and after it has
  answered the rate limiter, for which the limit is 0, writes a second answer with status 401.
\<close>

theorem unlisted_endpoint_needs_no_permission:
  assumes "method_path r \<notin> {''POST /tasks'', ''GET /tasks'', ''DELETE /tasks/*''}"
    and "bearerToken r = Inr token" and "keys token = Some i" and "IsActive i"
    and "0 \<le> sint (CurrentRate i)"
  shows "tasks_chain keys generated h r s =
    andthen (h (r\<lparr>r_correlation := Some (correlation_id generated r)\<rparr>) s)
      (\<lambda>ws. Return ((SetHeader ''X-Request-ID'' (correlation_id generated r) # ws) @ deny 401 ''Invalid API key''))"
  using unlisted_endpoint [OF assms(1)] by (intro chain_unlisted [where token = token and i = i]) (use assms in simp_all)

theorem unlisted_endpoint_needs_no_permission_witness:
  "tasks_chain [''reader_key'' \<mapsto> \<lparr>Permissions = [''tasks:read''], Description = [], CurrentRate = 0, RateLimits = 0,
      IsActive = True, ExpiresAt = []\<rparr>] ''c'' (\<lambda>r s. Return [WriteHeader 204] (Suc s))
      ((sample_get ''reader_key'')\<lparr>r_Method := ''DELETE'', r_Path := ''/tasks/1''\<rparr>) (0 :: nat)
    = Return [SetHeader ''X-Request-ID'' ''c'', WriteHeader 204, WriteHeader 401,
        WriteBody (ErrResponse 401 ''Invalid API key'')] 1"
proof -
  let ?r = "(sample_get ''reader_key'')\<lparr>r_Method := ''DELETE'', r_Path := ''/tasks/1''\<rparr>"
  let ?i = "\<lparr>Permissions = [''tasks:read''], Description = [], CurrentRate = 0, RateLimits = 0,
      IsActive = True, ExpiresAt = []\<rparr>"
  have mp: "method_path ?r \<notin> {''POST /tasks'', ''GET /tasks'', ''DELETE /tasks/*''}"
    by (simp add: method_path_def HasPrefix_def)
  have "space_width ''reader_key'' = 0" "last_space_width ''reader_key'' = 0"
    by (simp_all add: space_width_def last_space_width_def byte_at_def)
  then have tok: "bearerToken ?r = Inr ''reader_key''"
    unfolding bearerToken_Inr_iff by (simp add: sample_get_def TrimSpace_id)
  have "correlation_id ''c'' ?r = ''c''" by (simp add: correlation_id_def sample_get_def)
  then show ?thesis
    using unlisted_endpoint_needs_no_permission [OF mp tok, of "[''reader_key'' \<mapsto> ?i]" ?i "''c''"
        "\<lambda>r s. Return [WriteHeader 204] (Suc s)" 0]
    by (simp add: deny_def)
qed

end
