(* ===== verification/Pages.thy ===== *)
theory Pages
  imports Go_Strings
begin

text \<open>
  Pagination, which both listing handlers compute in 64-bit integers: the pages of a list on natural
  numbers, and the conditions under which the word arithmetic of the handlers agrees with them.
\<close>

section \<open>Page starts\<close>

definition page_start :: "go_int \<Rightarrow> go_int \<Rightarrow> go_int" where
  "page_start page limit = (page - 1) * limit"

section \<open>Pages of a list\<close>

text \<open>Page \<open>k\<close> (from 1) of a list cut into pages of \<open>l\<close> entries, and the number of pages.\<close>

definition page_of :: "'a list \<Rightarrow> nat \<Rightarrow> nat \<Rightarrow> 'a list" where
  "page_of xs k l = take l (drop ((k - 1) * l) xs)"

definition page_count :: "'a list \<Rightarrow> nat \<Rightarrow> nat" where
  "page_count xs l = max 1 ((length xs + l - 1) div l)"

lemma pages_take: "concat (map (\<lambda>k. page_of xs (Suc k) l) [0..<n]) = take (n * l) xs"
proof (induction n)
  case (Suc n)
  have "take (Suc n * l) xs = take (n * l + l) xs" by (simp add: add.commute)
  then show ?case using Suc by (simp add: page_of_def take_add)
qed simp

lemma page_count_covers: "0 < l \<Longrightarrow> length xs \<le> page_count xs l * l"
proof -
  assume l: "0 < l"
  have "length xs + l - 1 < Suc ((length xs + l - 1) div l) * l"
    using l dividend_less_div_times [of l "length xs + l - 1"] by simp
  then have "length xs \<le> (length xs + l - 1) div l * l" using l by simp
  also have "\<dots> \<le> page_count xs l * l" by (simp add: page_count_def)
  finally show ?thesis .
qed

lemma pages_partition:
  "0 < l \<Longrightarrow> concat (map (\<lambda>k. page_of xs k l) [1..<Suc (page_count xs l)]) = xs"
proof -
  assume l: "0 < l"
  have "map (\<lambda>k. page_of xs k l) [1..<Suc (page_count xs l)]
      = map (\<lambda>k. page_of xs (Suc k) l) [0..<page_count xs l]"
    by (simp add: map_Suc_upt [symmetric] del: upt_Suc)
  then show ?thesis using pages_take [of xs l "page_count xs l"] page_count_covers [OF l, of xs] by simp
qed
text \<open>Where the numbers fit, the handler's word arithmetic is the arithmetic of the pages.\<close>

lemma page_start_exact:
  assumes "1 \<le> sint page" and "1 \<le> sint limit" and "sint page * sint limit < 2 ^ 63"
  shows "sint (page_start page limit) = (sint page - 1) * sint limit"
    and "sint (page_start page limit + limit) = sint page * sint limit"
proof -
  have p1: "sint (page - 1) = sint page - 1"
    using sint_diff_exact [of page 1] assms(1) go_int_range [of page] by simp
  have nn: "0 \<le> (sint page - 1) * sint limit" using assms by simp
  have lt: "(sint page - 1) * sint limit + sint limit < 2 ^ 63" using assms(3) by (simp add: algebra_simps)
  then have lt': "(sint page - 1) * sint limit < 2 ^ 63" using assms(2) by linarith
  show s: "sint (page_start page limit) = (sint page - 1) * sint limit"
    unfolding page_start_def using sint_mult_exact [of "page - 1" limit] p1 nn lt' by simp
  show "sint (page_start page limit + limit) = sint page * sint limit"
  proof -
    have sum: "sint (page_start page limit) + sint limit = sint page * sint limit"
      using s by (simp add: algebra_simps)
    moreover have "0 \<le> sint page * sint limit" using assms by simp
    ultimately show ?thesis
      using sint_add_exact [of "page_start page limit" limit] assms(3) by simp
  qed
qed

lemma go_slice_page:
  assumes "1 \<le> sint page" and "1 \<le> sint limit" and "sint page * sint limit < 2 ^ 63"
    and len: "int (length xs) < 2 ^ 63" and inside: "sint (page_start page limit) < int (length xs)"
  shows "go_slice xs (page_start page limit) (go_min (page_start page limit + limit) (go_len xs))
    = Some (page_of xs (nat (sint page)) (nat (sint limit)))"
proof -
  note e = page_start_exact [OF assms(1-3)]
  let ?s = "(sint page - 1) * sint limit"
  have s0: "0 \<le> ?s" using assms by simp
  have m: "sint (go_min (page_start page limit + limit) (go_len xs)) = min (sint page * sint limit) (int (length xs))"
    using e sint_go_len [OF len] by (simp add: go_min_def min_def)
  have ns: "nat ?s = (nat (sint page) - 1) * nat (sint limit)"
    using assms by (simp add: nat_mult_distrib nat_diff_distrib)
  have diff: "sint page * sint limit = ?s + sint limit" by (simp add: algebra_simps)
  have "take (nat (min (?s + sint limit) (int (length xs))) - nat ?s) (drop (nat ?s) xs)
      = take (nat (sint limit)) (drop (nat ?s) xs)"
  proof (cases "?s + sint limit \<le> int (length xs)")
    case True
    then have "nat (min (?s + sint limit) (int (length xs))) - nat ?s = nat (sint limit)"
      using s0 assms(2) by (simp add: nat_add_distrib)
    then show ?thesis by simp
  next
    case False
    then have "length (drop (nat ?s) xs) \<le> nat (min (?s + sint limit) (int (length xs))) - nat ?s"
      and "length (drop (nat ?s) xs) \<le> nat (sint limit)"
      using s0 assms(2) by auto
    then show ?thesis by simp
  qed
  then show ?thesis
    using s0 inside assms(2) e(1) m unfolding diff
    by (simp add: go_slice_def page_of_def ns)
qed

lemma page_of_past_end: "length xs \<le> (k - 1) * l \<Longrightarrow> page_of xs k l = []"
  by (simp add: page_of_def)

lemma page_count_bounds:
  assumes "0 < l" and "1 \<le> k"
  shows "k \<le> page_count xs l \<longleftrightarrow> k = 1 \<or> (k - 1) * l < length xs"
proof -
  have "Suc j \<le> (length xs + l - 1) div l \<longleftrightarrow> j * l < length xs" for j
  proof -
    have "Suc j \<le> (length xs + l - 1) div l \<longleftrightarrow> Suc j * l \<le> length xs + l - 1"
      using less_eq_div_iff_mult_less_eq [of l "Suc j" "length xs + l - 1"] assms(1) by simp
    also have "\<dots> \<longleftrightarrow> j * l < length xs" using assms(1) by auto
    finally show ?thesis .
  qed
  from this [of "k - 1"] show ?thesis using assms(2) by (auto simp: page_count_def)
qed

lemma total_pages:
  assumes l: "1 \<le> sint per_page" "sint per_page \<le> 1000" and len: "int (length xs) < 2 ^ 62"
  shows "sint (if go_div (go_len xs + per_page - 1) per_page = 0 then 1
      else go_div (go_len xs + per_page - 1) per_page) = int (page_count xs (nat (sint per_page)))"
proof -
  have n: "sint (go_len xs) = int (length xs)" using sint_go_len [of xs] len by simp
  have a: "sint (go_len xs + per_page) = int (length xs) + sint per_page"
    using sint_add_exact [of "go_len xs" per_page] n l len by simp
  then have b: "sint (go_len xs + per_page - 1) = int (length xs) + sint per_page - 1"
    using sint_diff_exact [of "go_len xs + per_page" 1] l len by simp
  have d: "sint (go_div (go_len xs + per_page - 1) per_page)
      = int ((length xs + nat (sint per_page) - 1) div nat (sint per_page))"
    using sint_go_div [of "go_len xs + per_page - 1" per_page] b l
    by (simp add: zdiv_int of_nat_diff)
  have "go_div (go_len xs + per_page - 1) per_page = 0
      \<longleftrightarrow> (length xs + nat (sint per_page) - 1) div nat (sint per_page) = 0"
    using d by (metis of_nat_eq_0_iff signed_0 signed_eq_0_iff)
  then show ?thesis using d by (auto simp: page_count_def max_def)
qed
lemma sint_word_of_nat: "int k < 2 ^ 63 \<Longrightarrow> sint (word_of_nat k :: go_int) = int k"
  using sint_of_int [of "int k"] by simp

end
