(* ===== verification/Manager_Http.thy ===== *)
theory Manager_Http
  imports Manager_Sync Manager_Auth Pages
begin

text \<open>
  The handlers of the manager's API, \<open>src/internal/manager/http/handlers.go\<close>: creating a task, the
  paginated listing and stopping a task. The state of the server is the manager's record.

  \<open>encoding/json\<close>, \<open>uuid.Parse\<close> and \<open>chi.URLParam\<close> are inputs: the decoder of a request body, the
  parser of identifiers and the path parameter.
\<close>

section \<open>Data\<close>

record pagination_metadata =
  Page :: go_int
  Limit :: go_int
  TotalTasks :: go_int
  TotalPages :: go_int
  HasNext :: bool
  HasPrev :: bool

datatype manager_json =
    EventJson task_event
  | TasksPage "task option list" pagination_metadata
  | Message string

type_synonym 'q manager_handler = "(manager_json, 'q manager) handler"

section \<open>Pagination\<close>

definition parsePaginationParams :: "request \<Rightarrow> error + go_int \<times> go_int" where
  "parsePaginationParams r =
     (let pageStr = r_Query r ''page'';
          page = (if pageStr = [] then Inr 1
                  else case Atoi pageStr of
                         None \<Rightarrow> Inl ''invalid page parameter''
                       | Some p \<Rightarrow> if sint p < 1 then Inl ''invalid page parameter'' else Inr p)
      in case page of Inl err \<Rightarrow> Inl err
         | Inr page \<Rightarrow>
            (let limitStr = r_Query r ''limit'';
                 limit = (if limitStr = [] then Inr 100
                          else case Atoi limitStr of
                                 None \<Rightarrow> Inl ''limit must be between 1 and 1000''
                               | Some l \<Rightarrow> if sint l < 1 \<or> 1000 < sint l
                                           then Inl ''limit must be between 1 and 1000'' else Inr l)
             in case limit of Inl err \<Rightarrow> Inl err | Inr limit \<Rightarrow> Inr (page, limit)))"

definition page_metadata :: "go_int \<Rightarrow> go_int \<Rightarrow> go_int \<Rightarrow> go_int \<Rightarrow> pagination_metadata" where
  "page_metadata page limit taskCount last_i =
     (let totalPages = go_div (taskCount + limit - 1) limit;
          totalPages = (if totalPages = 0 then 1 else totalPages)
      in \<lparr>Page = page, Limit = limit, TotalTasks = taskCount, TotalPages = totalPages,
          HasNext = sint last_i < sint taskCount, HasPrev = 1 < sint page\<rparr>)"

text \<open>
  The read lock is taken and released by hand: a panic while slicing leaves it held. The server
  recovers the panic of a handler, so the process goes on with the lock in that state.
\<close>

definition GetTasksHandler :: "'q manager_handler" where
  "GetTasksHandler r m =
     (case parsePaginationParams r of
        Inl err \<Rightarrow> Return (writeErrorResponse 400 ''Invalid parameters for page 0, or limit 0'') m
      | Inr (page, limit) \<Rightarrow>
          andthen (rlock_op mu mu_update m) (\<lambda>_ m.
            (let taskCount = go_len (SortedTasks m);
                 start = page_start page limit;
                 last_i = go_min (start + limit) taskCount
             in andthen
                  (if sint taskCount \<le> sint start \<or> taskCount = 0 then Return [] m
                   else case go_slice (SortedTasks m) start last_i of
                          None \<Rightarrow> Panic SliceBounds m
                        | Some taskPointers \<Rightarrow> Return (map (map_option (task_at m)) taskPointers) m)
                  (\<lambda>tasks m.
                    andthen (runlock_op mu mu_update m) (\<lambda>_.
                      Return (writeSuccessResponse 200
                        (TasksPage tasks (page_metadata page limit taskCount last_i))))))))"

section \<open>Creating a task\<close>

definition minMemoryMB :: go_int where
  "minMemoryMB = 6"

definition minMemoryBytes :: go_int where
  "minMemoryBytes = minMemoryMB * 1024 * 1024"

definition maxBodyBytes :: nat where
  "maxBodyBytes = 10 * 1024"

record start_env =
  body_bytes :: string
  unmarshal :: "string \<Rightarrow> error + start_task_request"
  gen_id :: uuid
  clock :: time

text \<open>The checks of the request, in the order of the code; the memory size in bytes when they pass.\<close>

definition validate :: "start_task_request \<Rightarrow> error + go_int" where
  "validate req =
     (if req_Name req = [] then Inl ''Task name is required''
      else if req_Image req = [] then Inl ''Task image is required''
      else (let memoryInBytes = req_Memory req * 1024 * 1024
            in if sint memoryInBytes < sint minMemoryBytes
               then Inl (''Memory must be at least '' @ show_int minMemoryMB @ ''MB, got ''
                         @ show_int (req_Memory req) @ ''MB'')
               else if 0 < sint (req_Disk req) \<and> sint (req_Disk req) < 1
               then Inl ''Disk space must be at least 1MB if specified''
               else Inr memoryInBytes))"

definition fullTask :: "start_env \<Rightarrow> string \<Rightarrow> start_task_request \<Rightarrow> go_int \<Rightarrow> task" where
  "fullTask env correlationID req memoryInBytes =
     zero_task\<lparr>ID := gen_id env, CorrelationID := correlationID, Name := req_Name req,
       Image := req_Image req, Memory := memoryInBytes, Disk := req_Disk req,
       RestartPolicy := req_RestartPolicy req, PortBindings := req_PortBindings req,
       State := Pending, RetryCount := 0, MaxRetryCount := 3, StartTime := clock env,
       ExposedPortSet := {}, HostPorts := (\<lambda>_. None)\<rparr>"

lemma fullTask_fields [simp]:
  "ID (fullTask env cid req b) = gen_id env" "CorrelationID (fullTask env cid req b) = cid"
  "Name (fullTask env cid req b) = req_Name req" "Image (fullTask env cid req b) = req_Image req"
  "Memory (fullTask env cid req b) = b" "State (fullTask env cid req b) = Pending"
  "StartTime (fullTask env cid req b) = clock env"
  by (simp_all add: fullTask_def)

definition create_task :: "'q queue_api \<Rightarrow> task \<Rightarrow> 'q manager \<Rightarrow> (ptr, 'q manager) result" where
  "create_task Q t m =
     (let (p, h) = alloc t (store m)
      in andthen (AddTask Q p (m\<lparr>store := h\<rparr>)) (\<lambda>_. Return p))"

definition StartTaskHandler :: "'q queue_api \<Rightarrow> start_env \<Rightarrow> 'q manager_handler" where
  "StartTaskHandler Q env r m =
     (case r_correlation r of
        None \<Rightarrow> Panic TypeAssertion m
      | Some correlationID \<Rightarrow>
          if maxBodyBytes < length (body_bytes env)
          then Return (writeErrorResponse 400 (''Error unmarshalling body: '' @ ''http: request body too large'')) m
          else case unmarshal env (body_bytes env) of
            Inl err \<Rightarrow> Return (writeErrorResponse 400 (''Error unmarshalling body: '' @ err)) m
          | Inr req \<Rightarrow>
              (case validate req of
                 Inl msg \<Rightarrow> Return (writeErrorResponse 400 msg) m
               | Inr memoryInBytes \<Rightarrow>
                   andthen (create_task Q (fullTask env correlationID req memoryInBytes) m) (\<lambda>p m.
                     (let t = task_at m p
                      in Return (writeSuccessResponse 201
                           (EventJson \<lparr>ev_ID = gen_id env, ev_State = Pending,
                                       ev_Timestamp = clock env, ev_Task = t\<rparr>)) m))))"

section \<open>Stopping a task\<close>

text \<open>\<open>uuid_text\<close> stands for the text form of an identifier in the reply.\<close>

definition StopTaskHandler ::
    "'q queue_api \<Rightarrow> (string \<Rightarrow> error + uuid) \<Rightarrow> (uuid \<Rightarrow> string) \<Rightarrow> string \<Rightarrow> 'q manager_handler" where
  "StopTaskHandler Q uuid_parse uuid_text taskID r m =
     (if taskID = [] then Return [WriteHeader 400] m
      else andthen (lock_op mu mu_update m) (\<lambda>_ m.
        case uuid_parse taskID of
          Inl err \<Rightarrow>
            andthen (unlock_op mu mu_update m) (\<lambda>_.
              Return (writeErrorResponse 400 (''Error parsing taskID: '' @ err)))
        | Inr tId \<Rightarrow>
            (case TaskDb m tId of
               None \<Rightarrow>
                 andthen (unlock_op mu mu_update m) (\<lambda>_.
                   Return (writeErrorResponse 400 ''Task not found: <nil>''))
             | Some taskToStop \<Rightarrow>
                 (let m = m\<lparr>store := write_cell taskToStop (\<lambda>t. t\<lparr>State := Completed\<rparr>) (store m)\<rparr>
                  in andthen (unlock_op mu mu_update m) (\<lambda>_ m.
                     andthen (AddTask Q taskToStop m) (\<lambda>_ m.
                       Return (writeSuccessResponse 204
                         (Message (''Successfully stopped Task '' @ uuid_text (ID (task_at m taskToStop))))) m))))))"
text \<open>The parameters the parser accepts.\<close>

lemma parse_range:
  assumes "parsePaginationParams r = Inr (page, limit)"
  shows "1 \<le> sint page" and "1 \<le> sint limit" and "sint limit \<le> 1000"
  using assms
  by (auto simp: parsePaginationParams_def Let_def split: if_splits option.splits sum.splits)
text \<open>The handler on a page whose number does not overflow.\<close>

lemma GetTasksHandler_page:
  assumes q: "quiet m" and p: "parsePaginationParams r = Inr (pg, per_page)"
    and fits: "sint pg * sint per_page < 2 ^ 63" and len: "int (length (SortedTasks m)) < 2 ^ 62"
  shows "GetTasksHandler r m = Return (writeSuccessResponse 200
    (TasksPage (map (map_option (task_at m)) (page_of (SortedTasks m) (nat (sint pg)) (nat (sint per_page))))
      (page_metadata pg per_page (go_len (SortedTasks m))
        (go_min (page_start pg per_page + per_page) (go_len (SortedTasks m)))))) m"
proof -
  note b = parse_range [OF p]
  let ?m = "mu_update (\<lambda>x. x\<lparr>readers := Suc (readers x)\<rparr>) m" and ?xs = "SortedTasks m"
  have len': "int (length ?xs) < 2 ^ 63" using len by simp
  note n = sint_go_len [OF len']
  note st = page_start_exact(1) [OF b(1,2) fits]
  have release: "runlock_op mu mu_update ?m = Return () m"
    using q by (simp add: runlock_op_def comp_def)
  have at: "task_at ?m = task_at m" by (simp add: task_at_def fun_eq_iff)
  have past_end: "page_of ?xs (nat (sint pg)) (nat (sint per_page)) = []"
    if "sint (go_len ?xs) \<le> sint (page_start pg per_page) \<or> go_len ?xs = 0"
  proof (rule page_of_past_end)
    have "int (length ?xs) \<le> (sint pg - 1) * sint per_page"
      using that n st b by (auto simp: mult_nonneg_nonneg)
    also have "(sint pg - 1) * sint per_page = int ((nat (sint pg) - 1) * nat (sint per_page))"
      using b by (simp add: of_nat_diff)
    finally show "length ?xs \<le> (nat (sint pg) - 1) * nat (sint per_page)" by (simp only: of_nat_le_iff)
  qed
  show ?thesis
  proof (cases "sint (go_len ?xs) \<le> sint (page_start pg per_page) \<or> go_len ?xs = 0")
    case True
    then show ?thesis
      using past_end q p release by (simp add: GetTasksHandler_def Let_def rlock_op_def)
  next
    case False
    then have "go_slice ?xs (page_start pg per_page) (go_min (page_start pg per_page + per_page) (go_len ?xs))
        = Some (page_of ?xs (nat (sint pg)) (nat (sint per_page)))"
      using go_slice_page [OF b(1,2) fits len'] n by simp
    with False show ?thesis
      using q p release at by (simp add: GetTasksHandler_def Let_def rlock_op_def)
  qed
qed

text \<open>The request for a page.\<close>

definition page_request :: "go_int \<Rightarrow> go_int \<Rightarrow> request" where
  "page_request pg per_page =
     \<lparr>r_Method = ''GET'', r_Path = ''/tasks'', r_Header = (\<lambda>_. []),
      r_Query = (\<lambda>k. if k = ''page'' then show_int pg else if k = ''limit'' then show_int per_page else []),
      r_correlation = None\<rparr>"

lemma show_int_nonempty: "show_int w \<noteq> []"
  by (simp add: show_int_def show_nat_nonempty)

lemma parse_page_request:
  assumes "1 \<le> sint pg" and "1 \<le> sint per_page" and "sint per_page \<le> 1000"
  shows "parsePaginationParams (page_request pg per_page) = Inr (pg, per_page)"
  using assms
  by (simp add: parsePaginationParams_def page_request_def Let_def show_int_nonempty Atoi_show_int)
lemma sint_numeral_two: "sint (2 :: go_int) = 2"
  by simp

section \<open>Properties\<close>

text \<open>
  The pagination parameters that are accepted are a page of at least 1 and a limit from 1 to
  1000; absent parameters mean page 1 and limit 100, and every pair in those ranges is accepted
  and read back as it was printed.
\<close>

theorem pagination_params:
  "(\<forall>r pg per_page. parsePaginationParams r = Inr (pg, per_page) \<longrightarrow>
      1 \<le> sint pg \<and> 1 \<le> sint per_page \<and> sint per_page \<le> 1000)
   \<and> (\<forall>r. r_Query r ''page'' = [] \<and> r_Query r ''limit'' = [] \<longrightarrow> parsePaginationParams r = Inr (1, 100))
   \<and> (\<forall>pg per_page. 1 \<le> sint pg \<and> 1 \<le> sint per_page \<and> sint per_page \<le> 1000 \<longrightarrow>
        parsePaginationParams (page_request pg per_page) = Inr (pg, per_page))"
  using parse_range parse_page_request by (auto simp: parsePaginationParams_def Let_def)

theorem pagination_params_witness:
  "parsePaginationParams (page_request 3 1000) = Inr (3, 1000)"
  using pagination_params by simp

text \<open>
  C22: a page whose last index fits in an \<open>int\<close> is answered with status 200, the tasks of that page
  and metadata that agree with the listing: the number of tasks, the number of pages (1 for an
  empty listing), whether a page follows and whether one precedes. The manager is not changed.
\<close>

theorem GetTasksHandler_correct:
  assumes "quiet m" and "parsePaginationParams r = Inr (pg, per_page)"
    and "sint pg * sint per_page < 2 ^ 63" and "int (length (SortedTasks m)) < 2 ^ 62"
  shows "\<exists>md. GetTasksHandler r m = Return (writeSuccessResponse 200
      (TasksPage (map (map_option (task_at m))
        (page_of (SortedTasks m) (nat (sint pg)) (nat (sint per_page)))) md)) m
    \<and> Page md = pg \<and> Limit md = per_page \<and> sint (TotalTasks md) = int (length (SortedTasks m))
    \<and> sint (TotalPages md) = int (page_count (SortedTasks m) (nat (sint per_page)))
    \<and> (HasNext md \<longleftrightarrow> nat (sint pg) < page_count (SortedTasks m) (nat (sint per_page)))
    \<and> (HasPrev md \<longleftrightarrow> 1 < sint pg)"
proof -
  let ?xs = "SortedTasks m"
  note b = parse_range [OF assms(2)]
  have n: "sint (go_len ?xs) = int (length ?xs)" using sint_go_len [of ?xs] assms(4) by simp
  have next_page: "sint (go_min (page_start pg per_page + per_page) (go_len ?xs)) < int (length ?xs)
      \<longleftrightarrow> nat (sint pg) < page_count ?xs (nat (sint per_page))"
  proof -
    have "sint (go_min (page_start pg per_page + per_page) (go_len ?xs)) < int (length ?xs)
        \<longleftrightarrow> sint pg * sint per_page < int (length ?xs)"
      using page_start_exact(2) [OF b(1,2) assms(3)] n by (auto simp: go_min_def)
    also have "\<dots> \<longleftrightarrow> nat (sint pg) * nat (sint per_page) < length ?xs"
      using b by (simp add: nat_mult_distrib [symmetric] nat_less_iff)
    also have "\<dots> \<longleftrightarrow> Suc (nat (sint pg)) \<le> page_count ?xs (nat (sint per_page))"
      using page_count_bounds [of "nat (sint per_page)" "Suc (nat (sint pg))" ?xs] b by auto
    finally show ?thesis by (simp add: Suc_le_eq)
  qed
  let ?md = "page_metadata pg per_page (go_len ?xs) (go_min (page_start pg per_page + per_page) (go_len ?xs))"
  have "Page ?md = pg \<and> Limit ?md = per_page \<and> sint (TotalTasks ?md) = int (length ?xs)
    \<and> sint (TotalPages ?md) = int (page_count ?xs (nat (sint per_page)))
    \<and> (HasNext ?md \<longleftrightarrow> nat (sint pg) < page_count ?xs (nat (sint per_page))) \<and> (HasPrev ?md \<longleftrightarrow> 1 < sint pg)"
    using next_page n total_pages [OF b(2,3) assms(4)] unfolding page_metadata_def Let_def by simp
  then show ?thesis using GetTasksHandler_page [OF assms] by blast
qed

theorem GetTasksHandler_correct_witness:
  "\<exists>md. GetTasksHandler (page_request 2 1) sample_two
      = Return (writeSuccessResponse 200 (TasksPage [Some (task_at sample_two 1)] md)) sample_two
    \<and> TotalPages md = 2 \<and> \<not> HasNext md \<and> HasPrev md"
proof -
  have p: "parsePaginationParams (page_request 2 1) = Inr (2, 1)" by (simp add: parse_page_request)
  have len: "length (SortedTasks sample_two) = 2" by (simp add: sample_two_def)
  have "\<exists>md. GetTasksHandler (page_request 2 1) sample_two = Return (writeSuccessResponse 200
      (TasksPage (map (map_option (task_at sample_two))
        (page_of (SortedTasks sample_two) (nat (sint (2 :: go_int))) (nat (sint (1 :: go_int))))) md)) sample_two
    \<and> Page md = 2 \<and> Limit md = 1 \<and> sint (TotalTasks md) = int (length (SortedTasks sample_two))
    \<and> sint (TotalPages md) = int (page_count (SortedTasks sample_two) (nat (sint (1 :: go_int))))
    \<and> (HasNext md \<longleftrightarrow> nat (sint (2 :: go_int)) < page_count (SortedTasks sample_two) (nat (sint (1 :: go_int))))
    \<and> (HasPrev md \<longleftrightarrow> 1 < sint (2 :: go_int))"
    by (rule GetTasksHandler_correct [OF sample_two_ok(2) p]) (simp_all add: len)
  moreover have "page_of (SortedTasks sample_two) 2 1 = [Some 1]" "page_count (SortedTasks sample_two) 1 = 2"
    by (simp_all add: sample_two_def page_of_def page_count_def)
  moreover have "sint x = 2 \<Longrightarrow> x = 2" for x :: go_int by (metis signed_word_eqI sint_numeral_two)
  ultimately show ?thesis by auto
qed

text \<open>
  C23: the pages of a fixed limit cut the listing: asked one after the other they give every listed
  task exactly once and in the order of the listing.
\<close>

theorem pages_cover_listing:
  assumes "quiet m" and "1 \<le> n" and "n \<le> 1000" and "int (length (SortedTasks m)) < 2 ^ 62"
  shows "\<exists>page. (\<forall>k \<in> {1..page_count (SortedTasks m) n}. \<exists>md.
        GetTasksHandler (page_request (word_of_nat k) (word_of_nat n)) m
          = Return (writeSuccessResponse 200 (TasksPage (page k) md)) m)
    \<and> concat (map page [1..<Suc (page_count (SortedTasks m) n)])
        = map (map_option (task_at m)) (SortedTasks m)"
proof -
  let ?xs = "SortedTasks m" and ?page = "\<lambda>k. map (map_option (task_at m)) (page_of (SortedTasks m) k n)"
  have served: "\<exists>md. GetTasksHandler (page_request (word_of_nat k) (word_of_nat n)) m
      = Return (writeSuccessResponse 200 (TasksPage (?page k) md)) m"
    if k: "k \<in> {1..page_count ?xs n}" for k
  proof -
    have "(k - 1) * n \<le> length ?xs"
      using page_count_bounds [of n k ?xs] k assms(2) by auto
    then have kn: "k * n \<le> length ?xs + 1000"
      using k assms(3) by (cases k) auto
    have "k \<le> k * n" using assms(2) by simp
    have big: "length ?xs + 1000 < 2 ^ 63" using assms(4) by simp
    have "k * n < 2 ^ 63" by (rule le_less_trans [OF kn big])
    moreover from \<open>k \<le> k * n\<close> this have "k < 2 ^ 63" by (rule le_less_trans)
    ultimately have small: "int k < 2 ^ 63" "int n < 2 ^ 63" "int k * int n < 2 ^ 63"
      using assms(3) by (simp_all flip: of_nat_mult)
    have s: "sint (word_of_nat k :: go_int) = int k" "sint (word_of_nat n :: go_int) = int n"
      using small by (simp_all add: sint_word_of_nat)
    have p: "parsePaginationParams (page_request (word_of_nat k) (word_of_nat n)) = Inr (word_of_nat k, word_of_nat n)"
      by (rule parse_page_request) (use s k assms in auto)
    show ?thesis using GetTasksHandler_page [OF assms(1) p _ assms(4)] small(3) s by auto
  qed
  have "concat (map ?page [1..<Suc (page_count ?xs n)])
      = map (map_option (task_at m)) (concat (map (\<lambda>k. page_of ?xs k n) [1..<Suc (page_count ?xs n)]))"
    by (simp add: map_concat comp_def del: upt_Suc)
  also have "\<dots> = map (map_option (task_at m)) ?xs"
    using pages_partition [of n ?xs] assms(2) by simp
  finally show ?thesis using served by (intro exI [of _ ?page]) blast
qed

theorem pages_cover_listing_witness:
  "\<exists>page. (\<forall>k \<in> {1..page_count (SortedTasks sample_two) 1}. \<exists>md.
        GetTasksHandler (page_request (word_of_nat k) (word_of_nat 1)) sample_two
          = Return (writeSuccessResponse 200 (TasksPage (page k) md)) sample_two)
    \<and> concat (map page [1..<Suc (page_count (SortedTasks sample_two) 1)])
        = map (map_option (task_at sample_two)) (SortedTasks sample_two)"
  by (rule pages_cover_listing [OF sample_two_ok(2)]) (simp_all add: sample_two_def)

text \<open>
  C34: the page number has no upper bound, and \<open>(page - 1) * limit\<close> is computed in 64 bits. The
  request \<open>page=1152921504606846977&limit=8\<close> passes the checks, its start index is negative, and
  the slice expression panics with the read lock held, on every listing that is not empty.
\<close>

theorem GetTasksHandler_overflow:
  assumes "quiet m" and "SortedTasks m \<noteq> []" and "int (length (SortedTasks m)) < 2 ^ 62"
  shows "GetTasksHandler (page_request 1152921504606846977 8) m
    = Panic SliceBounds (mu_update (\<lambda>x. x\<lparr>readers := Suc (readers x)\<rparr>) m)"
proof -
  have p: "parsePaginationParams (page_request 1152921504606846977 8) = Inr (1152921504606846977, 8)"
    by (simp add: parse_page_request)
  have start: "sint (page_start 1152921504606846977 8) < 0" by (simp add: page_start_def)
  have n: "sint (go_len (SortedTasks m)) = int (length (SortedTasks m))"
    using sint_go_len [of "SortedTasks m"] assms(3) by simp
  then have "go_len (SortedTasks m) \<noteq> 0" using assms(2) by auto
  moreover have "\<not> sint (go_len (SortedTasks m)) \<le> sint (page_start 1152921504606846977 8)"
    using n start by linarith
  moreover have "go_slice (SortedTasks m) (page_start 1152921504606846977 8) x = None" for x
    using start by (simp add: go_slice_def)
  ultimately show ?thesis
    using assms(1) p by (simp add: GetTasksHandler_def Let_def rlock_op_def)
qed

theorem GetTasksHandler_overflow_witness:
  "GetTasksHandler (page_request 1152921504606846977 8) sample_two
    = Panic SliceBounds (mu_update (\<lambda>x. x\<lparr>readers := Suc (readers x)\<rparr>) sample_two)"
  by (rule GetTasksHandler_overflow [OF sample_two_ok(2)]) (simp_all add: sample_two_def)


definition sample_request :: start_task_request where
  "sample_request =
     \<lparr>req_Name = ''web'', req_Image = ''nginx'', req_Memory = 64, req_Disk = 0, req_RestartPolicy = [],
      req_PortBindings = (\<lambda>_. None)\<rparr>"


text \<open>
  Beyond that the multiplication wraps around: a request for 2 to the 44 plus 6 megabytes is
  accepted as one for 6 MB.
\<close>

lemma validate_memory_wraps:
  "validate (sample_request\<lparr>req_Memory := 17592186044422\<rparr>) = Inr (6 * 1048576)"
  by (simp add: validate_def sample_request_def minMemoryBytes_def minMemoryMB_def)

end
