(* ===== verification/Manager_System.thy ===== *)
theory Manager_System
  imports Manager_Http
begin

text \<open>
  The manager process as a transition system: its goroutines (the API handlers, the send loop, the
  update loop, the clean-up, the health checks) as steps on one record, and the facts that hold in
  every state it can reach.

  A step is one whole operation that returns, a request whose handler panics (the HTTP server
  recovers the panic and the process goes on), or a goroutine joining the writers that wait for
  the mutex. A panic anywhere else ends the process, and an operation that waits for ever makes
  no step. Steps that interleave inside an operation between its locked regions are not modelled.
\<close>

inductive manager_step :: "'q queue_api \<Rightarrow> 'q manager \<Rightarrow> 'q manager \<Rightarrow> bool" for Q where
  create: "StartTaskHandler Q env r m = Return ws t \<Longrightarrow> manager_step Q m t"
| list_page: "GetTasksHandler r m = Return ws t \<Longrightarrow> manager_step Q m t"
| list_panic: "GetTasksHandler r m = Panic p t \<Longrightarrow> manager_step Q m t"
| stop: "StopTaskHandler Q uuid_parse uuid_text taskID r m = Return ws t \<Longrightarrow> manager_step Q m t"
| send: "SendWork Q senv m = Return () t \<Longrightarrow> manager_step Q m t"
| update: "updateTasks replies m = Return e t \<Longrightarrow> manager_step Q m t"
| cleanup: "CleanUpTasks order now m = Return () t \<Longrightarrow> manager_step Q m t"
| health: "HealthCheckWorkers results m = Return () t \<Longrightarrow> manager_step Q m t"
| wait: "\<not> can_lock (mu m) \<Longrightarrow>
    manager_step Q m (mu_update (\<lambda>x. x\<lparr>writers_waiting := Suc (writers_waiting x)\<rparr>) m)"

inductive reachable :: "'q queue_api \<Rightarrow> 'q manager \<Rightarrow> 'q manager \<Rightarrow> bool" for Q m0 where
  start: "reachable Q m0 m0"
| step: "reachable Q m0 m \<Longrightarrow> manager_step Q m t \<Longrightarrow> reachable Q m0 t"

inductive_cases manager_stepE: "manager_step Q m t"

section \<open>The two lock modes\<close>

text \<open>Between operations either nobody has the mutex, or some reader never gave it back.\<close>

definition leaked :: "'q manager \<Rightarrow> bool" where
  "leaked m \<longleftrightarrow> \<not> writer (mu m) \<and> readers (mu m) \<noteq> 0"

definition sys_inv :: "('q \<Rightarrow> ptr list) \<Rightarrow> 'q manager \<Rightarrow> bool" where
  "sys_inv contents m \<longleftrightarrow> manager_wf contents m \<and> (quiet m \<or> leaked m)"

lemma leaked_no_lock: "leaked m \<Longrightarrow> \<not> can_lock (mu m)"
  by (simp add: leaked_def can_lock_def)

lemma leaked_lock_op: "leaked m \<Longrightarrow> lock_op mu mu_update m = Blocked m"
  by (simp add: lock_op_def leaked_no_lock)

lemma leaked_with_lock: "leaked m \<Longrightarrow> with_lock mu mu_update body m = Blocked m"
  using mgr.with_lock_blocked leaked_no_lock by blast

section \<open>While a reader is leaked, an operation in one piece changes nothing but the mutex\<close>

lemma AddTask_leaked: "leaked m \<Longrightarrow> Manager_Tasks.AddTask Q t m = Blocked m"
  unfolding Manager_Tasks.AddTask_def by (rule leaked_with_lock)

lemma create_leaked: "leaked m \<Longrightarrow> StartTaskHandler Q env r m = Return ws t \<Longrightarrow> t = m"
  by (auto simp: StartTaskHandler_def create_task_def alloc_def leaked_def AddTask_leaked
      split: option.splits sum.splits if_splits)

lemma stop_leaked: "leaked m \<Longrightarrow> StopTaskHandler Q up ut taskID r m = Return ws t \<Longrightarrow> t = m"
  by (auto simp: StopTaskHandler_def leaked_lock_op split: if_splits)

lemma send_leaked: "leaked m \<Longrightarrow> SendWork Q env m = Blocked m"
  by (simp add: SendWork_def leaked_lock_op)

lemma cleanup_leaked: "leaked m \<Longrightarrow> CleanUpTasks order now m = Blocked m"
  unfolding CleanUpTasks_def by (rule leaked_with_lock)

lemma health_leaked: "leaked m \<Longrightarrow> HealthCheckWorkers rs m = Return () t \<Longrightarrow> t = m"
  by (cases rs)
    (auto simp: HealthCheckWorkers_def health_result_def MarkWorkerDown_def MarkWorkerUp_def
      leaked_with_lock split: prod.splits health_reply.splits)

lemma worker_update_leaked: "leaked m \<Longrightarrow> worker_update w reply m = Return e t \<Longrightarrow> t = m"
  by (auto simp: worker_update_def leaked_lock_op split: tasks_reply.splits if_splits sum.splits)

lemma gather_leaked: "leaked m \<Longrightarrow> gather replies m = Return e t \<Longrightarrow> t = m"
proof (induction replies arbitrary: e)
  case (Cons r replies)
  obtain work reply where r: "r = (work, reply)" by (cases r)
  from Cons.prems(2) obtain e1 u e2 where u: "worker_update work reply m = Return e1 u"
      "gather replies u = Return e2 t"
    by (auto simp: r andthen_Return_iff)
  show ?case using Cons.IH [OF Cons.prems(1)] worker_update_leaked [OF Cons.prems(1) u(1)] u(2) by simp
qed simp

lemma rlock_runlock:
  assumes "rlock_op mu mu_update m = Return () t"
  shows "runlock_op mu mu_update t = Return () m"
  using assms by (auto simp: rlock_op_def runlock_op_def comp_def split: if_splits)

lemma update_leaked: "leaked m \<Longrightarrow> updateTasks replies m = Return e t \<Longrightarrow> t = m"
  by (auto simp: updateTasks_def andthen_Return_iff rlock_runlock dest: gather_leaked)

text \<open>The listing does not change the manager when it returns, whatever the mode.\<close>

lemma list_unchanged: "GetTasksHandler r m = Return ws t \<Longrightarrow> t = m"
proof -
  assume run: "GetTasksHandler r m = Return ws t"
  show "t = m"
  proof (cases "parsePaginationParams r")
    case (Inl err)
    with run show ?thesis by (simp add: GetTasksHandler_def)
  next
    case (Inr pl)
    with run show ?thesis
      by (auto simp: GetTasksHandler_def Let_def andthen_Return_iff rlock_runlock
          split: prod.splits if_splits option.splits)
  qed
qed

text \<open>When it panics it leaves the manager with one reader more.\<close>

lemma list_panic_leaks:
  assumes "GetTasksHandler r m = Panic p t"
  shows "t = mu_update (\<lambda>x. x\<lparr>readers := Suc (readers x)\<rparr>) m" and "can_rlock (mu m)"
proof -
  obtain page limit where pl: "parsePaginationParams r = Inr (page, limit)"
    using assms by (auto simp: GetTasksHandler_def split: sum.splits)
  show "can_rlock (mu m)"
    using assms pl by (auto simp: GetTasksHandler_def rlock_op_def split: if_splits)
  then show "t = mu_update (\<lambda>x. x\<lparr>readers := Suc (readers x)\<rparr>) m"
    using assms pl
    by (auto simp: GetTasksHandler_def rlock_op_def runlock_op_def Let_def split: if_splits option.splits)
qed

lemma leaked_step:
  assumes "leaked m" and "manager_step Q m t"
  shows "leaked t \<and> (\<exists>f. t = mu_update f m)"
proof -
  have same: "\<exists>f. m = mu_update f m" by (rule exI [of _ "\<lambda>x. x"]) simp
  from assms(2) show ?thesis
  proof (cases rule: manager_step.cases)
    case (create env r ws)
    then show ?thesis using create_leaked assms(1) same by blast
  next
    case (list_page r ws)
    then show ?thesis using list_unchanged assms(1) same by blast
  next
    case (list_panic r p)
    then show ?thesis using list_panic_leaks(1) [OF list_panic] assms(1) by (auto simp: leaked_def)
  next
    case (stop up ut taskID r ws)
    then show ?thesis using stop_leaked assms(1) same by blast
  next
    case (send env)
    then show ?thesis using send_leaked [OF assms(1)] by simp
  next
    case (update replies e)
    then show ?thesis using update_leaked assms(1) same by blast
  next
    case (cleanup order now)
    then show ?thesis using cleanup_leaked [OF assms(1)] by simp
  next
    case (health results)
    then show ?thesis using health_leaked assms(1) same by blast
  next
    case wait
    then show ?thesis using assms(1) by (auto simp: leaked_def)
  qed
qed

section \<open>With the mutex free, every operation keeps the manager well formed\<close>

lemma for_each_merge_no_null:
  "manager_wf contents m \<Longrightarrow> for_each (merge_task work) ts m = Return () t \<Longrightarrow> no_nil ts"
proof (induction ts arbitrary: m)
  case (Cons x ts)
  show ?case
  proof (cases x)
    case None
    with Cons.prems show ?thesis by (simp add: merge_task_def)
  next
    case (Some wt)
    with Cons.prems have "for_each (merge_task work) ts (merged work wt m) = Return () t"
      using merge_task_merged [OF manager_wfD(1)] by fastforce
    then have "no_nil ts" using Cons.IH [OF merged_wf [OF Cons.prems(1)]] by blast
    with Some show ?thesis by (simp add: no_nil_def)
  qed
qed (simp add: no_nil_def)

lemma worker_update_Return:
  assumes wf: "manager_wf contents m" and q: "quiet m" and run: "worker_update work reply m = Return e t"
  shows "t = apply_reply (work, reply) m"
proof (cases "no_null_entry reply")
  case True
  then show ?thesis using worker_update_quiet [OF wf q True, of work] run by auto
next
  case False
  then obtain code ts where r: "reply = Response code (Inr ts)" "\<not> no_nil ts"
    by (cases reply rule: no_null_entry.cases) auto
  show ?thesis
  proof (cases "code = 200")
    case True
    have "manager_wf contents (mu_update (\<lambda>x. x\<lparr>writer := True\<rparr>) m)" using wf by simp
    then have "\<nexists>u. for_each (merge_task work) ts (mu_update (\<lambda>x. x\<lparr>writer := True\<rparr>) m) = Return () u"
      using for_each_merge_no_null r(2) by blast
    with True r run q show ?thesis
      by (auto simp: worker_update_def lock_op_def andthen_Return_iff)
  next
    case False
    with r run show ?thesis by (simp add: worker_update_def apply_reply_def)
  qed
qed

lemma gather_Return:
  "manager_wf contents m \<Longrightarrow> quiet m \<Longrightarrow> gather replies m = Return e t \<Longrightarrow> t = fold apply_reply replies m"
proof (induction replies arbitrary: m e)
  case (Cons r replies)
  obtain work reply where r: "r = (work, reply)" by (cases r)
  from Cons.prems(3) obtain e1 u e2 where u: "worker_update work reply m = Return e1 u"
      "gather replies u = Return e2 t"
    by (auto simp: r andthen_Return_iff)
  have "u = apply_reply r m" using worker_update_Return [OF Cons.prems(1,2) u(1)] r by simp
  then show ?case
    using Cons.IH [OF apply_reply_wf [OF Cons.prems(1), of r] _] u(2) Cons.prems(2)
    by (simp add: quiet_def)
qed simp

lemma updateTasks_Return:
  assumes "manager_wf contents m" and "quiet m" and "updateTasks replies m = Return e t"
  shows "t = fold apply_reply replies m"
  using assms gather_Return [of contents m replies e t]
  by (auto simp: updateTasks_def andthen_Return_iff rlock_runlock)

lemma fold_apply_reply_mu [simp]: "mu (fold apply_reply replies m) = mu m"
  by (induction replies arbitrary: m) simp_all

lemma alloc_wf:
  assumes wf: "manager_wf contents m"
  shows "manager_wf contents (m\<lparr>store := snd (alloc t (store m))\<rparr>)"
proof -
  let ?m = "m\<lparr>store := snd (alloc t (store m))\<rparr>"
  note D = manager_wfD [OF wf]
  have keep: "task_at ?m p = task_at m p" if "p < fresh (store m)" for p
    using that by (simp add: task_at_def alloc_def)
  have "ID (task_at ?m p) = ID (task_at m p)" if "Some p \<in> set (SortedTasks m)" for p
    using keep [OF D(2) [OF that]] by simp
  then have ids: "listed_ids ?m = listed_ids m"
    unfolding listed_ids_def by (metis (no_types, lifting) manager.select_convs(4) manager.surjective manager.update_convs(1))
  have fr: "fresh (store ?m) = Suc (fresh (store m))" by (simp add: alloc_def)
  show ?thesis
    unfolding manager_wf_def ids fr using D keep by (auto simp: less_Suc_eq)
qed

definition created :: "'q queue_api \<Rightarrow> task \<Rightarrow> 'q manager \<Rightarrow> 'q manager" where
  "created Q t m = added Q (fresh (store m)) (m\<lparr>store := snd (alloc t (store m))\<rparr>)"

lemma create_task_quiet:
  assumes "quiet m" and "no_nil (SortedTasks m)"
  shows "create_task Q t m = Return (fresh (store m)) (created Q t m)"
proof -
  have "AddTask Q (fresh (store m)) (m\<lparr>store := snd (alloc t (store m))\<rparr>) = Return () (created Q t m)"
    unfolding created_def by (rule AddTask_quiet) (use assms in \<open>simp_all add: quiet_def\<close>)
  then show ?thesis by (simp add: create_task_def alloc_def)
qed

lemma created_wf:
  assumes "manager_wf contents m" and "fifo Q contents"
  shows "manager_wf contents (created Q t m)"
  unfolding created_def
  by (rule added_wf [OF alloc_wf [OF assms(1)] assms(2)]) (simp add: alloc_def)

lemma created_mu [simp]: "mu (created Q t m) = mu m"
  by (simp add: created_def)

lemma create_Return:
  assumes "manager_wf contents m" and "quiet m" and "StartTaskHandler Q env r m = Return ws t"
  shows "t = m \<or> (\<exists>x. t = created Q x m \<and> State x = Pending \<and> ID x = gen_id env)"
  using assms(3) create_task_quiet [OF assms(2) manager_wfD(1) [OF assms(1)]]
  by (auto simp: StartTaskHandler_def Let_def split: option.splits if_splits sum.splits)

definition stopped :: "'q queue_api \<Rightarrow> ptr \<Rightarrow> 'q manager \<Rightarrow> 'q manager" where
  "stopped Q p m = added Q p (m\<lparr>store := write_cell p (\<lambda>t. t\<lparr>State := Completed\<rparr>) (store m)\<rparr>)"

lemma StopTaskHandler_quiet:
  assumes q: "quiet m" and nn: "no_nil (SortedTasks m)" and "taskID \<noteq> []"
    and "uuid_parse taskID = Inr u" and "TaskDb m u = Some p"
  shows "StopTaskHandler Q uuid_parse uuid_text taskID r m =
    Return (writeSuccessResponse 204
      (Message (''Successfully stopped Task '' @ uuid_text (ID (task_at m p))))) (stopped Q p m)"
proof -
  let ?m = "m\<lparr>store := write_cell p (\<lambda>t. t\<lparr>State := Completed\<rparr>) (store m)\<rparr>"
  have restore: "mu_update (\<lambda>x. x\<lparr>writer := False\<rparr>) ?m = ?m"
    by (rule mgr.upd_same) (use q in \<open>simp add: quiet_def mutex_free_def\<close>)
  have add: "AddTask Q p ?m = Return () (stopped Q p m)"
    unfolding stopped_def by (rule AddTask_quiet) (use q nn in \<open>simp_all add: quiet_def\<close>)
  have id: "ID (task_at (stopped Q p m) p) = ID (task_at m p)"
    by (simp add: stopped_def) (simp add: task_at_def)
  show ?thesis
    using assms restore add id
    by (simp add: StopTaskHandler_def lock_op_def unlock_op_def Let_def mgr.upd_upd comp_def)
qed

lemma lock_unlock_same: "quiet m \<Longrightarrow> mu_update (\<lambda>x. x\<lparr>writer := False\<rparr>) m = m"
  by (rule mgr.upd_same) (simp add: quiet_def mutex_free_def)

lemma StopTaskHandler_refused:
  assumes "quiet m" and "taskID = [] \<or> (\<exists>e. uuid_parse taskID = Inl e)
      \<or> (\<exists>u. uuid_parse taskID = Inr u \<and> TaskDb m u = None)"
  shows "\<exists>ws. StopTaskHandler Q uuid_parse uuid_text taskID r m = Return ws m \<and> status_of ws = 400"
  using assms lock_unlock_same [OF assms(1)]
  by (auto simp: StopTaskHandler_def lock_op_def unlock_op_def mgr.upd_upd comp_def)

lemma stopped_wf:
  assumes wf: "manager_wf contents m" and fifo: "fifo Q contents" and "TaskDb m u = Some p"
  shows "manager_wf contents (stopped Q p m)"
  unfolding stopped_def
  by (rule added_wf [OF write_wf [OF wf] fifo])
    (use manager_wfD(5) [OF wf assms(3)] in \<open>simp_all add: keeps_id_def\<close>)

lemma stop_Return:
  assumes "manager_wf contents m" and "quiet m" and "StopTaskHandler Q up ut taskID r m = Return ws t"
  shows "t = m \<or> (\<exists>u p. TaskDb m u = Some p \<and> t = stopped Q p m)"
proof (cases "taskID = [] \<or> (\<exists>e. up taskID = Inl e) \<or> (\<exists>u. up taskID = Inr u \<and> TaskDb m u = None)")
  case True
  have "\<exists>ws. StopTaskHandler Q up ut taskID r m = Return ws m \<and> status_of ws = 400"
    using assms(2) True
    by (rule StopTaskHandler_refused [where m = m and taskID = taskID and uuid_parse = up])
  then show ?thesis using assms(3) by auto
next
  case False
  then obtain u where "up taskID = Inr u" by (cases "up taskID") auto
  moreover with False obtain p where "TaskDb m u = Some p" by auto
  ultimately show ?thesis
    using StopTaskHandler_quiet [OF assms(2) manager_wfD(1) [OF assms(1)], of taskID up u p Q ut r] False assms(3)
    by auto
qed

lemma sent_mu [simp]: "mu (sent Q env t m) = mu m"
  by (simp add: sent_def Let_def split: sending.split)

lemma send_Return:
  assumes wf: "manager_wf contents m" and q: "quiet m" and fifo: "fifo Q contents"
    and run: "SendWork Q env m = Return () t"
  shows "manager_wf contents t \<and> mu t = mu m"
proof (cases "contents (PendingTasks m)")
  case Nil
  then show ?thesis using SendWork_empty [OF q fifo Nil] run wf by simp
next
  case (Cons p ps)
  obtain q' where q': "contents q' = ps"
      "SendWork Q env m =
        (let m = m\<lparr>PendingTasks := q'\<rparr>
         in case sending_of env p m of Crashed w \<Rightarrow> Panic NilDeref (sent Q env p m)
            | _ \<Rightarrow> Return () (sent Q env p m))"
    using q manager_wfD(1) [OF wf] fifo Cons by (rule SendWork_cons)
  then have t: "t = sent Q env p (m\<lparr>PendingTasks := q'\<rparr>)"
    using run by (auto simp: Let_def split: sending.splits)
  have wf': "manager_wf contents (m\<lparr>PendingTasks := q'\<rparr>)" using dequeued_wf [OF wf Cons q'(1)] .
  have p: "p < fresh (store m)" "ID (task_at m p) \<in> listed_ids m"
    using manager_wfD(3,4) [OF wf, of p] Cons by auto
  have "manager_wf contents (sent Q env p (m\<lparr>PendingTasks := q'\<rparr>))"
    by (rule sent_wf [OF wf' fifo]) (use p in \<open>simp_all add: listed_ids_def task_at_def\<close>)
  then show ?thesis by (simp add: t)
qed

lemma health_fold_wf:
  "manager_wf contents m \<Longrightarrow> manager_wf contents (fold health_update rs m)"
proof (induction rs arbitrary: m)
  case (Cons r rs)
  have "manager_wf contents (health_update r m)"
    using Cons.prems
    by (auto simp: health_update_def manager_wf_def listed_ids_def task_at_def split: prod.split health_reply.split)
  then show ?case using Cons.IH by simp
qed simp

lemma quiet_step:
  assumes wf: "manager_wf contents m" and q: "quiet m" and fifo: "fifo Q contents"
    and step: "manager_step Q m t"
  shows "sys_inv contents t"
  using step
proof (cases rule: manager_step.cases)
  case (create env r ws)
  then show ?thesis using create_Return [OF wf q create] wf q created_wf [OF wf fifo]
    by (auto simp: sys_inv_def quiet_def)
next
  case (list_page r ws)
  then show ?thesis using list_unchanged wf q by (auto simp: sys_inv_def)
next
  case (list_panic r p)
  then show ?thesis using list_panic_leaks(1) [OF list_panic] wf q
    by (auto simp: sys_inv_def leaked_def quiet_def mutex_free_def)
next
  case (stop up ut taskID r ws)
  then show ?thesis using stop_Return [OF wf q stop] wf q stopped_wf [OF wf fifo]
    by (auto simp: sys_inv_def quiet_def stopped_def)
next
  case (send env)
  then show ?thesis using send_Return [OF wf q fifo send] q by (auto simp: sys_inv_def quiet_def)
next
  case (update replies e)
  then show ?thesis using updateTasks_Return [OF wf q update] wf q apply_replies_wf [OF wf]
    by (auto simp: sys_inv_def quiet_def)
next
  case (cleanup order now)
  then show ?thesis using CleanUpTasks_quiet [OF q, of order now] cleanup_fold_wf [OF wf] q
    by (auto simp: sys_inv_def quiet_def)
next
  case (health results)
  then show ?thesis using HealthCheckWorkers_Return [OF q health] health_fold_wf [OF wf] q
    by (auto simp: sys_inv_def quiet_def)
next
  case wait
  then show ?thesis using q by simp
qed

lemma sys_inv_step:
  assumes "sys_inv contents m" and "fifo Q contents" and "manager_step Q m t"
  shows "sys_inv contents t"
proof (cases "quiet m")
  case True
  then show ?thesis using quiet_step assms by (auto simp: sys_inv_def)
next
  case False
  with assms(1) have "leaked m" "manager_wf contents m" by (auto simp: sys_inv_def)
  then show ?thesis using leaked_step assms(3) by (fastforce simp: sys_inv_def)
qed

lemma reachable_sys_inv:
  assumes "reachable Q m0 m" and "sys_inv contents m0" and "fifo Q contents"
  shows "sys_inv contents m"
  using assms by (induction rule: reachable.induct) (auto intro: sys_inv_step)

lemma reachable_leaked:
  assumes "reachable Q m0 m" and "leaked m0"
  shows "leaked m \<and> (\<exists>f. m = mu_update f m0)"
  using assms
proof (induction rule: reachable.induct)
  case start
  then show ?case by (metis mu_update_id)
next
  case (step m t)
  then obtain f where "leaked m" "m = mu_update f m0" by blast
  with leaked_step [OF _ step.hyps(2)] obtain g where "leaked t" "t = mu_update g (mu_update f m0)" by blast
  then show ?case unfolding mgr.upd_upd by blast
qed

lemma sample_two_listing: "SortedTasks sample_two = [Some 0, Some 1]"
  by (simp add: sample_two_def)

section \<open>Properties\<close>

text \<open>
  From \<open>New\<close> on, however API requests, the send loop, the update loop, the clean-up and the
  health checks follow one another and whatever the network answers, the manager's containers
  stay consistent: no slot of the listing is nil, every pointer is a live task, the database maps
  an identifier to a task that has it, every known or pending task is listed, and an assigned
  task is on its worker's list. Between operations either nobody holds the mutex or a reader that
  has died does.
\<close>

theorem manager_always_wf:
  assumes "fifo Q contents" and "reachable Q (New Q workers now) m"
  shows "manager_wf contents m \<and> (quiet m \<or> leaked m)"
proof -
  have "sys_inv contents (New Q workers now)"
    by (simp add: sys_inv_def New_wf [OF assms(1)] New_quiet)
  from reachable_sys_inv [OF assms(2) this assms(1)] show ?thesis by (simp add: sys_inv_def)
qed

theorem manager_always_wf_witness:
  "let m = MarkWorkerUp_body ''w1'' (New list_queue [''w1''] 0)
   in reachable list_queue (New list_queue [''w1''] 0) m \<and> manager_wf (\<lambda>q. q) m \<and> (quiet m \<or> leaked m)"
proof -
  let ?start = "New list_queue [''w1''] 0"
  have "HealthCheckWorkers [(''w1'', Answered)] ?start = Return () (MarkWorkerUp_body ''w1'' ?start)"
    using HealthCheckWorkers_quiet [OF New_quiet, of "[(''w1'', Answered)]"] by (simp add: health_update_def)
  then have "reachable list_queue ?start (MarkWorkerUp_body ''w1'' ?start)"
    by (intro reachable.step [OF reachable.start]) (rule manager_step.health)
  then show ?thesis using manager_always_wf [OF fifo_list_queue, of "[''w1'']" 0] by (simp add: Let_def)
qed

text \<open>
  C20: a POST whose body is not too large, decodes and passes the checks is answered with status 201
  and the event of the new task. Every field of the task is given: the requested name, image, disk,
  restart policy and port bindings, the requested memory in bytes, the generated identifier, the
  request's correlation identifier, the state Pending, the time of the request, three retries,
  and nothing else. The task is at the end of the queue, in the database and in the listing.
\<close>

theorem StartTaskHandler_creates:
  assumes wf: "manager_wf contents m" and q: "quiet m" and fifo: "fifo Q contents"
    and r: "r_correlation r = Some cid" "length (body_bytes env) \<le> maxBodyBytes"
    and req: "unmarshal env (body_bytes env) = Inr req" "validate req = Inr b"
  shows "\<exists>m' p. StartTaskHandler Q env r m = Return (writeSuccessResponse 201 (EventJson
        \<lparr>ev_ID = gen_id env, ev_State = Pending, ev_Timestamp = clock env, ev_Task = task_at m' p\<rparr>)) m'
    \<and> quiet m' \<and> manager_wf contents m' \<and> TaskDb m' = (TaskDb m)(gen_id env \<mapsto> p)
    \<and> contents (PendingTasks m') = contents (PendingTasks m) @ [p] \<and> gen_id env \<in> listed_ids m'
    \<and> task_at m' p =
        \<lparr>ID = gen_id env, ContainerID = [], CorrelationID = cid, Name = req_Name req, State = Pending,
         Image = req_Image req, Memory = b, Disk = req_Disk req, ExposedPortSet = {}, HostPorts = (\<lambda>_. None),
         PortBindings = req_PortBindings req, RestartPolicy = req_RestartPolicy req,
         StartTime = clock env, EndTime = 0, HealthCheck = [], RetryCount = 0, MaxRetryCount = 3\<rparr>"
proof -
  let ?t = "fullTask env cid req b" and ?p = "fresh (store m)"
  let ?start = "m\<lparr>store := snd (alloc ?t (store m))\<rparr>"
  let ?m = "created Q ?t m"
  have cell0: "task_at ?start ?p = ?t" by (simp add: task_at_def alloc_def)
  have cell: "task_at ?m ?p = ?t" unfolding created_def added_simps by (rule cell0)
  have whole: "task_at ?m ?p =
      \<lparr>ID = gen_id env, ContainerID = [], CorrelationID = cid, Name = req_Name req, State = Pending,
       Image = req_Image req, Memory = b, Disk = req_Disk req, ExposedPortSet = {}, HostPorts = (\<lambda>_. None),
       PortBindings = req_PortBindings req, RestartPolicy = req_RestartPolicy req,
       StartTime = clock env, EndTime = 0, HealthCheck = [], RetryCount = 0, MaxRetryCount = 3\<rparr>"
    unfolding cell by (simp add: fullTask_def zero_task_def)
  have nn: "no_nil (SortedTasks ?start)" using manager_wfD(1) [OF wf] by simp
  have id: "ID (task_at ?start ?p) = gen_id env" unfolding cell0 by simp
  have run: "StartTaskHandler Q env r m = Return (writeSuccessResponse 201 (EventJson
      \<lparr>ev_ID = gen_id env, ev_State = Pending, ev_Timestamp = clock env, ev_Task = task_at ?m ?p\<rparr>)) ?m"
    using r req create_task_quiet [OF q manager_wfD(1) [OF wf], of Q ?t]
    by (simp add: StartTaskHandler_def Let_def)
  have db: "TaskDb ?m = (TaskDb m)(gen_id env \<mapsto> ?p)"
    unfolding created_def added_simps id by simp
  have queue: "contents (PendingTasks ?m) = contents (PendingTasks m) @ [?p]"
    by (simp add: created_def fifo_Enqueue [OF fifo])
  have listed: "gen_id env \<in> listed_ids ?m"
    unfolding created_def listed_ids_added [OF nn] id by simp
  have "quiet ?m" using q by (simp add: quiet_def)
  with run db queue listed created_wf [OF wf fifo, of ?t] show ?thesis
    by (intro exI [of _ ?m] exI [of _ ?p]) (simp add: whole)
qed

definition sample_env :: start_env where
  "sample_env = \<lparr>body_bytes = ''{}'', unmarshal = (\<lambda>_. Inr sample_request), gen_id = 5, clock = 50\<rparr>"

theorem StartTaskHandler_creates_witness:
  "\<exists>m' p ws. StartTaskHandler list_queue sample_env ((page_request 1 1)\<lparr>r_correlation := Some ''c''\<rparr>) sample_two
      = Return ws m' \<and> status_of ws = 201 \<and> TaskDb m' 5 = Some p \<and> PendingTasks m' = [0, p]"
proof -
  have "unmarshal sample_env (body_bytes sample_env) = Inr sample_request"
      "length (body_bytes sample_env) \<le> maxBodyBytes" "gen_id sample_env = 5"
    by (simp_all add: sample_env_def maxBodyBytes_def)
  moreover have "validate sample_request = Inr (64 * 1048576)"
    by (simp add: validate_def sample_request_def minMemoryBytes_def minMemoryMB_def)
  moreover have "PendingTasks sample_two = [0]" by (simp add: sample_two_def)
  ultimately show ?thesis
    using StartTaskHandler_creates [OF sample_two_ok fifo_list_queue,
        of "(page_request 1 1)\<lparr>r_correlation := Some ''c''\<rparr>" "''c''" sample_env sample_request]
    by fastforce
qed

text \<open>
  C21: a DELETE of a task the database knows marks the task Completed and puts it at the end of the
  queue again; the answer has status 204. An empty or malformed identifier and one the database
  does not know are answered with status 400 and change nothing.
\<close>

theorem StopTaskHandler_correct:
  assumes wf: "manager_wf contents m" and q: "quiet m" and fifo: "fifo Q contents"
  shows "(taskID \<noteq> [] \<and> uuid_parse taskID = Inr u \<and> TaskDb m u = Some p \<longrightarrow>
      (\<exists>ws m'. StopTaskHandler Q uuid_parse uuid_text taskID r m = Return ws m' \<and> status_of ws = 204
        \<and> quiet m' \<and> manager_wf contents m' \<and> State (task_at m' p) = Completed
        \<and> contents (PendingTasks m') = contents (PendingTasks m) @ [p] \<and> TaskDb m' = TaskDb m))
    \<and> (taskID = [] \<or> (\<exists>e. uuid_parse taskID = Inl e) \<or> (\<exists>v. uuid_parse taskID = Inr v \<and> TaskDb m v = None) \<longrightarrow>
      (\<exists>ws. StopTaskHandler Q uuid_parse uuid_text taskID r m = Return ws m \<and> status_of ws = 400))"
proof (intro conjI impI)
  assume a: "taskID \<noteq> [] \<and> uuid_parse taskID = Inr u \<and> TaskDb m u = Some p"
  let ?start = "m\<lparr>store := write_cell p (\<lambda>t. t\<lparr>State := Completed\<rparr>) (store m)\<rparr>"
  have c: "State (task_at (stopped Q p m) p) = Completed"
    unfolding stopped_def added_simps by (simp add: task_at_def)
  have "ID (task_at ?start p) = u" using manager_wfD(6) [OF wf, of u p] a by (simp add: task_at_def)
  then have db: "TaskDb (stopped Q p m) = TaskDb m"
    unfolding stopped_def added_simps using a by (simp add: fun_upd_idem)
  have "contents (PendingTasks (stopped Q p m)) = contents (PendingTasks m) @ [p]"
    by (simp add: stopped_def fifo_Enqueue [OF fifo])
  moreover have "quiet (stopped Q p m)" using q by (simp add: stopped_def quiet_def)
  ultimately show "\<exists>ws m'. StopTaskHandler Q uuid_parse uuid_text taskID r m = Return ws m' \<and> status_of ws = 204
      \<and> quiet m' \<and> manager_wf contents m' \<and> State (task_at m' p) = Completed
      \<and> contents (PendingTasks m') = contents (PendingTasks m) @ [p] \<and> TaskDb m' = TaskDb m"
    using StopTaskHandler_quiet [OF q manager_wfD(1) [OF wf], of taskID uuid_parse u p Q uuid_text r] a c db
      stopped_wf [OF wf fifo, of u p]
    by simp
next
  assume "taskID = [] \<or> (\<exists>e. uuid_parse taskID = Inl e) \<or> (\<exists>v. uuid_parse taskID = Inr v \<and> TaskDb m v = None)"
  with q show "\<exists>ws. StopTaskHandler Q uuid_parse uuid_text taskID r m = Return ws m \<and> status_of ws = 400"
    by (rule StopTaskHandler_refused [where m = m and taskID = taskID and uuid_parse = uuid_parse])
qed

theorem StopTaskHandler_correct_witness:
  "\<exists>ws m'. StopTaskHandler list_queue (\<lambda>_. Inr 2) (\<lambda>_. ''2'') ''2'' (page_request 1 1) sample_two = Return ws m'
    \<and> status_of ws = 204 \<and> State (task_at m' 1) = Completed \<and> PendingTasks m' = [0, 1]"
proof -
  have "TaskDb sample_two 2 = Some 1" "PendingTasks sample_two = [0]" by (simp_all add: sample_two_def)
  then show ?thesis
    using StopTaskHandler_correct [OF sample_two_ok fifo_list_queue, of "''2''" "\<lambda>_. Inr 2" 2 1 "\<lambda>_. ''2''" "page_request 1 1"]
    by fastforce
qed

end
