(* ===== verification/Stats.thy ===== *)
theory Stats
  imports Prelude
begin

text \<open>
  \<open>src/internal/worker/stats/stats.go\<close>: the figures a worker reads from \<open>/proc\<close> and what it derives
  from them. The readers are those of \<open>github.com/c9s/goprocinfo\<close>, which is not part of the
  repository: \<open>proc_files\<close> holds what each of them gives, \<open>None\<close> for an error. A \<open>float64\<close> is
  modelled as a real, without its rounding; a division by zero has no value.
\<close>

type_synonym uint64 = "64 word"

record mem_info =
  MemTotal :: uint64
  MemAvailable :: uint64

record disk_info =
  All :: uint64
  Used :: uint64
  Free :: uint64

record cpu_stat =
  User :: uint64
  Nice :: uint64
  System :: uint64
  Idle :: uint64
  IOWait :: uint64
  IRQ :: uint64
  SoftIRQ :: uint64

record load_avg =
  Last1Min :: real
  Last5Min :: real
  Last15Min :: real

text \<open>The four parts of \<open>Stats\<close> are pointers; the literal \<open>&Stats{}\<close> leaves them nil.\<close>

record stats =
  MemStats :: "mem_info option"
  DiskStats :: "disk_info option"
  CpuStats :: "cpu_stat option"
  LoadStats :: "load_avg option"
  TaskCount :: go_int

definition zero_stats :: stats where
  "zero_stats = \<lparr>MemStats = None, DiskStats = None, CpuStats = None, LoadStats = None, TaskCount = 0\<rparr>"

record proc_files =
  meminfo :: "mem_info option"
  root_disk :: "disk_info option"
  proc_stat :: "cpu_stat option"
  loadavg :: "load_avg option"

definition GetMemoryInfo :: "proc_files \<Rightarrow> mem_info" where
  "GetMemoryInfo p = (case meminfo p of None \<Rightarrow> \<lparr>MemTotal = 0, MemAvailable = 0\<rparr> | Some i \<Rightarrow> i)"

definition GetDiskInfo :: "proc_files \<Rightarrow> disk_info" where
  "GetDiskInfo p = (case root_disk p of None \<Rightarrow> \<lparr>All = 0, Used = 0, Free = 0\<rparr> | Some i \<Rightarrow> i)"

definition GetCpuStats :: "proc_files \<Rightarrow> cpu_stat" where
  "GetCpuStats p =
     (case proc_stat p of
        None \<Rightarrow> \<lparr>User = 0, Nice = 0, System = 0, Idle = 0, IOWait = 0, IRQ = 0, SoftIRQ = 0\<rparr>
      | Some i \<Rightarrow> i)"

definition GetLoadAvg :: "proc_files \<Rightarrow> load_avg" where
  "GetLoadAvg p =
     (case loadavg p of None \<Rightarrow> \<lparr>Last1Min = 0, Last5Min = 0, Last15Min = 0\<rparr> | Some i \<Rightarrow> i)"

text \<open>\<open>TaskCount\<close> is not mentioned in the literal, so it is 0.\<close>

definition GetStats :: "proc_files \<Rightarrow> stats" where
  "GetStats p =
     \<lparr>MemStats = Some (GetMemoryInfo p), DiskStats = Some (GetDiskInfo p),
      CpuStats = Some (GetCpuStats p), LoadStats = Some (GetLoadAvg p), TaskCount = 0\<rparr>"

text \<open>Reading a field through one of the pointers panics when it is nil.\<close>

definition through :: "'a option \<Rightarrow> ('a \<Rightarrow> 'b) \<Rightarrow> panic + 'b" where
  "through p f = (case p of None \<Rightarrow> Inl NilDeref | Some x \<Rightarrow> Inr (f x))"

definition MemInfoKb :: "stats \<Rightarrow> panic + uint64" where
  "MemInfoKb s = through (MemStats s) MemTotal"

definition MemAvailableKb :: "stats \<Rightarrow> panic + uint64" where
  "MemAvailableKb s = through (MemStats s) MemAvailable"

definition MemoryUsedKb :: "stats \<Rightarrow> panic + uint64" where
  "MemoryUsedKb s = through (MemStats s) (\<lambda>i. MemTotal i - MemAvailable i)"

definition float64 :: "uint64 \<Rightarrow> real" where
  "float64 w = real (unat w)"

text \<open>\<open>a / b\<close>; \<open>None\<close> stands for the infinity or the NaN of a division by zero.\<close>

definition float_div :: "real \<Rightarrow> real \<Rightarrow> real option" where
  "float_div a b = (if b = 0 then None else Some (a / b))"

definition MemoryPercentUsed :: "stats \<Rightarrow> panic + real option" where
  "MemoryPercentUsed s =
     (case MemoryUsedKb s of Inl p \<Rightarrow> Inl p
      | Inr used \<Rightarrow> (case MemInfoKb s of Inl p \<Rightarrow> Inl p
      | Inr of_kb \<Rightarrow> Inr (map_option (\<lambda>q. q * 100) (float_div (float64 used) (float64 of_kb)))))"

definition DiskTotalKb :: "stats \<Rightarrow> panic + uint64" where
  "DiskTotalKb s = through (DiskStats s) All"

definition DiskFreeKb :: "stats \<Rightarrow> panic + uint64" where
  "DiskFreeKb s = through (DiskStats s) Free"

definition DiskUsedKb :: "stats \<Rightarrow> panic + uint64" where
  "DiskUsedKb s = through (DiskStats s) Used"

definition idle_time :: "cpu_stat \<Rightarrow> uint64" where
  "idle_time c = Idle c + IOWait c"

definition busy_time :: "cpu_stat \<Rightarrow> uint64" where
  "busy_time c = User c + Nice c + System c + IRQ c + SoftIRQ c"

definition CpuUsage :: "stats \<Rightarrow> panic + real option" where
  "CpuUsage s = through (CpuStats s) (\<lambda>c.
     let idle = idle_time c;
         busy = busy_time c;
         total = idle + busy
     in if total = 0 then Some 0 else float_div (float64 total - float64 idle) (float64 total))"

section \<open>Ranges\<close>

lemma float64_nonneg [simp]: "0 \<le> float64 w"
  unfolding float64_def by (rule of_nat_0_le_iff)

lemma float64_eq_0 [simp]: "float64 w = 0 \<longleftrightarrow> w = 0"
  unfolding float64_def by (simp only: of_nat_eq_0_iff unat_eq_zero)

lemma float64_add: "unat a + unat b < 2 ^ 64 \<Longrightarrow> float64 (a + b) = float64 a + float64 b"
  by (simp add: float64_def unat_word_ariths)

lemma float64_sub: "b \<le> a \<Longrightarrow> float64 (a - b) = float64 a - float64 b"
  by (simp add: float64_def unat_sub_if' word_le_nat_alt of_nat_diff)

lemma share_range:
  fixes x y :: real
  assumes "0 \<le> x" and "0 \<le> y"
  shows "0 \<le> x / (y + x)" and "x / (y + x) \<le> 1"
  using assms by (simp_all add: divide_le_eq)

text \<open>The share of busy time, when the counters do not overflow.\<close>

lemma CpuUsage_share:
  assumes "CpuStats s = Some c" and "unat (idle_time c) + unat (busy_time c) < 2 ^ 64"
    and "idle_time c + busy_time c \<noteq> 0"
  shows "CpuUsage s = Inr (Some (float64 (busy_time c) / (float64 (idle_time c) + float64 (busy_time c))))"
  using assms float64_add [OF assms(2)] float64_eq_0 [of "idle_time c + busy_time c"]
  by (simp add: CpuUsage_def through_def Let_def float_div_def)

text \<open>
  The percentage of used memory is the true one, a number between 0 and 100, when the total is
  not zero and the available memory does not exceed it: the unsigned subtraction does not wrap.
\<close>

lemma memory_percent_range:
  assumes "MemStats s = Some i" and "MemTotal i \<noteq> 0" and "MemAvailable i \<le> MemTotal i"
  shows "\<exists>q. MemoryPercentUsed s = Inr (Some q) \<and> 0 \<le> q \<and> q \<le> 100
    \<and> q * float64 (MemTotal i) = 100 * (float64 (MemTotal i) - float64 (MemAvailable i))"
proof -
  let ?t = "float64 (MemTotal i)" and ?a = "float64 (MemAvailable i)"
  have t: "0 < ?t" using assms(2) float64_nonneg [of "MemTotal i"] float64_eq_0 [of "MemTotal i"] by linarith
  have a: "0 \<le> ?a" "?a \<le> ?t"
    using assms(3) by (simp, simp only: float64_def of_nat_le_iff word_le_nat_alt)
  have "MemoryPercentUsed s = Inr (Some ((?t - ?a) / ?t * 100))"
    using assms t float64_sub [OF assms(3)]
    by (simp add: MemoryPercentUsed_def MemoryUsedKb_def MemInfoKb_def through_def float_div_def)
  then show ?thesis using t a assms(2) by (simp add: divide_le_eq)
qed

section \<open>Properties\<close>

text \<open>
  The figures of a fresh reading of \<open>/proc\<close> can be computed: the CPU usage is a number between
  0 and 1 when the sum of the counters does not overflow, and no pointer is nil, whatever of the
  files could not be read.
\<close>

theorem cpu_usage_range:
  assumes "unat (idle_time (GetCpuStats p)) + unat (busy_time (GetCpuStats p)) < 2 ^ 64"
  shows "\<exists>u. CpuUsage (GetStats p) = Inr (Some u) \<and> 0 \<le> u \<and> u \<le> 1"
proof (cases "idle_time (GetCpuStats p) + busy_time (GetCpuStats p) = 0")
  case True
  then show ?thesis by (simp add: CpuUsage_def GetStats_def through_def Let_def)
next
  case False
  have "CpuStats (GetStats p) = Some (GetCpuStats p)" by (simp add: GetStats_def)
  from CpuUsage_share [OF this assms False] show ?thesis by (simp add: share_range)
qed

definition sample_proc :: proc_files where
  "sample_proc =
     \<lparr>meminfo = None, root_disk = None,
      proc_stat = Some \<lparr>User = 10, Nice = 0, System = 5, Idle = 80, IOWait = 4, IRQ = 1, SoftIRQ = 0\<rparr>,
      loadavg = None\<rparr>"

theorem cpu_usage_range_witness:
  "\<exists>u. CpuUsage (GetStats sample_proc) = Inr (Some u) \<and> 0 \<le> u \<and> u \<le> 1"
  by (rule cpu_usage_range) (simp add: sample_proc_def GetCpuStats_def idle_time_def busy_time_def)

end
