(* ===== verification/Utf8.thy ===== *)
theory Utf8
  imports Go_Strings "HOL-Library.Sublist"
begin

text \<open>
  UTF-8 as Go's \<open>unicode/utf8\<close> reads it, and \<open>strings.ToValidUTF8(s, "")\<close>, which drops every byte that
  does not belong to a well-formed sequence. The log stream of a container goes through it.
\<close>

definition cont :: "nat \<Rightarrow> bool" where
  "cont b \<longleftrightarrow> 128 \<le> b \<and> b \<le> 191"

text \<open>
  What the first byte of a sequence says: the width (0 when no sequence starts with it) and the
  range of the second byte.
\<close>

definition lead :: "nat \<Rightarrow> nat \<times> nat \<times> nat" where
  "lead a =
     (if a < 128 then (1, 0, 0)
      else if 194 \<le> a \<and> a \<le> 223 then (2, 128, 191)
      else if a = 224 then (3, 160, 191)
      else if a = 237 then (3, 128, 159)
      else if 225 \<le> a \<and> a \<le> 239 then (3, 128, 191)
      else if a = 240 then (4, 144, 191)
      else if 241 \<le> a \<and> a \<le> 243 then (4, 128, 191)
      else if a = 244 then (4, 128, 143)
      else (0, 0, 0))"

text \<open>The width of the well-formed sequence the bytes start with, 0 when there is none.\<close>

definition rune_width :: "string \<Rightarrow> nat" where
  "rune_width s =
     (if s = [] then 0
      else (case lead (byte_at s 0) of
              (n, lo, hi) \<Rightarrow>
                if (2 \<le> n \<longrightarrow> lo \<le> byte_at s 1 \<and> byte_at s 1 \<le> hi)
                 \<and> (3 \<le> n \<longrightarrow> cont (byte_at s 2)) \<and> (4 \<le> n \<longrightarrow> cont (byte_at s 3))
                then n else 0))"

lemma lead_range:
  assumes "lead a = (n, lo, hi)"
  shows "n \<le> 4" and "2 \<le> n \<Longrightarrow> 128 \<le> lo"
  using assms by (auto simp: lead_def split: if_splits)

lemma byte_at_0: "length s \<le> i \<Longrightarrow> byte_at s i = 0"
  by (simp add: byte_at_def)

lemma byte_at_append: "i < length s \<Longrightarrow> byte_at (s @ t) i = byte_at s i"
  by (simp add: byte_at_def nth_append)

lemma byte_at_inside: "byte_at s i \<noteq> 0 \<Longrightarrow> i < length s"
  by (auto simp: byte_at_def split: if_splits)

lemma cont_inside: "cont (byte_at s i) \<Longrightarrow> i < length s"
  by (rule byte_at_inside) (auto simp: cont_def)

lemma rune_width_le: "rune_width s \<le> length s"
proof (cases "s = []")
  case False
  obtain n lo hi where l: "lead (byte_at s 0) = (n, lo, hi)" by (metis prod_cases3)
  have "n = 0 \<or> n = 1 \<or> n = 2 \<or> n = 3 \<or> n = 4" using lead_range(1) [OF l] by auto
  then show ?thesis
    using False l lead_range(2) [OF l] cont_inside [of s 2] cont_inside [of s 3] byte_at_inside [of s 1]
    by (auto simp: rune_width_def Suc_le_eq)
qed (simp add: rune_width_def)

text \<open>The width is decided by the bytes of the sequence alone.\<close>

lemma rune_width_take:
  assumes w: "rune_width s = w" and pos: "0 < w"
  shows "rune_width (take w s @ t) = w"
proof -
  have len: "w \<le> length s" using w rune_width_le by blast
  have same: "byte_at (take w s @ t) i = byte_at s i" if "i < w" for i
    using that len by (simp add: byte_at_def nth_append)
  have n: "take w s @ t \<noteq> []" "s \<noteq> []" using pos len by auto
  obtain n lo hi where l: "lead (byte_at s 0) = (n, lo, hi)" by (metis prod_cases3)
  with w pos n have "n = w" by (auto simp: rune_width_def split: if_splits)
  with w l n pos show ?thesis
    using same [of 0] same [of 1] same [of 2] same [of 3]
    by (auto simp: rune_width_def split: if_splits)
qed

function ToValidUTF8 :: "string \<Rightarrow> string" where
  "ToValidUTF8 [] = []"
| "ToValidUTF8 (c # s) =
     (if rune_width (c # s) = 0 then ToValidUTF8 s
      else take (rune_width (c # s)) (c # s) @ ToValidUTF8 (drop (rune_width (c # s)) (c # s)))"
  by pat_completeness auto
termination
  by (relation "measure length") auto

function valid_utf8 :: "string \<Rightarrow> bool" where
  "valid_utf8 [] = True"
| "valid_utf8 (c # s) =
     (if rune_width (c # s) = 0 then False else valid_utf8 (drop (rune_width (c # s)) (c # s)))"
  by pat_completeness auto
termination
  by (relation "measure length") auto

lemma valid_utf8_rune:
  assumes "rune_width s = w" and "0 < w" and "valid_utf8 t"
  shows "valid_utf8 (take w s @ t)"
proof -
  have w: "rune_width (take w s @ t) = w" using assms rune_width_take by blast
  have "length (take w s) = w" using assms rune_width_le [of s] by simp
  then have "drop w (take w s @ t) = t" by simp
  moreover obtain c u where "take w s @ t = c # u"
    using \<open>length (take w s) = w\<close> assms(2) by (cases "take w s") auto
  ultimately show ?thesis using w assms(2,3) by simp
qed

text \<open>The result is well formed.\<close>

lemma ToValidUTF8_valid: "valid_utf8 (ToValidUTF8 s)"
proof (induction s rule: ToValidUTF8.induct)
  case (2 c s)
  show ?case
  proof (cases "rune_width (c # s) = 0")
    case True
    with 2 show ?thesis by simp
  next
    case False
    with 2 have "valid_utf8 (take (rune_width (c # s)) (c # s) @ ToValidUTF8 (drop (rune_width (c # s)) (c # s)))"
      by (intro valid_utf8_rune) auto
    with False show ?thesis by simp
  qed
qed simp

text \<open>A well-formed string is not changed.\<close>

lemma ToValidUTF8_id: "valid_utf8 s \<Longrightarrow> ToValidUTF8 s = s"
proof (induction s rule: valid_utf8.induct)
  case (2 c s)
  then have "rune_width (c # s) \<noteq> 0" and "valid_utf8 (drop (rune_width (c # s)) (c # s))"
    by (auto split: if_splits)
  with 2 show ?case by simp
qed simp

text \<open>Nothing is added or moved: the result is a subsequence.\<close>

lemma ToValidUTF8_subseq: "subseq (ToValidUTF8 s) s"
proof (induction s rule: ToValidUTF8.induct)
  case (2 c s)
  show ?case
  proof (cases "rune_width (c # s) = 0")
    case True
    with 2 show ?thesis by (simp add: list_emb_Cons)
  next
    case False
    let ?w = "rune_width (c # s)"
    have "subseq (take ?w (c # s) @ ToValidUTF8 (drop ?w (c # s))) (take ?w (c # s) @ drop ?w (c # s))"
      using 2(2) [OF False] by (simp only: subseq_append')
    with False show ?thesis by simp
  qed
qed simp

lemma ToValidUTF8_length: "length (ToValidUTF8 s) \<le> length s"
  using ToValidUTF8_subseq by (rule list_emb_length)

lemma rune_width_ascii: "(of_char c :: nat) < 128 \<Longrightarrow> rune_width (c # s) = 1"
  by (simp add: rune_width_def byte_at_def lead_def)

lemma ascii_valid: "\<forall>c \<in> set s. (of_char c :: nat) < 128 \<Longrightarrow> valid_utf8 s"
  by (induction s) (simp_all add: rune_width_ascii)

text \<open>
  \<open>ToValidUTF8\<close> gives well-formed UTF-8 for every sequence of bytes, only ever drops bytes, and
  leaves well-formed text as it is.
\<close>

lemma ToValidUTF8_correct:
  "valid_utf8 (ToValidUTF8 s) \<and> subseq (ToValidUTF8 s) s \<and> (valid_utf8 s \<longleftrightarrow> ToValidUTF8 s = s)"
  using ToValidUTF8_valid [of s] ToValidUTF8_subseq [of s] ToValidUTF8_id [of s] by auto

end
