(* ===== verification/Docker_Stream.thy ===== *)
theory Docker_Stream
  imports Task Utf8
begin

text \<open>
  \<open>ProcessDockerStream\<close> of \<open>src/internal/worker/service/worker.go\<close>: the reader of Docker's multiplexed
  log stream. Each frame has a header of eight bytes (the stream's number, three unused bytes, the
  size of the payload as a big-endian 32-bit number) and the payload. Every entry read is given
  to a callback that may fail.

  The locale \<open>framing\<close> is the interface of a format whose encoder and decoder agree on one item;
  it gives the agreement on sequences. Docker's frames are an instance.
\<close>

section \<open>Reading\<close>

datatype read = ReadOk string log_stream | ReadEOF | ReadErr error

text \<open>\<open>io.ReadFull\<close>: a stream that ends before the first byte is \<open>io.EOF\<close>, later it is an error.\<close>

definition ReadFull :: "nat \<Rightarrow> log_stream \<Rightarrow> read" where
  "ReadFull n stream =
     (case stream of (bytes, failure) \<Rightarrow>
        if n \<le> length bytes then ReadOk (take n bytes) (drop n bytes, failure)
        else case failure of
               Some err \<Rightarrow> ReadErr err
             | None \<Rightarrow> if bytes = [] then ReadEOF else ReadErr ''unexpected EOF'')"

definition BigEndian_Uint32 :: "string \<Rightarrow> nat" where
  "BigEndian_Uint32 b =
     byte_at b 0 * 2 ^ 24 + byte_at b 1 * 2 ^ 16 + byte_at b 2 * 2 ^ 8 + byte_at b 3"

record docker_log =
  StreamType :: nat
  Payload :: string

type_synonym 's log_callback = "docker_log \<Rightarrow> 's \<Rightarrow> error option \<times> 's"

lemma ReadFull_shorter:
  "ReadFull n st = ReadOk b st' \<Longrightarrow> length (fst st') = length (fst st) - n \<and> n \<le> length (fst st)"
  by (auto simp: ReadFull_def split: if_splits option.splits prod.splits)

function process_frames :: "'s log_callback \<Rightarrow> log_stream \<Rightarrow> 's \<Rightarrow> error option \<times> 's" where
  "process_frames streamLog stream s =
     (case ReadFull 8 stream of
        ReadEOF \<Rightarrow> (None, s)
      | ReadErr err \<Rightarrow> (Some err, s)
      | ReadOk header stream' \<Rightarrow>
          (case ReadFull (BigEndian_Uint32 (drop 4 header)) stream' of
             ReadEOF \<Rightarrow> (None, s)
           | ReadErr errp \<Rightarrow> (Some errp, s)
           | ReadOk payload stream'' \<Rightarrow>
               (case streamLog \<lparr>StreamType = byte_at header 0, Payload = ToValidUTF8 payload\<rparr> s of
                  (Some err, s') \<Rightarrow> (Some err, s')
                | (None, s') \<Rightarrow> process_frames streamLog stream'' s')))"
  by pat_completeness auto
termination
  by (relation "measure (\<lambda>(f, st, s). length (fst st))") (auto dest!: ReadFull_shorter)

declare process_frames.simps [simp del]

definition ProcessDockerStream :: "'s log_callback \<Rightarrow> logs_response \<Rightarrow> 's \<Rightarrow> error option \<times> 's" where
  "ProcessDockerStream streamLog response s =
     (case l_Error response of
        Some err \<Rightarrow> (Some err, s)
      | None \<Rightarrow>
          (case LogStream response of
             None \<Rightarrow> (Some ''no log stream'', s)
           | Some stream \<Rightarrow> process_frames streamLog stream s))"

section \<open>Formats of framed items\<close>

function decode_all :: "(string \<Rightarrow> ('a \<times> string) option) \<Rightarrow> string \<Rightarrow> 'a list \<times> string" where
  "decode_all dec s =
     (case dec s of
        None \<Rightarrow> ([], s)
      | Some (x, rest) \<Rightarrow>
          if length rest < length s then (let (xs, left) = decode_all dec rest in (x # xs, left))
          else ([], s))"
  by pat_completeness auto
termination by (relation "measure (\<lambda>(d, s). length s)") auto

declare decode_all.simps [simp del]

locale framing =
  fixes enc :: "'a \<Rightarrow> string" and dec :: "string \<Rightarrow> ('a \<times> string) option" and ok :: "'a \<Rightarrow> bool"
  assumes enc_nonempty: "enc x \<noteq> []"
    and dec_enc: "ok x \<Longrightarrow> dec (enc x @ rest) = Some (x, rest)"
    and dec_Nil: "dec [] = None"
begin

lemma decode_encoded:
  assumes "\<forall>x \<in> set xs. ok x" and "dec tail = None"
  shows "decode_all dec (concat (map enc xs) @ tail) = (xs, tail)"
  using assms
proof (induction xs)
  case Nil
  then show ?case by (simp add: decode_all.simps [of dec tail])
next
  case (Cons x xs)
  then show ?case
    using dec_enc [of x "concat (map enc xs) @ tail"] enc_nonempty [of x]
    by (simp add: decode_all.simps [of dec "enc x @ concat (map enc xs) @ tail"])
qed

lemma decode_concat: "\<forall>x \<in> set xs. ok x \<Longrightarrow> decode_all dec (concat (map enc xs)) = (xs, [])"
  using decode_encoded [of xs "[]"] dec_Nil by simp

end

section \<open>Docker's frames\<close>

type_synonym frame = "nat \<times> string"            \<comment> \<open>the stream's number and the payload\<close>

definition be32 :: "nat \<Rightarrow> string" where
  "be32 n = map char_of [n div 2 ^ 24 mod 256, n div 2 ^ 16 mod 256, n div 2 ^ 8 mod 256, n mod 256]"

definition encode_frame :: "frame \<Rightarrow> string" where
  "encode_frame f =
     (case f of (t, payload) \<Rightarrow>
        map char_of [t, 0, 0, 0 :: nat] @ be32 (length payload) @ payload)"

definition decode_frame :: "string \<Rightarrow> (frame \<times> string) option" where
  "decode_frame s =
     (if length s < 8 then None
      else (let n = BigEndian_Uint32 (drop 4 (take 8 s)); rest = drop 8 s
            in if length rest < n then None else Some ((byte_at s 0, take n rest), drop n rest)))"

definition frame_ok :: "frame \<Rightarrow> bool" where
  "frame_ok f \<longleftrightarrow> fst f < 256 \<and> length (snd f) < 2 ^ 32"

lemma be32_length [simp]: "length (be32 n) = 4"
  by (simp add: be32_def)

lemma BigEndian_be32:
  assumes "n < 2 ^ 32"
  shows "BigEndian_Uint32 (be32 n @ t) = n"
proof -
  have "n div 16777216 mod 256 = n div 16777216" using assms by simp
  moreover have "n div 16777216 * 16777216 + n div 65536 mod 256 * 65536 + n div 256 mod 256 * 256 + n mod 256 = n"
  proof -
    have "n div 65536 * 256 + n div 256 mod 256 = n div 256"
      using div_mult_mod_eq [of "n div 256" 256] by (simp add: div_mult2_eq [symmetric])
    moreover have "n div 16777216 * 256 + n div 65536 mod 256 = n div 65536"
      using div_mult_mod_eq [of "n div 65536" 256] by (simp add: div_mult2_eq [symmetric])
    moreover have "n div 256 * 256 + n mod 256 = n" by (rule div_mult_mod_eq)
    ultimately show ?thesis by linarith
  qed
  ultimately show ?thesis
    by (simp add: BigEndian_Uint32_def be32_def byte_at_def)
qed

lemma encode_frame_parts:
  "length (encode_frame (t, p)) = 8 + length p"
  "drop 4 (take 8 (encode_frame (t, p) @ rest)) = be32 (length p)"
  "drop 8 (encode_frame (t, p) @ rest) = p @ rest"
  by (simp_all add: encode_frame_def be32_def)

lemma byte_encode_frame: "t < 256 \<Longrightarrow> byte_at (encode_frame (t, p) @ rest) 0 = t"
  by (simp add: encode_frame_def byte_at_def)

interpretation frames: framing encode_frame decode_frame frame_ok
proof unfold_locales
  fix x :: frame and rest
  obtain t p where x: "x = (t, p)" by (cases x)
  show "encode_frame x \<noteq> []" by (simp add: encode_frame_def x)
  assume "frame_ok x"
  then have "t < 256" and n: "length p < 2 ^ 32" by (simp_all add: frame_ok_def x)
  moreover have "BigEndian_Uint32 (be32 (length p)) = length p"
    using BigEndian_be32 [OF n, of "[]"] by simp
  ultimately show "decode_frame (encode_frame x @ rest) = Some (x, rest)"
    using encode_frame_parts [of t p] byte_encode_frame [of t p rest]
    by (simp add: decode_frame_def x Let_def)
qed (simp add: decode_frame_def)

text \<open>Fewer bytes than a frame has do not decode; so the start of a sequence of frames decodes to its whole frames.\<close>

lemma decode_short_frame:
  assumes "frame_ok f" and "encode_frame f @ rest = s @ unread" and "length s < length (encode_frame f)"
  shows "decode_frame s = None"
proof (cases "length s < 8")
  case True
  then show ?thesis by (simp add: decode_frame_def)
next
  case False
  obtain t p where f: "f = (t, p)" by (cases f)
  have "take 8 s = take 8 (encode_frame f @ rest)" using False assms(2) by simp
  then have "drop 4 (take 8 s) = be32 (length p)" using encode_frame_parts(2) [of t p rest] by (simp add: f)
  moreover have "BigEndian_Uint32 (be32 (length p)) = length p"
    using BigEndian_be32 [of "length p" "[]"] assms(1) by (simp add: f frame_ok_def)
  ultimately show ?thesis
    using False assms(3) encode_frame_parts(1) [of t p] by (simp add: decode_frame_def f Let_def)
qed

definition whole_frames :: "nat \<Rightarrow> frame list \<Rightarrow> nat \<Rightarrow> bool" where
  "whole_frames len fs n \<longleftrightarrow> n \<le> length fs \<and> length (concat (map encode_frame (take n fs))) \<le> len
     \<and> (n < length fs \<longrightarrow> len < length (concat (map encode_frame (take (Suc n) fs))))"

lemma decode_cut:
  assumes "\<forall>f \<in> set fs. frame_ok f" and "concat (map encode_frame fs) = s @ unread"
  shows "\<exists>n left. decode_all decode_frame s = (take n fs, left) \<and> whole_frames (length s) fs n"
  using assms
proof (induction fs arbitrary: s)
  case Nil
  then show ?case
    by (intro exI [of _ 0]) (simp add: decode_all.simps [of _ "[]"] decode_frame_def whole_frames_def)
next
  case (Cons f fs)
  have eq: "encode_frame f @ concat (map encode_frame fs) = s @ unread" using Cons.prems(2) by simp
  show ?case
  proof (cases "length s < length (encode_frame f)")
    case True
    then have "decode_frame s = None" using decode_short_frame [OF _ eq] Cons.prems(1) by simp
    with True show ?thesis
      by (intro exI [of _ 0]) (simp add: decode_all.simps [of _ s] whole_frames_def)
  next
    case False
    then obtain s' where s': "s = encode_frame f @ s'"
      using eq by (auto simp: append_eq_append_conv2)
    with eq have "concat (map encode_frame fs) = s' @ unread" by simp
    then obtain n left where n: "decode_all decode_frame s' = (take n fs, left)" "whole_frames (length s') fs n"
      using Cons.IH Cons.prems(1) by auto
    have "decode_all decode_frame s = (f # take n fs, left)"
      using frames.dec_enc [of f s'] frames.enc_nonempty [of f] Cons.prems(1) n(1)
      by (simp add: s' decode_all.simps [of _ "encode_frame f @ s'"])
    with n(2) show ?thesis
      by (intro exI [of _ "Suc n"]) (simp add: whole_frames_def s')
  qed
qed

text \<open>
  The loop decodes the stream and gives the entries to the callback until it fails. What is left
  when no frame can be read any more decides the result.
\<close>

definition entry_of :: "frame \<Rightarrow> docker_log" where
  "entry_of f = \<lparr>StreamType = fst f, Payload = ToValidUTF8 (snd f)\<rparr>"

fun deliver :: "'s log_callback \<Rightarrow> docker_log list \<Rightarrow> 's \<Rightarrow> error option \<times> 's" where
  "deliver streamLog [] s = (None, s)"
| "deliver streamLog (e # es) s =
     (case streamLog e s of (Some err, s') \<Rightarrow> (Some err, s') | (None, s') \<Rightarrow> deliver streamLog es s')"

text \<open>The verdict on the bytes after the last whole frame.\<close>

definition leftover_error :: "string \<Rightarrow> error option \<Rightarrow> error option" where
  "leftover_error left failure =
     (case failure of
        Some err \<Rightarrow> Some err
      | None \<Rightarrow> if left = [] \<or> length left = 8 then None else Some ''unexpected EOF'')"

lemma ReadFull_frame:
  "decode_frame s = Some (f, rest) \<Longrightarrow>
     \<exists>st. ReadFull 8 (s, e) = ReadOk (take 8 s) st
        \<and> ReadFull (BigEndian_Uint32 (drop 4 (take 8 s))) st = ReadOk (snd f) (rest, e)
        \<and> byte_at (take 8 s) 0 = fst f \<and> length rest < length s"
  by (auto simp: decode_frame_def ReadFull_def Let_def byte_at_def split: if_splits)

lemma ReadFull_no_frame:
  assumes "decode_frame s = None"
  shows "process_frames streamLog (s, e) t = (leftover_error s e, t)"
proof (cases "length s < 8")
  case True
  then show ?thesis
    by (simp add: process_frames.simps ReadFull_def leftover_error_def split: option.split)
next
  case False
  with assms have "length s - 8 < BigEndian_Uint32 (drop 4 (take 8 s))"
    by (simp add: decode_frame_def Let_def split: if_splits)
  with False show ?thesis
    by (auto simp: process_frames.simps ReadFull_def leftover_error_def split: option.split)
qed

lemma process_frames_decode:
  "process_frames streamLog (s, e) t =
     (case decode_all decode_frame s of
        (fs, left) \<Rightarrow>
          (case deliver streamLog (map entry_of fs) t of
             (Some err, u) \<Rightarrow> (Some err, u)
           | (None, u) \<Rightarrow> (leftover_error left e, u)))"
proof (induction "length s" arbitrary: s t rule: less_induct)
  case less
  show ?case
  proof (cases "decode_frame s")
    case None
    then show ?thesis by (simp add: decode_all.simps [of _ s] ReadFull_no_frame)
  next
    case (Some r)
    obtain f rest where r: "r = (f, rest)" by (cases r)
    obtain st where st: "ReadFull 8 (s, e) = ReadOk (take 8 s) st"
        "ReadFull (BigEndian_Uint32 (drop 4 (take 8 s))) st = ReadOk (snd f) (rest, e)"
        "byte_at (take 8 s) 0 = fst f" "length rest < length s"
      using ReadFull_frame Some r by blast
    have d: "decode_all decode_frame s = (let (xs, left) = decode_all decode_frame rest in (f # xs, left))"
      using Some r st(4) by (simp add: decode_all.simps [of _ s])
    show ?thesis
      using less [OF st(4)]
      by (simp add: process_frames.simps [of _ "(s, e)"] st(1-3) d entry_of_def
          split: prod.split option.split)
  qed
qed

section \<open>Properties\<close>

text \<open>The reply of a Docker engine that sends these bytes and then closes the stream.\<close>

definition stream_of :: "string \<Rightarrow> logs_response" where
  "stream_of bytes = \<lparr>l_Error = None, LogStream = Some (bytes, None)\<rparr>"

lemma ProcessDockerStream_stream:
  "ProcessDockerStream cb (stream_of bytes) s = process_frames cb (bytes, None) s"
  by (simp add: ProcessDockerStream_def stream_of_def)

lemma decode_short: "length s < 8 \<Longrightarrow> decode_frame s = None"
  by (simp add: decode_frame_def)

text \<open>
  C29: the reader inverts Docker's framing: from the frames written one after the other it gives the
  callback exactly one entry per frame, in order, with the number of the stream and the payload as
  valid UTF-8, stops at the first error of the callback and returns that error, and returns no
  error at the end of the stream.
\<close>

theorem ProcessDockerStream_frames:
  assumes "\<forall>f \<in> set fs. frame_ok f"
  shows "ProcessDockerStream streamLog (stream_of (concat (map encode_frame fs))) s
    = deliver streamLog (map entry_of fs) s"
  using frames.decode_concat [OF assms]
  by (simp add: ProcessDockerStream_stream process_frames_decode leftover_error_def split: prod.split option.split)

theorem ProcessDockerStream_frames_witness:
  "ProcessDockerStream (\<lambda>e es. (None, es @ [e])) (stream_of (concat (map encode_frame [(1, ''ab''), (2, ''c'')]))) []
    = (None, [\<lparr>StreamType = 1, Payload = ''ab''\<rparr>, \<lparr>StreamType = 2, Payload = ''c''\<rparr>])"
proof -
  have ok: "\<forall>f \<in> set [(1, ''ab''), (2, ''c'')]. frame_ok f" by (simp add: frame_ok_def)
  have "ToValidUTF8 ''ab'' = ''ab''" "ToValidUTF8 ''c'' = ''c''"
    by (rule ToValidUTF8_id, rule ascii_valid, simp)+
  then show ?thesis
    using ProcessDockerStream_frames [OF ok, of "\<lambda>e es. (None, es @ [e])" "[]"] by (simp add: entry_of_def)
qed

text \<open>
  C30: of a stream that stops inside a frame all whole frames are delivered, and the reader reports
  \<open>unexpected EOF\<close>, with one exception: when it stops right after a header that announces a payload,
  the second \<open>ReadFull\<close> sees an end of file too and the truncated log counts as complete.
\<close>

theorem ProcessDockerStream_truncated:
  assumes "\<forall>f \<in> set fs. frame_ok f" and "decode_frame left = None" and "left \<noteq> []"
    and "\<And>e s. fst (streamLog e s) = None"
  shows "ProcessDockerStream streamLog (stream_of (concat (map encode_frame fs) @ left)) s
    = (if length left = 8 then None else Some ''unexpected EOF'', snd (deliver streamLog (map entry_of fs) s))"
proof -
  have never: "fst (deliver streamLog es u) = None" for es u
    using assms(4) by (induction es arbitrary: u) (auto split: prod.split option.split, metis fst_conv option.distinct(1))
  obtain u where u: "deliver streamLog (map entry_of fs) s = (None, u)"
    using never by (metis prod.collapse)
  show ?thesis
    using frames.decode_encoded [OF assms(1,2)] assms(3) u
    by (simp add: ProcessDockerStream_stream process_frames_decode leftover_error_def)
qed

theorem ProcessDockerStream_truncated_witness:
  "ProcessDockerStream (\<lambda>e n. (None, Suc n)) (stream_of (concat (map encode_frame [(1, ''ab'')])
      @ take 8 (encode_frame (1, ''lost'')))) 0 = (None, 1)"
proof -
  let ?left = "take 8 (encode_frame (1, ''lost''))"
  have "decode_frame ?left = None" "length ?left = 8"
    by (simp_all add: decode_frame_def encode_frame_def be32_def BigEndian_Uint32_def byte_at_def)
  moreover have "\<forall>f \<in> set [(1, ''ab'')]. frame_ok f" by (simp add: frame_ok_def)
  ultimately show ?thesis
    using ProcessDockerStream_truncated [of "[(1, ''ab'')]" ?left "\<lambda>e n. (None, Suc n)" 0]
    by (simp add: frames.enc_nonempty)
qed

end
