(* ===== verification/Worker.thy ===== *)
theory Worker
  imports Task_Queue Go_Sync Worker_State Stats Docker_Stream
begin

text \<open>
  The worker process, \<open>src/internal/worker/service/worker.go\<close>: its queue and task table, the loop that
  starts and stops tasks, the loop that watches the running ones, and the calls to Docker.

  The record holds the process's store of task cells and, in \<open>engine\<close>, the state of the Docker
  engine behind \<open>DockerClient\<close>. The endless loops are modelled by one iteration.
\<close>

record ('q, 'd) worker =
  w_Name :: string
  w_store :: heap
  Queue :: 'q
  TaskIds :: "uuid \<rightharpoonup> ptr"
  w_TaskCount :: go_int
  w_State :: worker_state
  w_Stats :: "stats option"
  engine :: 'd
  w_mu :: rwmutex

interpretation wkr: lockable "w_mu :: ('q, 'd) worker \<Rightarrow> rwmutex" w_mu_update
  by unfold_locales (auto simp: comp_def)

lemma w_mu_update_id [simp]: "w_mu_update (\<lambda>x. x) (w :: ('q, 'd) worker) = w"
  by (rule wkr.upd_same) simp

definition w_quiet :: "('q, 'd) worker \<Rightarrow> bool" where
  "w_quiet w \<longleftrightarrow> mutex_free (w_mu w)"

lemma w_quietD [simp]: "w_quiet w \<Longrightarrow> can_lock (w_mu w)" "w_quiet w \<Longrightarrow> can_rlock (w_mu w)"
  by (simp_all add: w_quiet_def)

definition wtask :: "('q, 'd) worker \<Rightarrow> ptr \<Rightarrow> task" where
  "wtask w p = cells (w_store w) p"

definition edit :: "ptr \<Rightarrow> (task \<Rightarrow> task) \<Rightarrow> ('q, 'd) worker \<Rightarrow> ('q, 'd) worker" where
  "edit p f w = w\<lparr>w_store := write_cell p f (w_store w)\<rparr>"

lemma edit_simps [simp]:
  "w_mu (edit p f w) = w_mu w" "Queue (edit p f w) = Queue w" "TaskIds (edit p f w) = TaskIds w"
  "engine (edit p f w) = engine w" "w_Stats (edit p f w) = w_Stats w"
  "wtask (edit p f w) q = (if q = p then f (wtask w p) else wtask w q)"
  "fresh (w_store (edit p f w)) = fresh (w_store w)"
  by (simp_all add: edit_def wtask_def)

lemma edit_mu [simp]: "edit p f (w_mu_update g w) = w_mu_update g (edit p f w)"
  by (simp add: edit_def)

lemma wtask_mu [simp]: "wtask (w_mu_update g w) = wtask w"
  by (simp add: wtask_def fun_eq_iff)

section \<open>The queue and the task table\<close>

text \<open>\<open>AddTask\<close> does not take the lock.\<close>

definition AddTask_w :: "'q queue_api \<Rightarrow> ptr \<Rightarrow> ('q, 'd) worker \<Rightarrow> ('q, 'd) worker" where
  "AddTask_w Q t w = w\<lparr>Queue := Enqueue Q (Queue w) t\<rparr>"

definition GetTask_w :: "uuid \<Rightarrow> ('q, 'd) worker \<Rightarrow> (task \<times> bool, ('q, 'd) worker) result" where
  "GetTask_w taskID =
     with_rlock w_mu w_mu_update
       (\<lambda>w. Return (case TaskIds w taskID of None \<Rightarrow> (zero_task, False) | Some t \<Rightarrow> (wtask w t, True)) w)"

text \<open>\<open>RLock\<close> is paired with \<open>Unlock\<close> here, as in the source.\<close>

definition GetTasks_w :: "uuid list \<Rightarrow> ('q, 'd) worker \<Rightarrow> (task list, ('q, 'd) worker) result" where
  "GetTasks_w order w =
     andthen (rlock_op w_mu w_mu_update w) (\<lambda>_ w.
       (let tasks = concat (map (\<lambda>tid. case TaskIds w tid of None \<Rightarrow> [] | Some t \<Rightarrow> [wtask w t]) order)
        in andthen (unlock_op w_mu w_mu_update w) (\<lambda>_. Return tasks)))"

definition updateTaskState_body :: "uuid \<Rightarrow> state \<Rightarrow> time \<Rightarrow> ('q, 'd) worker \<Rightarrow> ('q, 'd) worker" where
  "updateTaskState_body taskID newState now w =
     (case TaskIds w taskID of
        None \<Rightarrow> w
      | Some t \<Rightarrow> edit t (\<lambda>x. x\<lparr>State := newState, EndTime := now\<rparr>) w)"

definition updateTaskState :: "uuid \<Rightarrow> state \<Rightarrow> time \<Rightarrow> ('q, 'd) worker \<Rightarrow> (unit, ('q, 'd) worker) result" where
  "updateTaskState taskID newState now =
     with_lock w_mu w_mu_update (\<lambda>w. Return () (updateTaskState_body taskID newState now w))"

text \<open>One iteration of \<open>CollectStats\<close>; \<open>GetStats\<close> does not use its receiver.\<close>

definition CollectStats_step :: "proc_files \<Rightarrow> ('q, 'd) worker \<Rightarrow> ('q, 'd) worker" where
  "CollectStats_step p w =
     (let w = w\<lparr>w_Stats := Some (GetStats p)\<rparr> in w\<lparr>w_TaskCount := TaskCount (GetStats p)\<rparr>)"

section \<open>Starting and stopping\<close>

text \<open>
  \<open>StartTask\<close>. Its pointer result is nil when the task was not started. The deferred \<open>recover\<close>
  has nothing to catch: no step of the body can panic.
\<close>

definition known :: "ptr \<Rightarrow> ('q, 'd) worker \<Rightarrow> ('q, 'd) worker" where
  "known t w = w\<lparr>TaskIds := (TaskIds w)(ID (wtask w t) \<mapsto> t)\<rparr>"

definition StartTask ::
    "'d docker_api \<Rightarrow> time \<Rightarrow> ptr \<Rightarrow> ('q, 'd) worker \<Rightarrow> (docker_result \<times> ptr option) \<times> ('q, 'd) worker" where
  "StartTask api now t w =
     (let w = edit t (\<lambda>x. x\<lparr>StartTime := now\<rparr>) w;
          config = NewConfig (wtask w t)
      in case NewDocker api config of
           None \<Rightarrow> ((zero_result, None), known t (edit t (\<lambda>x. x\<lparr>State := Failed\<rparr>) w))
         | Some d \<Rightarrow>
             (case Run api d (engine w) of
                (result, d', eng) \<Rightarrow>
                  (let w = w\<lparr>engine := eng\<rparr>
                   in if Error result \<noteq> None
                      then ((result, None), known t (edit t (\<lambda>x. x\<lparr>State := Failed\<rparr>) w))
                      else ((result, Some t),
                            known t (edit t (\<lambda>x. x\<lparr>ContainerID := r_ContainerId result,
                                                   State := Running\<rparr>) w)))))"

definition StopTask_body ::
    "'d docker_api \<Rightarrow> time \<Rightarrow> ptr \<Rightarrow> ('q, 'd) worker \<Rightarrow> (docker_result, ('q, 'd) worker) result" where
  "StopTask_body api now t w =
     (case Stop api (ContainerID (wtask w t)) (engine w) of
        (result, eng) \<Rightarrow>
          Return result (known t (edit t (\<lambda>x. x\<lparr>EndTime := now, State := Completed\<rparr>) (w\<lparr>engine := eng\<rparr>))))"

text \<open>\<open>StopTask\<close> takes the worker's lock itself.\<close>

definition StopTask ::
    "'d docker_api \<Rightarrow> time \<Rightarrow> ptr \<Rightarrow> ('q, 'd) worker \<Rightarrow> (docker_result, ('q, 'd) worker) result" where
  "StopTask api now t = with_lock w_mu w_mu_update (StopTask_body api now t)"

text \<open>\<open>updatedTask.ID\<close> in the log line after a start without an error dereferences the pointer.\<close>

definition run_scheduled ::
    "'d docker_api \<Rightarrow> time \<Rightarrow> ptr \<Rightarrow> ('q, 'd) worker \<Rightarrow> (docker_result \<times> ptr option, ('q, 'd) worker) result" where
  "run_scheduled api now t w =
     (case StartTask api now t w of
        ((result, updatedTask), w) \<Rightarrow>
          if Error result \<noteq> None then Return (result, Some t) w
          else (case updatedTask of
                  None \<Rightarrow> Panic NilDeref w
                | Some u \<Rightarrow> Return (result, Some u) w))"

text \<open>The switch on the state of the task, inside the second locked region of \<open>runTask\<close>.\<close>

definition run_switch ::
    "'d docker_api \<Rightarrow> time \<Rightarrow> ptr \<Rightarrow> ('q, 'd) worker \<Rightarrow> (docker_result \<times> ptr option, ('q, 'd) worker) result" where
  "run_switch api now t w =
     (case State (wtask w t) of
        Pending \<Rightarrow> run_scheduled api now t (edit t (\<lambda>x. x\<lparr>State := Scheduled\<rparr>) w)
      | Scheduled \<Rightarrow> run_scheduled api now t w
      | Completed \<Rightarrow> andthen (StopTask api now t w) (\<lambda>result. Return (result, Some t))
      | st \<Rightarrow> Return (zero_result\<lparr>Error := Some (''unexpected task state: '' @ show_nat (state_code st))\<rparr>,
                      Some t) w)"

definition runTask ::
    "'q queue_api \<Rightarrow> 'd docker_api \<Rightarrow> time \<Rightarrow> ('q, 'd) worker
       \<Rightarrow> (docker_result \<times> ptr option, ('q, 'd) worker) result" where
  "runTask Q api now w =
     andthen (lock_op w_mu w_mu_update w) (\<lambda>_ w.
       if Len Q (Queue w) = 0
       then andthen (unlock_op w_mu w_mu_update w) (\<lambda>_. Return (zero_result, None))
       else (let (t, q) = Dequeue Q (Queue w)
             in andthen (unlock_op w_mu w_mu_update (w\<lparr>Queue := q\<rparr>)) (\<lambda>_ w.
                case t of
                  None \<Rightarrow> Return (zero_result\<lparr>Error := Some ''Invalid type in queue''\<rparr>, None) w
                | Some taskQueued \<Rightarrow>
                    with_lock w_mu w_mu_update (run_switch api now taskQueued) w)))"

text \<open>One iteration of \<open>RunTasks\<close>; \<open>Len\<close> is read without the lock.\<close>

definition RunTasks_step ::
    "'q queue_api \<Rightarrow> 'd docker_api \<Rightarrow> time \<Rightarrow> ('q, 'd) worker \<Rightarrow> (unit, ('q, 'd) worker) result" where
  "RunTasks_step Q api now w =
     (if Len Q (Queue w) \<noteq> 0
      then andthen (runTask Q api now w) (\<lambda>rt w.
        case rt of (result, t) \<Rightarrow>
          if Error result \<noteq> None
          then (case t of
                  None \<Rightarrow> Panic NilDeref w
                | Some p \<Rightarrow> updateTaskState (ID (wtask w p)) Failed now w)
          else Return () w)
      else Return () w)"

section \<open>Watching the running tasks\<close>

definition InspectTask :: "'d docker_api \<Rightarrow> task \<Rightarrow> 'd \<Rightarrow> inspect_response" where
  "InspectTask api t d = InspectContainer api (ContainerID t) d"

definition IsTaskRunning ::
    "'d docker_api \<Rightarrow> string \<Rightarrow> ('q, 'd) worker \<Rightarrow> (bool \<times> error option, ('q, 'd) worker) result" where
  "IsTaskRunning api containerID w =
     (if containerID = [] then Return (False, None) w
      else (case IsRunning api containerID (engine w) of
              Return (isRunning, Some err) eng \<Rightarrow>
                if Contains err ''No such container'' then Return (False, None) w
                else Return (False, Some (''error checking container status: '' @ err)) w
            | Return (isRunning, None) eng \<Rightarrow> Return (isRunning, None) w
            | Panic p eng \<Rightarrow> Panic p w
            | Blocked eng \<Rightarrow> Blocked w))"

definition logs_request :: logs_options where
  "logs_request =
     \<lparr>ShowStdout = True, ShowStderr = True, Since = ''2013-01-02T13:23:37Z'', Until = [],
      Timestamps = False, Follow = False, Tail = [], Details = True\<rparr>"

definition GetDockerTaskLogs :: "'d docker_api \<Rightarrow> task \<Rightarrow> 'd \<Rightarrow> logs_response" where
  "GetDockerTaskLogs api t d = GetDockerContainerLogs api (ContainerID t) logs_request d"

definition set_ports_body :: "uuid \<Rightarrow> port_map option \<Rightarrow> ('q, 'd) worker \<Rightarrow> (unit, ('q, 'd) worker) result" where
  "set_ports_body tid ports w =
     (case TaskIds w tid of
        None \<Rightarrow> Return () w
      | Some taskToUpdate \<Rightarrow>
          (case ports of
             None \<Rightarrow> Panic NilDeref w
           | Some ps \<Rightarrow> Return () (edit taskToUpdate (\<lambda>x. x\<lparr>HostPorts := ps\<rparr>) w)))"

text \<open>The lock around the port update is released by hand.\<close>

definition set_ports :: "uuid \<Rightarrow> port_map option \<Rightarrow> ('q, 'd) worker \<Rightarrow> (unit, ('q, 'd) worker) result" where
  "set_ports tid ports w =
     andthen (lock_op w_mu w_mu_update w) (\<lambda>_ w.
     andthen (set_ports_body tid ports w) (\<lambda>_. unlock_op w_mu w_mu_update))"

definition monitor_task ::
    "'d docker_api \<Rightarrow> time \<Rightarrow> ptr \<Rightarrow> ('q, 'd) worker \<Rightarrow> (unit, ('q, 'd) worker) result" where
  "monitor_task api now t w =
     (let resp = InspectTask api (wtask w t) (engine w); tid = ID (wtask w t)
      in if i_Error resp \<noteq> None then updateTaskState tid Failed now w
         else (case Container resp of
                 None \<Rightarrow> updateTaskState tid Failed now w
               | Some c \<Rightarrow>
                   (case c_State c of
                      None \<Rightarrow> Panic NilDeref w
                    | Some st \<Rightarrow>
                        andthen (if Status st = ''exited'' then updateTaskState tid Failed now w
                                 else Return () w)
                          (\<lambda>_. set_ports tid (c_Ports c)))))"

definition running_tasks :: "uuid list \<Rightarrow> ('q, 'd) worker \<Rightarrow> ptr list" where
  "running_tasks order w =
     concat (map (\<lambda>tid. case TaskIds w tid of
                          None \<Rightarrow> []
                        | Some t \<Rightarrow> if State (wtask w t) = Running then [t] else []) order)"

text \<open>One iteration of \<open>MonitorTasks\<close>; \<open>order\<close> is the order in which the table is enumerated.\<close>

definition MonitorTasks_step ::
    "'d docker_api \<Rightarrow> uuid list \<Rightarrow> time \<Rightarrow> ('q, 'd) worker \<Rightarrow> (unit, ('q, 'd) worker) result" where
  "MonitorTasks_step api order now w =
     andthen (lock_op w_mu w_mu_update w) (\<lambda>_ w.
       (let tasksToInspect = running_tasks order w
        in andthen (unlock_op w_mu w_mu_update w) (\<lambda>_.
             for_each (monitor_task api now) tasksToInspect)))"

section \<open>Under the lock\<close>

lemma known_simps [simp]:
  "w_mu (known t w) = w_mu w" "Queue (known t w) = Queue w" "engine (known t w) = engine w"
  "wtask (known t w) = wtask w" "TaskIds (known t w) = (TaskIds w)(ID (wtask w t) \<mapsto> t)"
  "known t (w_mu_update g w) = w_mu_update g (known t w)"
  by (simp_all add: known_def wtask_def fun_eq_iff)

lemma engine_mu: "(w_mu_update g w)\<lparr>engine := e\<rparr> = w_mu_update g (w\<lparr>engine := e\<rparr>)"
  by simp

lemma StartTask_mu:
  "StartTask api now t (w_mu_update g w) = apsnd (w_mu_update g) (StartTask api now t w)"
  by (simp add: StartTask_def Let_def engine_mu split: option.split prod.split)

lemma StartTask_mu_same: "StartTask api now t w = (r, w') \<Longrightarrow> w_mu w' = w_mu w"
  by (auto simp: StartTask_def Let_def split: option.splits prod.splits if_splits)

lemma run_scheduled_mu:
  "run_scheduled api now t (w_mu_update g w) = map_state (w_mu_update g) (run_scheduled api now t w)"
  by (simp add: run_scheduled_def StartTask_mu split: prod.split option.split)

lemma run_scheduled_same: "w_mu (state_of (run_scheduled api now t w)) = w_mu w"
  using StartTask_mu_same by (fastforce simp: run_scheduled_def split: prod.splits option.splits)

lemma run_scheduled_no_wait: "\<not> waits (run_scheduled api now t w)"
  by (simp add: run_scheduled_def split: prod.splits option.splits)

text \<open>
  The switch with the lock released: every branch but \<open>Completed\<close>, in which \<open>StopTask\<close> asks for
  the lock again.
\<close>

lemma run_switch_locked:
  assumes "w_quiet w" and "State (wtask w t) \<noteq> Completed"
  shows "with_lock w_mu w_mu_update (run_switch api now t) w = run_switch api now t w"
proof (rule wkr.with_lock_commutes)
  show "can_lock (w_mu w)" using assms(1) by simp
  show "run_switch api now t (w_mu_update g w) = map_state (w_mu_update g) (run_switch api now t w)" for g
    using assms(2) by (simp add: run_switch_def run_scheduled_mu split: state.split)
  show "w_mu (state_of (run_switch api now t w)) = w_mu w"
    using assms(2) by (simp add: run_switch_def run_scheduled_same split: state.split)
  show "\<not> waits (run_switch api now t w)"
    using assms(2) by (simp add: run_switch_def run_scheduled_no_wait split: state.split)
qed

lemma run_switch_completed:
  assumes "w_quiet w" and "State (wtask w t) = Completed"
  shows "with_lock w_mu w_mu_update (run_switch api now t) w
    = Blocked (w_mu_update (\<lambda>x. x\<lparr>writer := True\<rparr>) w)"
  using assms
  by (simp add: with_lock_def lock_op_def run_switch_def StopTask_def can_lock_def w_quiet_def mutex_free_def)

text \<open>\<open>runTask\<close> by what is at the head of the queue.\<close>

lemma runTask_taken:
  assumes q: "w_quiet w" and some: "Len Q (Queue w) \<noteq> 0" and deq: "Dequeue Q (Queue w) = (Some t, q')"
  shows "runTask Q api now w = with_lock w_mu w_mu_update (run_switch api now t) (w\<lparr>Queue := q'\<rparr>)"
proof -
  have restore: "w_mu_update (\<lambda>x. x\<lparr>writer := False\<rparr>) (w\<lparr>Queue := q'\<rparr>) = w\<lparr>Queue := q'\<rparr>"
    by (rule wkr.upd_same) (use q in \<open>simp add: w_quiet_def mutex_free_def\<close>)
  then show ?thesis
    using q deq some by (simp add: runTask_def lock_op_def unlock_op_def wkr.upd_upd comp_def)
qed

lemma runTask_cons:
  assumes q: "w_quiet w" and fifo: "fifo Q contents" and head: "contents (Queue w) = t # ts"
  obtains q' where "contents q' = ts"
    "runTask Q api now w = with_lock w_mu w_mu_update (run_switch api now t) (w\<lparr>Queue := q'\<rparr>)"
proof -
  obtain q' where q': "Dequeue Q (Queue w) = (Some t, q')" "contents q' = ts"
    using fifo_Dequeue [OF fifo head] by blast
  have "Len Q (Queue w) \<noteq> 0" using fifo_Len [OF fifo] head by simp
  from q'(2) runTask_taken [OF q this q'(1)] show thesis by (rule that)
qed

lemma updateTaskState_mu [simp]:
  "updateTaskState_body u st now (w_mu_update g w) = w_mu_update g (updateTaskState_body u st now w)"
  by (simp add: updateTaskState_body_def split: option.split)

lemma updateTaskState_frame [simp]:
  "w_mu (updateTaskState_body u st now w) = w_mu w" "Queue (updateTaskState_body u st now w) = Queue w"
  "TaskIds (updateTaskState_body u st now w) = TaskIds w"
  "engine (updateTaskState_body u st now w) = engine w"
  by (simp_all add: updateTaskState_body_def split: option.split)

lemma updateTaskState_quiet:
  "w_quiet w \<Longrightarrow> updateTaskState u st now w = Return () (updateTaskState_body u st now w)"
  unfolding updateTaskState_def by (rule wkr.with_lock_pure) simp_all

lemma wtask_updateTaskState:
  "wtask (updateTaskState_body u st now w) p =
     (if TaskIds w u = Some p then (wtask w p)\<lparr>State := st, EndTime := now\<rparr> else wtask w p)"
  by (simp add: updateTaskState_body_def split: option.split)

lemma wtask_Queue [simp]: "wtask (w\<lparr>Queue := q\<rparr>) = wtask w"
  "wtask (w\<lparr>engine := e\<rparr>) = wtask w"
  by (simp_all add: wtask_def fun_eq_iff)

lemma w_quiet_Queue [simp]: "w_quiet (w\<lparr>Queue := q\<rparr>) = w_quiet w"
  by (simp add: w_quiet_def)

lemma AddTask_w_simps [simp]:
  "AddTask_w Q t (w_mu_update g w) = w_mu_update g (AddTask_w Q t w)"
  "w_mu (AddTask_w Q t w) = w_mu w" "wtask (AddTask_w Q t w) = wtask w"
  "TaskIds (AddTask_w Q t w) = TaskIds w" "engine (AddTask_w Q t w) = engine w"
  "Queue (AddTask_w Q t w) = Enqueue Q (Queue w) t" "w_quiet (AddTask_w Q t w) = w_quiet w"
  by (simp_all add: AddTask_w_def wtask_def w_quiet_def fun_eq_iff)

text \<open>While a writer holds the lock and never gives it back, every operation that needs it waits.\<close>

lemma held_blocks:
  assumes "writer (w_mu w)"
  shows "GetTask_w u w = Blocked w" and "updateTaskState u st now w = Blocked w"
    and "MonitorTasks_step api order now w = Blocked w"
  using wkr.writer_excludes [OF assms] assms
  by (simp_all add: GetTask_w_def updateTaskState_def MonitorTasks_step_def lock_op_def can_lock_def)

section \<open>What a start does\<close>

text \<open>The three ends of \<open>StartTask\<close>: no Docker client, an error from Docker, a container.\<close>

lemma StartTask_cases:
  assumes "StartTask api now t w = ((result, u), w')"
  shows "(\<not> NewClientOk api \<and> u = None \<and> Error result = None \<and> State (wtask w' t) = Failed)
       \<or> (NewClientOk api \<and> u = None \<and> Error result \<noteq> None \<and> State (wtask w' t) = Failed)
       \<or> (NewClientOk api \<and> u = Some t \<and> Error result = None \<and> State (wtask w' t) = Running
           \<and> ContainerID (wtask w' t) = r_ContainerId result)"
  using assms
  by (auto simp: StartTask_def NewDocker_def zero_result_def Let_def split: if_splits prod.splits)

lemma StartTask_frame:
  assumes "StartTask api now t w = (r, w')"
  shows "Queue w' = Queue w" and "TaskIds w' = (TaskIds w)(ID (wtask w t) \<mapsto> t)"
    and "ID (wtask w' p) = ID (wtask w p)" and "StartTime (wtask w' t) = now"
    and "p \<noteq> t \<Longrightarrow> wtask w' p = wtask w p"
  using assms
  by (auto simp: StartTask_def Let_def split: option.splits prod.splits if_splits)

lemma NewConfig_frame [simp]:
  "NewConfig (x\<lparr>State := st\<rparr>) = NewConfig x" "NewConfig (x\<lparr>StartTime := now\<rparr>) = NewConfig x"
  by (simp_all add: NewConfig_def)

text \<open>With a Docker client, the start of a task is one call of \<open>Run\<close> and the record of its result.\<close>

definition started :: "docker_result \<Rightarrow> 'd \<Rightarrow> time \<Rightarrow> ptr \<Rightarrow> ('q, 'd) worker \<Rightarrow> ('q, 'd) worker" where
  "started result eng now t w =
     known t (edit t (\<lambda>x. if Error result \<noteq> None then x\<lparr>State := Failed\<rparr>
                          else x\<lparr>ContainerID := r_ContainerId result, State := Running\<rparr>)
       ((edit t (\<lambda>x. x\<lparr>StartTime := now\<rparr>) w)\<lparr>engine := eng\<rparr>))"

lemma run_scheduled_client:
  assumes "NewClientOk api"
    and "Run api \<lparr>d_Config = NewConfig (wtask w t), ContainerId = []\<rparr> (engine w) = (result, dk, eng)"
  shows "run_scheduled api now t w = Return (result, Some t) (started result eng now t w)"
  using assms by (simp add: run_scheduled_def StartTask_def NewDocker_def started_def Let_def)

lemma started_simps [simp]:
  "w_mu (started r e now t w) = w_mu w" "Queue (started r e now t w) = Queue w"
  "engine (started r e now t w) = e" "TaskIds (started r e now t w) = (TaskIds w)(ID (wtask w t) \<mapsto> t)"
  "ID (wtask (started r e now t w) p) = ID (wtask w p)"
  "StartTime (wtask (started r e now t w) t) = now"
  "State (wtask (started r e now t w) t) = (if Error r \<noteq> None then Failed else Running)"
  "Error r = None \<Longrightarrow> ContainerID (wtask (started r e now t w) t) = r_ContainerId r"
  by (simp_all add: started_def)

section \<open>What a round of the monitor does\<close>

text \<open>Docker knows the container and it has exited, or the inspection fails.\<close>

definition gone :: "'d docker_api \<Rightarrow> string \<Rightarrow> 'd \<Rightarrow> bool" where
  "gone api cid d =
     (case ContainerInspect api cid d of
        Inl err \<Rightarrow> True
      | Inr c \<Rightarrow> (case c_State c of None \<Rightarrow> False | Some st \<Rightarrow> Status st = ''exited''))"

text \<open>The inspection carries the two parts the monitor reads through pointers.\<close>

definition complete_reply :: "'d docker_api \<Rightarrow> string \<Rightarrow> 'd \<Rightarrow> bool" where
  "complete_reply api cid d =
     (case ContainerInspect api cid d of Inl err \<Rightarrow> True | Inr c \<Rightarrow> c_State c \<noteq> None \<and> c_Ports c \<noteq> None)"

definition with_ports :: "uuid \<Rightarrow> port_map \<Rightarrow> ('q, 'd) worker \<Rightarrow> ('q, 'd) worker" where
  "with_ports tid ps w =
     (case TaskIds w tid of None \<Rightarrow> w | Some p \<Rightarrow> edit p (\<lambda>x. x\<lparr>HostPorts := ps\<rparr>) w)"

definition monitored :: "'d docker_api \<Rightarrow> time \<Rightarrow> ptr \<Rightarrow> ('q, 'd) worker \<Rightarrow> ('q, 'd) worker" where
  "monitored api now t w =
     (let tid = ID (wtask w t); cid = ContainerID (wtask w t);
          w' = (if gone api cid (engine w) then updateTaskState_body tid Failed now w else w)
      in case ContainerInspect api cid (engine w) of
           Inl err \<Rightarrow> w'
         | Inr c \<Rightarrow> with_ports tid (the (c_Ports c)) w')"

lemma with_ports_simps [simp]:
  "w_mu (with_ports tid ps w) = w_mu w" "TaskIds (with_ports tid ps w) = TaskIds w"
  "engine (with_ports tid ps w) = engine w" "Queue (with_ports tid ps w) = Queue w"
  "ID (wtask (with_ports tid ps w) p) = ID (wtask w p)"
  "State (wtask (with_ports tid ps w) p) = State (wtask w p)"
  "ContainerID (wtask (with_ports tid ps w) p) = ContainerID (wtask w p)"
  "with_ports tid ps (w_mu_update g w) = w_mu_update g (with_ports tid ps w)"
  by (simp_all add: with_ports_def split: option.split)

lemma set_ports_quiet:
  assumes "w_quiet w"
  shows "set_ports tid (Some ps) w = Return () (with_ports tid ps w)"
proof -
  have "w_mu_update (\<lambda>x. x\<lparr>writer := False\<rparr>) (with_ports tid ps w) = with_ports tid ps w"
    by (rule wkr.upd_same) (use assms in \<open>simp add: w_quiet_def mutex_free_def\<close>)
  moreover have "set_ports_body tid (Some ps) v = Return () (with_ports tid ps v)" for v :: "('a, 'b) worker"
    by (simp add: set_ports_body_def with_ports_def split: option.split)
  ultimately show ?thesis
    using assms by (simp add: set_ports_def lock_op_def unlock_op_def wkr.upd_upd comp_def)
qed

lemma monitor_task_quiet:
  assumes q: "w_quiet w" and "complete_reply api (ContainerID (wtask w t)) (engine w)"
  shows "monitor_task api now t w = Return () (monitored api now t w)"
proof (cases "ContainerInspect api (ContainerID (wtask w t)) (engine w)")
  case (Inl err)
  then show ?thesis
    by (simp add: monitor_task_def InspectTask_def InspectContainer_def monitored_def gone_def
        updateTaskState_quiet [OF q] Let_def)
next
  case (Inr c)
  then obtain st ps where c: "c_State c = Some st" "c_Ports c = Some ps"
    using assms(2) by (auto simp: complete_reply_def)
  have "w_quiet (updateTaskState_body u Failed now w)" for u using q by (simp add: w_quiet_def)
  then show ?thesis
    using q c Inr
    by (simp add: monitor_task_def InspectTask_def InspectContainer_def monitored_def gone_def
        updateTaskState_quiet set_ports_quiet Let_def)
qed

text \<open>The table maps an identifier to a task that has it.\<close>

definition table_wf :: "('q, 'd) worker \<Rightarrow> bool" where
  "table_wf w \<longleftrightarrow> (\<forall>u p. TaskIds w u = Some p \<longrightarrow> ID (wtask w p) = u)"

lemma monitored_simps [simp]:
  "w_mu (monitored api now t w) = w_mu w" "TaskIds (monitored api now t w) = TaskIds w"
  "engine (monitored api now t w) = engine w" "Queue (monitored api now t w) = Queue w"
  "ID (wtask (monitored api now t w) p) = ID (wtask w p)"
  "ContainerID (wtask (monitored api now t w) p) = ContainerID (wtask w p)"
  by (simp_all add: monitored_def Let_def wtask_updateTaskState split: sum.split)

lemma monitored_State:
  assumes "TaskIds w (ID (wtask w t)) = Some t"
  shows "State (wtask (monitored api now t w) p) =
    (if p = t \<and> gone api (ContainerID (wtask w t)) (engine w) then Failed else State (wtask w p))"
  using assms by (auto simp: monitored_def Let_def wtask_updateTaskState split: sum.split)

lemma monitor_loop:
  assumes "w_quiet w" and "\<forall>t \<in> set ts. TaskIds w (ID (wtask w t)) = Some t"
    and "\<forall>t \<in> set ts. complete_reply api (ContainerID (wtask w t)) (engine w)"
  shows "\<exists>w'. for_each (monitor_task api now) ts w = Return () w' \<and> w_mu w' = w_mu w
    \<and> TaskIds w' = TaskIds w \<and> engine w' = engine w
    \<and> (\<forall>p. State (wtask w' p) =
        (if p \<in> set ts \<and> gone api (ContainerID (wtask w p)) (engine w) then Failed else State (wtask w p)))"
  using assms
proof (induction ts arbitrary: w)
  case (Cons t ts)
  let ?v = "monitored api now t w"
  have "w_quiet ?v" using Cons.prems(1) by (simp add: w_quiet_def)
  then obtain w' where w': "for_each (monitor_task api now) ts ?v = Return () w'" "w_mu w' = w_mu w"
      "TaskIds w' = TaskIds w" "engine w' = engine w"
      "\<forall>p. State (wtask w' p) = (if p \<in> set ts \<and> gone api (ContainerID (wtask w p)) (engine w) then Failed
        else State (wtask ?v p))"
    using Cons.IH [of ?v] Cons.prems(2,3) by auto
  have "for_each (monitor_task api now) (t # ts) w = Return () w'"
    using monitor_task_quiet [OF Cons.prems(1)] Cons.prems(3) w'(1) by simp
  then show ?case
    using w' monitored_State [of w t] Cons.prems(2) by auto
qed simp

lemma running_tasks_iff:
  "t \<in> set (running_tasks order w) \<longleftrightarrow>
     (\<exists>u \<in> set order. TaskIds w u = Some t \<and> State (wtask w t) = Running)"
  by (auto simp: running_tasks_def split: option.splits if_splits) metis

section \<open>A round of the run loop\<close>

text \<open>The state a round leaves when it starts the task at the head of the queue.\<close>

definition run_prepared :: "ptr \<Rightarrow> ('q, 'd) worker \<Rightarrow> ('q, 'd) worker" where
  "run_prepared t w =
     (if State (wtask w t) = Pending then edit t (\<lambda>x. x\<lparr>State := Scheduled\<rparr>) w else w)"

definition run_result :: "docker_result \<Rightarrow> 'd \<Rightarrow> time \<Rightarrow> ptr \<Rightarrow> ('q, 'd) worker \<Rightarrow> ('q, 'd) worker" where
  "run_result result eng now t w =
     (let s = started result eng now t (run_prepared t w)
      in if Error result = None then s else updateTaskState_body (ID (wtask w t)) Failed now s)"

lemma run_prepared_simps [simp]:
  "w_mu (run_prepared t w) = w_mu w" "Queue (run_prepared t w) = Queue w" "TaskIds (run_prepared t w) = TaskIds w"
  "engine (run_prepared t w) = engine w" "NewConfig (wtask (run_prepared t w) t) = NewConfig (wtask w t)"
  "ID (wtask (run_prepared t w) p) = ID (wtask w p)"
  "fresh (w_store (run_prepared t w)) = fresh (w_store w)"
  by (simp_all add: run_prepared_def)

lemma run_switch_prepared:
  "State (wtask w t) \<in> {Pending, Scheduled} \<Longrightarrow>
     run_switch api now t w = run_scheduled api now t (run_prepared t w)"
  by (auto simp: run_switch_def run_prepared_def)

lemma RunTasks_started:
  assumes q: "w_quiet w" and fifo: "fifo Q contents" and head: "contents (Queue w) = t # ts"
    and st: "State (wtask w t) \<in> {Pending, Scheduled}" and client: "NewClientOk api"
    and run: "Run api \<lparr>d_Config = NewConfig (wtask w t), ContainerId = []\<rparr> (engine w) = (result, dk, eng)"
  shows "\<exists>q'. contents q' = ts \<and> RunTasks_step Q api now w = Return () (run_result result eng now t (w\<lparr>Queue := q'\<rparr>))"
proof -
  obtain q' where q': "contents q' = ts"
      "runTask Q api now w = with_lock w_mu w_mu_update (run_switch api now t) (w\<lparr>Queue := q'\<rparr>)"
    using q fifo head by (rule runTask_cons)
  let ?v = "run_prepared t (w\<lparr>Queue := q'\<rparr>)"
  let ?s = "started result eng now t ?v"
  have "run_scheduled api now t ?v = Return (result, Some t) ?s"
    by (rule run_scheduled_client [OF client]) (use run in simp)
  moreover have "run_switch api now t (w\<lparr>Queue := q'\<rparr>) = run_scheduled api now t ?v"
    using st by (intro run_switch_prepared) simp
  moreover have "with_lock w_mu w_mu_update (run_switch api now t) (w\<lparr>Queue := q'\<rparr>)
      = run_switch api now t (w\<lparr>Queue := q'\<rparr>)"
    by (rule run_switch_locked) (use q st in auto)
  ultimately have rt: "runTask Q api now w = Return (result, Some t) ?s" using q'(2) by simp
  have len: "Len Q (Queue w) \<noteq> 0" using fifo_Len [OF fifo] head by simp
  have quiet: "w_quiet ?s" using q by (simp add: w_quiet_def)
  have "RunTasks_step Q api now w = Return () (run_result result eng now t (w\<lparr>Queue := q'\<rparr>))"
    using rt len
    by (cases "Error result") (simp_all add: RunTasks_step_def run_result_def Let_def updateTaskState_quiet [OF quiet])
  with q'(1) show ?thesis by blast
qed

lemma run_result_simps [simp]:
  "w_mu (run_result r e now t w) = w_mu w" "Queue (run_result r e now t w) = Queue w" "engine (run_result r e now t w) = e"
  "TaskIds (run_result r e now t w) = (TaskIds w)(ID (wtask w t) \<mapsto> t)"
  "ID (wtask (run_result r e now t w) p) = ID (wtask w p)"
  "StartTime (wtask (run_result r e now t w) t) = now"
  "State (wtask (run_result r e now t w) t) = (if Error r \<noteq> None then Failed else Running)"
  "Error r = None \<Longrightarrow> ContainerID (wtask (run_result r e now t w) t) = r_ContainerId r"
  "Error r \<noteq> None \<Longrightarrow> EndTime (wtask (run_result r e now t w) t) = now"
  by (auto simp add: run_result_def Let_def wtask_updateTaskState)

text \<open>A round that takes a Completed task waits for the lock it holds.\<close>

lemma RunTasks_completed:
  assumes q: "w_quiet w" and fifo: "fifo Q contents" and head: "contents (Queue w) = t # ts"
    and st: "State (wtask w t) = Completed"
  shows "\<exists>q'. contents q' = ts \<and>
    RunTasks_step Q api now w = Blocked (w_mu_update (\<lambda>x. x\<lparr>writer := True\<rparr>) (w\<lparr>Queue := q'\<rparr>))"
proof -
  obtain q' where q': "contents q' = ts"
      "runTask Q api now w = with_lock w_mu w_mu_update (run_switch api now t) (w\<lparr>Queue := q'\<rparr>)"
    using q fifo head by (rule runTask_cons)
  have "runTask Q api now w = Blocked (w_mu_update (\<lambda>x. x\<lparr>writer := True\<rparr>) (w\<lparr>Queue := q'\<rparr>))"
    using run_switch_completed [of "w\<lparr>Queue := q'\<rparr>" t api now] q st q'(2) by simp
  then show ?thesis using q'(1) fifo_Len [OF fifo] head by (auto simp: RunTasks_step_def)
qed

text \<open>A round that takes a Failed task reports it as a task of an unexpected state.\<close>

lemma RunTasks_failed:
  assumes q: "w_quiet w" and fifo: "fifo Q contents" and head: "contents (Queue w) = t # ts"
    and st: "State (wtask w t) = Failed"
  shows "\<exists>q'. contents q' = ts \<and>
    RunTasks_step Q api now w = Return () (updateTaskState_body (ID (wtask w t)) Failed now (w\<lparr>Queue := q'\<rparr>))"
proof -
  obtain q' where q': "contents q' = ts"
      "runTask Q api now w = with_lock w_mu w_mu_update (run_switch api now t) (w\<lparr>Queue := q'\<rparr>)"
    using q fifo head by (rule runTask_cons)
  have "with_lock w_mu w_mu_update (run_switch api now t) (w\<lparr>Queue := q'\<rparr>) = run_switch api now t (w\<lparr>Queue := q'\<rparr>)"
    by (rule run_switch_locked) (use q st in simp_all)
  then obtain res where "runTask Q api now w = Return (res, Some t) (w\<lparr>Queue := q'\<rparr>)" "Error res \<noteq> None"
    using q'(2) st by (simp add: run_switch_def)
  moreover have "w_quiet (w\<lparr>Queue := q'\<rparr>)" using q by simp
  ultimately show ?thesis using q'(1) fifo_Len [OF fifo] head
    by (intro exI [of _ q']) (simp add: RunTasks_step_def updateTaskState_quiet)
qed

text \<open>Without a Docker client the round panics.\<close>

lemma RunTasks_no_client:
  assumes q: "w_quiet w" and fifo: "fifo Q contents" and head: "contents (Queue w) = t # ts"
    and st: "State (wtask w t) \<in> {Pending, Scheduled}" and client: "\<not> NewClientOk api"
  shows "\<exists>w'. RunTasks_step Q api now w = Panic NilDeref w'"
proof -
  obtain q' where q': "runTask Q api now w = with_lock w_mu w_mu_update (run_switch api now t) (w\<lparr>Queue := q'\<rparr>)"
    using q fifo head by (rule runTask_cons)
  have "with_lock w_mu w_mu_update (run_switch api now t) (w\<lparr>Queue := q'\<rparr>)
      = run_switch api now t (w\<lparr>Queue := q'\<rparr>)"
    by (rule run_switch_locked) (use q st in auto)
  moreover have "run_switch api now t (w\<lparr>Queue := q'\<rparr>) = run_scheduled api now t (run_prepared t (w\<lparr>Queue := q'\<rparr>))"
    using st by (intro run_switch_prepared) simp
  moreover have "\<exists>w'. run_scheduled api now t v = Panic NilDeref w'" for v :: "('a, 'b) worker"
    using client by (simp add: run_scheduled_def StartTask_def NewDocker_def zero_result_def Let_def)
  ultimately obtain w' where "runTask Q api now w = Panic NilDeref w'" using q' by (metis (no_types))
  then show ?thesis using fifo_Len [OF fifo] head by (simp add: RunTasks_step_def)
qed

section \<open>Properties\<close>

text \<open>A worker with one queued task, and a Docker engine whose calls all succeed.\<close>

definition sample_worker :: "state \<Rightarrow> (ptr list, nat) worker" where
  "sample_worker st =
     \<lparr>w_Name = ''w1'', w_store = \<lparr>cells = (\<lambda>_. zero_task\<lparr>ID := 3, State := st, ContainerID := ''c0''\<rparr>), fresh = 1\<rparr>,
      Queue = [0], TaskIds = (\<lambda>_. None), w_TaskCount = 0, w_State = Ready, w_Stats = None, engine = 0,
      w_mu = unlocked\<rparr>"

definition sample_docker :: "nat docker_api" where
  "sample_docker =
     \<lparr>NewClientOk = True, ImagePull = (\<lambda>i d. (None, d)), ContainerCreate = (\<lambda>c d. (Inr ''c1'', Suc d)),
      ContainerStart = (\<lambda>c d. (None, d)), ContainerStop = (\<lambda>c d. (None, 0)),
      ContainerRemove = (\<lambda>c d. (None, d)),
      ContainerInspect = (\<lambda>c d. if c = ''c1'' then Inr \<lparr>c_State = Some \<lparr>Status = ''running'', c_Running = True\<rparr>,
          c_Ports = Some (\<lambda>_. None)\<rparr> else Inl ''No such container''),
      ContainerLogs = (\<lambda>c l d. Inl ''no logs'')\<rparr>"

lemma sample_worker_quiet: "w_quiet (sample_worker st)" "Queue (sample_worker st) = [0]"
    "wtask (sample_worker st) 0 = zero_task\<lparr>ID := 3, State := st, ContainerID := ''c0''\<rparr>"
  by (simp_all add: sample_worker_def w_quiet_def wtask_def)

text \<open>
  C27: a round of \<open>RunTasks\<close> with a Pending or Scheduled task at the head of the queue returns with
  the lock free: the task has left the queue and is in the table, started now. It is Running with
  the container Docker gave if \<open>Run\<close> reports no error, and Failed if it reports one.
\<close>

theorem RunTasks_starts:
  assumes q: "w_quiet w" and fifo: "fifo Q contents" and head: "contents (Queue w) = t # ts"
    and st: "State (wtask w t) \<in> {Pending, Scheduled}" and client: "NewClientOk api"
  shows "\<exists>w' result dk eng. RunTasks_step Q api now w = Return () w' \<and> w_quiet w' \<and> contents (Queue w') = ts
    \<and> Run api \<lparr>d_Config = NewConfig (wtask w t), ContainerId = []\<rparr> (engine w) = (result, dk, eng)
    \<and> engine w' = eng \<and> TaskIds w' = (TaskIds w)(ID (wtask w t) \<mapsto> t) \<and> StartTime (wtask w' t) = now
    \<and> (Error result = None \<longrightarrow> State (wtask w' t) = Running \<and> ContainerID (wtask w' t) = r_ContainerId result)
    \<and> (Error result \<noteq> None \<longrightarrow> State (wtask w' t) = Failed \<and> EndTime (wtask w' t) = now)"
proof -
  obtain result dk eng where run:
      "Run api \<lparr>d_Config = NewConfig (wtask w t), ContainerId = []\<rparr> (engine w) = (result, dk, eng)"
    by (metis prod_cases3)
  obtain q' where q': "contents q' = ts"
      "RunTasks_step Q api now w = Return () (run_result result eng now t (w\<lparr>Queue := q'\<rparr>))"
    using RunTasks_started [OF q fifo head st client run] by blast
  have "w_quiet (run_result result eng now t (w\<lparr>Queue := q'\<rparr>))" using q by (simp add: w_quiet_def)
  with q' run show ?thesis
    by (intro exI [of _ "run_result result eng now t (w\<lparr>Queue := q'\<rparr>)"] exI [of _ result] exI [of _ dk] exI [of _ eng])
      simp
qed

theorem RunTasks_starts_witness:
  "\<exists>w'. RunTasks_step list_queue sample_docker 70 (sample_worker Pending) = Return () w' \<and> Queue w' = []
    \<and> TaskIds w' 3 = Some 0 \<and> State (wtask w' 0) = Running \<and> ContainerID (wtask w' 0) = ''c1''"
proof -
  let ?w = "sample_worker Pending"
  have run: "Run sample_docker \<lparr>d_Config = NewConfig (wtask ?w 0), ContainerId = []\<rparr> (engine ?w)
      = (\<lparr>Error = None, Action = ''start'', r_ContainerId = ''c1'', Result = ''success''\<rparr>,
         \<lparr>d_Config = NewConfig (wtask ?w 0), ContainerId = ''c1''\<rparr>, 1)"
    by (simp add: Run_def sample_docker_def InspectContainer_def is_running_status_def sample_worker_def)
  have "State (wtask ?w 0) \<in> {Pending, Scheduled}" "NewClientOk sample_docker" "ID (wtask ?w 0) = 3"
    by (simp_all add: sample_worker_quiet(3) sample_docker_def)
  then show ?thesis
    using RunTasks_starts [OF sample_worker_quiet(1) fifo_list_queue, of Pending 0 "[]" sample_docker 70] run
    by (auto simp: sample_worker_quiet(2))
qed

text \<open>
  C28: a round of \<open>MonitorTasks\<close> over a table whose containers Docker can describe returns with the
  lock free. Of the tasks in the table exactly the Running ones whose container has exited or
  cannot be inspected change their state, and they become Failed: no task ever becomes Completed
  this way, however its container ended.
\<close>

theorem MonitorTasks_correct:
  assumes q: "w_quiet w" and wf: "table_wf w" and all: "dom (TaskIds w) \<subseteq> set order"
    and replies: "\<forall>u p. TaskIds w u = Some p \<longrightarrow> complete_reply api (ContainerID (wtask w p)) (engine w)"
  shows "\<exists>w'. MonitorTasks_step api order now w = Return () w' \<and> w_quiet w' \<and> TaskIds w' = TaskIds w
    \<and> (\<forall>u p. TaskIds w u = Some p \<longrightarrow> State (wtask w' p) =
        (if State (wtask w p) = Running \<and> gone api (ContainerID (wtask w p)) (engine w) then Failed
         else State (wtask w p)))"
proof -
  let ?ts = "running_tasks order w" and ?w = "w_mu_update (\<lambda>x. x\<lparr>writer := True\<rparr>) w"
  have release: "w_mu_update (\<lambda>x. x\<lparr>writer := False\<rparr>) w = w"
    by (rule wkr.upd_same) (use q in \<open>simp add: w_quiet_def mutex_free_def\<close>)
  have same: "running_tasks order ?w = ?ts" by (simp add: running_tasks_def cong: option.case_cong)
  have step: "MonitorTasks_step api order now w = for_each (monitor_task api now) ?ts w"
    using q release same by (simp add: MonitorTasks_step_def lock_op_def unlock_op_def wkr.upd_upd comp_def)
  have own: "\<forall>t \<in> set ?ts. TaskIds w (ID (wtask w t)) = Some t"
    using wf by (auto simp: running_tasks_iff table_wf_def)
  have ok: "\<forall>t \<in> set ?ts. complete_reply api (ContainerID (wtask w t)) (engine w)"
    using replies by (auto simp: running_tasks_iff)
  obtain w' where w': "for_each (monitor_task api now) ?ts w = Return () w'" "w_mu w' = w_mu w"
      "TaskIds w' = TaskIds w"
      "\<forall>p. State (wtask w' p) = (if p \<in> set ?ts \<and> gone api (ContainerID (wtask w p)) (engine w) then Failed
        else State (wtask w p))"
    using monitor_loop [OF q own ok] by blast
  moreover have "p \<in> set ?ts \<longleftrightarrow> State (wtask w p) = Running" if "TaskIds w u = Some p" for u p
    using that all by (auto simp: running_tasks_iff)
  ultimately show ?thesis using step q by (auto simp: w_quiet_def)
qed

theorem MonitorTasks_correct_witness:
  "\<exists>w'. MonitorTasks_step sample_docker [3] 70 ((sample_worker Running)\<lparr>TaskIds := [3 \<mapsto> 0]\<rparr>) = Return () w'
    \<and> State (wtask w' 0) = Failed"
proof -
  let ?w = "(sample_worker Running)\<lparr>TaskIds := [3 \<mapsto> 0]\<rparr>"
  have t: "wtask ?w 0 = zero_task\<lparr>ID := 3, State := Running, ContainerID := ''c0''\<rparr>"
    by (simp add: sample_worker_def wtask_def)
  have "w_quiet ?w" using sample_worker_quiet(1) by (simp add: w_quiet_def)
  moreover have "table_wf ?w" using t by (simp add: table_wf_def)
  moreover have "\<forall>u p. TaskIds ?w u = Some p \<longrightarrow> complete_reply sample_docker (ContainerID (wtask ?w p)) (engine ?w)"
    using t by (simp add: complete_reply_def sample_docker_def)
  ultimately show ?thesis
    using MonitorTasks_correct [of ?w "[3]" sample_docker 70] t by (auto simp: gone_def sample_docker_def)
qed

text \<open>
  \<open>GetTasks\<close> never returns: it takes the read lock and releases the write lock, which nobody
  holds, a fatal error that ends the worker. And without a Docker client \<open>StartTask\<close> marks the task
  Failed but reports no error, so \<open>runTask\<close> dereferences the task it was not given and the worker
  panics as well.
\<close>

theorem worker_crashes:
  assumes q: "w_quiet w" and fifo: "fifo Q contents" and head: "contents (Queue w) = t # ts"
    and st: "State (wtask w t) \<in> {Pending, Scheduled}" and client: "\<not> NewClientOk api"
  shows "(\<exists>w'. GetTasks_w order w = Panic FatalUnlock w') \<and> (\<exists>w'. RunTasks_step Q api now w = Panic NilDeref w')"
proof
  have "\<not> writer (w_mu w)" using q by (simp add: w_quiet_def mutex_free_def)
  then show "\<exists>w'. GetTasks_w order w = Panic FatalUnlock w'"
    using q by (simp add: GetTasks_w_def rlock_op_def unlock_op_def)
  show "\<exists>w'. RunTasks_step Q api now w = Panic NilDeref w'" by (rule RunTasks_no_client [OF assms])
qed

theorem worker_crashes_witness:
  "(\<exists>w'. GetTasks_w [] (sample_worker Pending) = Panic FatalUnlock w')
   \<and> (\<exists>w'. RunTasks_step list_queue (sample_docker\<lparr>NewClientOk := False\<rparr>) 70 (sample_worker Pending) = Panic NilDeref w')"
  by (rule worker_crashes [OF sample_worker_quiet(1) fifo_list_queue, where t = 0 and ts = "[]"])
    (simp_all add: sample_worker_quiet(2,3))

end
