(* ===== verification/Worker_Http.thy ===== *)
theory Worker_Http
  imports Worker Go_Http Pages
begin

text \<open>
  The handlers of the worker's API, \<open>src/internal/worker/http/handlers.go\<close>. The state of the server is the
  worker's record. JSON decoding and encoding, \<open>uuid.Parse\<close>, \<open>uuid.New\<close> and \<open>chi.URLParam\<close> are inputs.
\<close>

record pagination_map =
  page :: go_int
  limit :: go_int
  total_tasks :: go_int
  total_pages :: go_int
  has_next :: bool
  has_prev :: bool

datatype worker_json =
    W_Event task_event
  | W_Page "task list" pagination_map
  | W_Task task
  | W_Stats stats
  | W_Status string

type_synonym ('q, 'd) worker_handler = "(worker_json, ('q, 'd) worker) handler"

section \<open>Starting a task\<close>

record start_request =
  content_length :: go_int
  decoded :: "error + task_event"             \<comment> \<open>what \<open>d.Decode(&te)\<close> gives\<close>
  new_task_id :: uuid
  arrival :: time

definition accepted_event :: "start_request \<Rightarrow> task_event \<Rightarrow> task_event" where
  "accepted_event env te =
     (let te = te\<lparr>ev_Task := (ev_Task te)\<lparr>ID := new_task_id env\<rparr>\<rparr>;
          now = arrival env;
          te = te\<lparr>ev_Timestamp := now\<rparr>;
          te = te\<lparr>ev_Task := (ev_Task te)\<lparr>StartTime := now\<rparr>\<rparr>
      in te\<lparr>ev_Task := (ev_Task te)\<lparr>State := Pending\<rparr>\<rparr>)"

definition StartTaskHandler_w :: "'q queue_api \<Rightarrow> start_request \<Rightarrow> ('q, 'd) worker_handler" where
  "StartTaskHandler_w Q env r w =
     (if content_length env = 0
      then Return [SetHeader ''Content-Type'' ''text/plain; charset=utf-8'',
                   SetHeader ''X-Content-Type-Options'' ''nosniff'', WriteHeader 204,
                   WriteBody (Lines (''Request body is empty'' @ [CHR 0x0A]))] w
      else (case decoded env of
              Inl err \<Rightarrow> Return (writeErrorResponse 400 (''error parsing JSON: '' @ err)) w
            | Inr te \<Rightarrow>
                (let te = accepted_event env te;
                     (p, h) = alloc (ev_Task te) (w_store w);
                     w = AddTask_w Q p (w\<lparr>w_store := h\<rparr>)
                 in Return (writeSuccessResponse 201 (W_Event (te\<lparr>ev_Task := wtask w p\<rparr>))) w)))"

section \<open>Logs\<close>

text \<open>
  \<open>marshal\<close> is \<open>json.Marshal\<close> of an entry. The callback's state is the log of writes; the flush after
  each entry has no effect on what is written.
\<close>

definition write_entry :: "(docker_log \<Rightarrow> error + string) \<Rightarrow> worker_json write_event list log_callback" where
  "write_entry marshal entry ws =
     (case marshal entry of
        Inl err \<Rightarrow> (Some (''could not marshall log entry:  '' @ err), ws)
      | Inr logEntry \<Rightarrow> (None, ws @ [WriteBody (Lines logEntry), WriteBody (Lines [CHR 0x0A])]))"

definition GetDockerTaskLogsHandler ::
    "'d docker_api \<Rightarrow> (string \<Rightarrow> error + uuid) \<Rightarrow> (docker_log \<Rightarrow> error + string) \<Rightarrow> bool \<Rightarrow> string
       \<Rightarrow> ('q, 'd) worker_handler" where
  "GetDockerTaskLogsHandler api uuid_parse marshal flusher taskId r w =
     (if taskId = [] then Return (writeErrorResponse 400 (''Task ID is empty. Please provide one '' @ [CHR 0x0A])) w
      else (case uuid_parse taskId of
              Inl err \<Rightarrow> Return (writeErrorResponse 400 (''Task ID is not a valid UUID '' @ [CHR 0x0A])) w
            | Inr tid \<Rightarrow>
                andthen (GetTask_w tid w) (\<lambda>found w.
                  case found of (t, ok) \<Rightarrow>
                    if \<not> ok then Return (writeErrorResponse 404 ''task not found on this worker'') w
                    else if ContainerID t = []
                    then Return (writeErrorResponse 409 ''task has no container yet (not running)'') w
                    else (let logResponse = GetDockerTaskLogs api t (engine w)
                          in case l_Error logResponse of
                               Some err \<Rightarrow>
                                 Return (writeErrorResponse 500 (''failed to get logs: '' @ err)) w
                             | None \<Rightarrow>
                                 if \<not> flusher
                                 then Return (writeErrorResponse 500 ''streaming not supported'') w
                                 else (case ProcessDockerStream (write_entry marshal) logResponse
                                              [SetHeader ''Content-Type'' ''application/x-ndjson'', WriteHeader 200] of
                                         (errp, ws) \<Rightarrow> Return ws w)))))"

section \<open>Listing\<close>

text \<open>\<open>limit <= 1000\<close> in the source looks at the default, not at the number just parsed.\<close>

definition page_param :: "request \<Rightarrow> go_int" where
  "page_param r =
     (let pageStr = r_Query r ''page'' in
      if pageStr \<noteq> []
      then (case Atoi pageStr of None \<Rightarrow> 1 | Some p \<Rightarrow> if 0 < sint p then p else 1)
      else 1)"

definition limit_param :: "request \<Rightarrow> go_int" where
  "limit_param r =
     (let limit = (100 :: go_int); limitStr = r_Query r ''limit'' in
      if limitStr \<noteq> []
      then (case Atoi limitStr of
              None \<Rightarrow> limit
            | Some l \<Rightarrow> if 0 < sint l \<and> sint limit \<le> 1000 then l else limit)
      else limit)"

definition table_tasks :: "uuid list \<Rightarrow> ('q, 'd) worker \<Rightarrow> task list" where
  "table_tasks order w =
     concat (map (\<lambda>tid. case TaskIds w tid of None \<Rightarrow> [] | Some t \<Rightarrow> [wtask w t]) order)"

definition window :: "go_int \<Rightarrow> go_int \<Rightarrow> go_int \<Rightarrow> go_int \<times> go_int" where
  "window pg per_page totalTasks =
     (let start = (pg - 1) * per_page; stop = start + per_page
      in if sint totalTasks \<le> sint start then (totalTasks, totalTasks)
         else if sint totalTasks < sint stop then (start, totalTasks)
         else (start, stop))"

definition GetTasksHandler_w :: "uuid list \<Rightarrow> ('q, 'd) worker_handler" where
  "GetTasksHandler_w order r w =
     (let pg = page_param r; per_page = limit_param r
      in andthen (with_rlock w_mu w_mu_update (\<lambda>w. Return (table_tasks order w) w) w) (\<lambda>tasks w.
           (let totalTasks = go_len tasks;
                totalPages = go_div (totalTasks + per_page - 1) per_page;
                (start, stop) = window pg per_page totalTasks
            in andthen
                 (if sint start < sint stop
                  then (case go_slice tasks start stop of
                          None \<Rightarrow> Panic SliceBounds w
                        | Some ts \<Rightarrow> Return ts w)
                  else Return [] w)
                 (\<lambda>pagedTasks.
                    Return (writeSuccessResponse 200
                      (W_Page pagedTasks
                         \<lparr>page = pg, limit = per_page, total_tasks = totalTasks, total_pages = totalPages,
                          has_next = sint pg < sint totalPages, has_prev = 1 < sint pg\<rparr>))))))"

section \<open>Stopping, statistics, health\<close>

definition StopTaskHandler_w :: "'q queue_api \<Rightarrow> (string \<Rightarrow> error + uuid) \<Rightarrow> string \<Rightarrow> ('q, 'd) worker_handler" where
  "StopTaskHandler_w Q uuid_parse taskID r w =
     (if taskID = []
      then Return (writeErrorResponse 400 (''task id is not passed in request '' @ taskID)) w
      else andthen (lock_op w_mu w_mu_update w) (\<lambda>_ w.
        case uuid_parse taskID of
          Inl err \<Rightarrow>
            andthen (unlock_op w_mu w_mu_update w) (\<lambda>_.
              Return (writeErrorResponse 400 (''COuld not parse id '' @ taskID)))
        | Inr tId \<Rightarrow>
            (case TaskIds w tId of
               None \<Rightarrow>
                 andthen (unlock_op w_mu w_mu_update w) (\<lambda>_.
                   Return (writeErrorResponse 400 (''Task with ID '' @ taskID @ '' not found.'' @ [CHR 0x0A])))
             | Some taskToStop \<Rightarrow>
                 (let w = edit taskToStop (\<lambda>t. t\<lparr>State := Completed\<rparr>) w;
                      w = AddTask_w Q taskToStop w
                  in andthen (unlock_op w_mu w_mu_update w) (\<lambda>_ w.
                       Return (writeSuccessResponse 200 (W_Task (wtask w taskToStop))) w)))))"

definition GetStatsHandler :: "('q, 'd) worker_handler" where
  "GetStatsHandler r w =
     andthen (rlock_op w_mu w_mu_update w) (\<lambda>_ w.
       case w_Stats w of
         None \<Rightarrow> andthen (runlock_op w_mu w_mu_update w) (\<lambda>_. Return (writeErrorResponse 400 ''No stats to show''))
       | Some statsCopy \<Rightarrow>
           andthen (runlock_op w_mu w_mu_update w) (\<lambda>_. Return (writeSuccessResponse 200 (W_Stats statsCopy))))"

definition HealthHandler :: "('q, 'd) worker_handler" where
  "HealthHandler r w = Return (writeSuccessResponse 200 (W_Status ''up'')) w"

section \<open>With the lock free\<close>

lemma StopTaskHandler_w_quiet:
  assumes "w_quiet w" and "taskID \<noteq> []" and "uuid_parse taskID = Inr u" and "TaskIds w u = Some t"
  shows "StopTaskHandler_w Q uuid_parse taskID r w =
    (let w' = AddTask_w Q t (edit t (\<lambda>x. x\<lparr>State := Completed\<rparr>) w)
     in Return (writeSuccessResponse 200 (W_Task (wtask w' t))) w')"
proof -
  let ?w = "AddTask_w Q t (edit t (\<lambda>x. x\<lparr>State := Completed\<rparr>) w)"
  have "w_mu_update (\<lambda>x. x\<lparr>writer := False\<rparr>) ?w = ?w"
    by (rule wkr.upd_same) (use assms(1) in \<open>simp add: w_quiet_def mutex_free_def\<close>)
  then show ?thesis
    using assms
    by (simp add: StopTaskHandler_w_def lock_op_def unlock_op_def wkr.upd_upd Let_def comp_def)
qed

lemma table_tasks_quiet:
  "w_quiet w \<Longrightarrow> with_rlock w_mu w_mu_update (\<lambda>w. Return (table_tasks order w) w) w = Return (table_tasks order w) w"
  by (rule wkr.with_rlock_pure) (simp_all add: table_tasks_def cong: option.case_cong)

section \<open>The listing\<close>

lemma page_param_pos: "1 \<le> sint (page_param r)"
  by (auto simp: page_param_def Let_def split: option.split)

lemma limit_param_pos: "1 \<le> sint (limit_param r)"
  by (auto simp: limit_param_def Let_def split: option.split)

text \<open>The window of a page that does not overflow.\<close>

lemma window_page:
  assumes p: "1 \<le> sint pg" "1 \<le> sint per_page" and fits: "sint pg * sint per_page < 2 ^ 63"
    and len: "int (length xs) < 2 ^ 62"
  shows "(case window pg per_page (go_len xs) of (start, stop) \<Rightarrow>
      if sint start < sint stop then go_slice xs start stop else Some [])
    = Some (page_of xs (nat (sint pg)) (nat (sint per_page)))"
proof -
  have len': "int (length xs) < 2 ^ 63" using len by simp
  note n = sint_go_len [OF len']
  note e = page_start_exact [OF p fits]
  let ?start = "page_start pg per_page"
  have start: "(pg - 1) * per_page = ?start" by (simp add: page_start_def)
  show ?thesis
  proof (cases "int (length xs) \<le> sint ?start")
    case True
    have "page_of xs (nat (sint pg)) (nat (sint per_page)) = []"
    proof (rule page_of_past_end)
      have "int (length xs) \<le> int ((nat (sint pg) - 1) * nat (sint per_page))"
        using True e(1) p by (simp add: of_nat_diff)
      then show "length xs \<le> (nat (sint pg) - 1) * nat (sint per_page)" by (simp only: of_nat_le_iff)
    qed
    with True n show ?thesis by (simp add: window_def Let_def start)
  next
    case False
    have "window pg per_page (go_len xs) = (?start, go_min (?start + per_page) (go_len xs))"
      using False n by (simp add: window_def Let_def start go_min_def not_less)
    moreover have "sint ?start < sint (go_min (?start + per_page) (go_len xs))"
      using False n e p by (simp add: go_min_def algebra_simps)
    ultimately show ?thesis
      using go_slice_page [OF p fits len'] False by simp
  qed
qed

lemma GetTasksHandler_w_quiet:
  assumes "w_quiet w"
  shows "GetTasksHandler_w order r w =
    (let tasks = table_tasks order w; (start, stop) = window (page_param r) (limit_param r) (go_len tasks)
     in case (if sint start < sint stop then go_slice tasks start stop else Some []) of
          None \<Rightarrow> Panic SliceBounds w
        | Some ts \<Rightarrow> Return (writeSuccessResponse 200 (W_Page ts
            \<lparr>page = page_param r, limit = limit_param r, total_tasks = go_len tasks,
             total_pages = go_div (go_len tasks + limit_param r - 1) (limit_param r),
             has_next = sint (page_param r) < sint (go_div (go_len tasks + limit_param r - 1) (limit_param r)),
             has_prev = 1 < sint (page_param r)\<rparr>)) w)"
  using table_tasks_quiet [OF assms]
  by (simp add: GetTasksHandler_w_def Let_def split: prod.split option.split)

section \<open>The log lines\<close>

lemma GetTask_w_quiet:
  "w_quiet w \<Longrightarrow> GetTask_w u w
     = Return (case TaskIds w u of None \<Rightarrow> (zero_task, False) | Some t \<Rightarrow> (wtask w t, True)) w"
  unfolding GetTask_w_def by (rule wkr.with_rlock_pure) (simp_all cong: option.case_cong)

definition log_lines :: "(docker_log \<Rightarrow> string) \<Rightarrow> docker_log \<Rightarrow> 'b write_event list" where
  "log_lines line e = [WriteBody (Lines (line e)), WriteBody (Lines [CHR 0x0A])]"

lemma bodies_log_lines:
  "bodies (concat (map (log_lines line \<circ> g) fs)) = concat (map (\<lambda>f. [Lines (line (g f)), Lines [CHR 0x0A]]) fs)"
  by (induction fs) (simp_all add: log_lines_def)

lemma deliver_lines:
  assumes "\<And>e. marshal e = Inr (line e)"
  shows "deliver (write_entry marshal) es ws = (None, ws @ concat (map (log_lines line) es))"
  by (induction es arbitrary: ws) (simp_all add: write_entry_def assms log_lines_def)

lemma write_entries:
  assumes "\<And>e. marshal e = Inr (line e)"
  shows "\<exists>err. process_frames (write_entry marshal) (bytes, failure) ws
    = (err, ws @ concat (map (log_lines line) (map entry_of (fst (decode_all decode_frame bytes)))))"
  by (cases "decode_all decode_frame bytes")
    (simp add: process_frames_decode deliver_lines [OF assms])

section \<open>Properties\<close>

text \<open>
  Listing the tasks of a worker never changes the worker and never keeps its lock, even when the
  page overflows and the slice panics. When it does not overflow, the answer has status 200 and
  carries the page of the table that was asked for. A limit is accepted however large it is: the
  check \<open>limit <= 1000\<close> looks at the default.
\<close>

theorem GetTasksHandler_w_correct:
  assumes "w_quiet w" and "int (length (table_tasks order w)) < 2 ^ 62"
  shows "state_of (GetTasksHandler_w order r w) = w \<and> \<not> waits (GetTasksHandler_w order r w)
    \<and> (sint (page_param r) * sint (limit_param r) < 2 ^ 63 \<longrightarrow>
        (\<exists>md. GetTasksHandler_w order r w = Return (writeSuccessResponse 200
            (W_Page (page_of (table_tasks order w) (nat (sint (page_param r))) (nat (sint (limit_param r)))) md)) w))
    \<and> (\<forall>l. 1 \<le> sint l \<and> r_Query r ''limit'' = show_int l \<longrightarrow> limit_param r = l)"
proof (intro conjI allI impI)
  show "state_of (GetTasksHandler_w order r w) = w" "\<not> waits (GetTasksHandler_w order r w)"
    by (simp_all add: GetTasksHandler_w_quiet [OF assms(1)] Let_def split: prod.split option.split)
  show "limit_param r = l" if "1 \<le> sint l \<and> r_Query r ''limit'' = show_int l" for l
    using that show_nat_nonempty by (simp add: limit_param_def Let_def Atoi_show_int) (simp add: show_int_def)
  assume fits: "sint (page_param r) * sint (limit_param r) < 2 ^ 63"
  show "\<exists>md. GetTasksHandler_w order r w = Return (writeSuccessResponse 200
      (W_Page (page_of (table_tasks order w) (nat (sint (page_param r))) (nat (sint (limit_param r)))) md)) w"
  proof -
    obtain start stop where w: "window (page_param r) (limit_param r) (go_len (table_tasks order w)) = (start, stop)"
      by (cases "window (page_param r) (limit_param r) (go_len (table_tasks order w))")
    have slice: "(if sint start < sint stop then go_slice (table_tasks order w) start stop else Some [])
        = Some (page_of (table_tasks order w) (nat (sint (page_param r))) (nat (sint (limit_param r))))"
      using window_page [OF page_param_pos limit_param_pos fits assms(2)] by (simp only: w prod.case)
    show ?thesis
      unfolding GetTasksHandler_w_quiet [OF assms(1)] Let_def w prod.case slice option.case by blast
  qed
qed

theorem GetTasksHandler_w_correct_witness:
  "\<exists>md. GetTasksHandler_w [3] (\<lparr>r_Method = ''GET'', r_Path = ''/tasks'', r_Header = (\<lambda>_. []),
        r_Query = (\<lambda>k. if k = ''limit'' then show_int 5000 else []), r_correlation = None\<rparr>)
      ((sample_worker Running)\<lparr>TaskIds := [3 \<mapsto> 0]\<rparr>)
    = Return (writeSuccessResponse 200 (W_Page [wtask (sample_worker Running) 0] md))
        ((sample_worker Running)\<lparr>TaskIds := [3 \<mapsto> 0]\<rparr>)"
proof -
  let ?w = "(sample_worker Running)\<lparr>TaskIds := [3 \<mapsto> 0]\<rparr>"
  let ?r = "\<lparr>r_Method = ''GET'', r_Path = ''/tasks'', r_Header = (\<lambda>_. []),
        r_Query = (\<lambda>k. if k = ''limit'' then show_int 5000 else []), r_correlation = None\<rparr>"
  have q: "w_quiet ?w" using sample_worker_quiet(1) by (simp add: w_quiet_def)
  have tab: "table_tasks [3] ?w = [wtask (sample_worker Running) 0]" by (simp add: table_tasks_def wtask_def)
  then have len: "int (length (table_tasks [3] ?w)) < 2 ^ 62" by simp
  note at = GetTasksHandler_w_correct [OF q len, of ?r]
  have lim: "limit_param ?r = 5000"
    using at by (auto dest!: spec [of _ 5000])
  have pg: "page_param ?r = 1" by (simp add: page_param_def Let_def)
  have "page_of [x] 1 5000 = [x]" for x :: task by (simp add: page_of_def)
  then show ?thesis using at unfolding lim pg tab by simp
qed

text \<open>
  C31: a request for the logs of a task is answered with status 400 for an empty or malformed
  identifier, 404 for a task the worker does not have, 409 for one without a container and 500 when
  Docker gives no stream. Otherwise the status is 200, whatever happens to the stream: its request
  has been cancelled by then (\<open>defer cancel()\<close> in \<open>GetDockerContainerLogs\<close>), so the reader delivers only
  a first part of Docker's bytes, if any. The body is one line of JSON per frame that is whole in
  this part, in the order of the stream, and nothing else: the later frames of the log are missing
  and no line tells so. The worker is not changed.
\<close>

theorem GetDockerTaskLogsHandler_correct:
  assumes q: "w_quiet w" and json: "\<And>e. marshal e = Inr (line e)"
  shows "\<exists>ws. GetDockerTaskLogsHandler api uuid_parse marshal True taskId r w = Return ws w
    \<and> status_of ws =
      (if taskId = [] then 400
       else case uuid_parse taskId of Inl e \<Rightarrow> 400
       | Inr u \<Rightarrow> (case TaskIds w u of None \<Rightarrow> 404
       | Some t \<Rightarrow> if ContainerID (wtask w t) = [] then 409
           else case ContainerLogs api (ContainerID (wtask w t)) logs_request (engine w) of Inl e \<Rightarrow> 500 | Inr s \<Rightarrow> 200))
    \<and> (\<forall>u t reader fs unread. taskId \<noteq> [] \<and> uuid_parse taskId = Inr u \<and> TaskIds w u = Some t
        \<and> ContainerID (wtask w t) \<noteq> []
        \<and> ContainerLogs api (ContainerID (wtask w t)) logs_request (engine w) = Inr reader
        \<and> (\<forall>f \<in> set fs. frame_ok f) \<and> fst (r_live reader) = concat (map encode_frame fs)
        \<and> fst (r_live reader) = fst (r_cancelled reader) @ unread
        \<longrightarrow> (\<exists>n. whole_frames (length (fst (r_cancelled reader))) fs n
              \<and> bodies ws = concat (map (\<lambda>f. [Lines (line (entry_of f)), Lines [CHR 0x0A]]) (take n fs))))"
proof -
  let ?head = "[SetHeader ''Content-Type'' ''application/x-ndjson'', WriteHeader 200]"
  note get = GetTask_w_quiet [OF q]
  show ?thesis
  proof (cases "taskId = [] \<or> (\<exists>e. uuid_parse taskId = Inl e)")
    case True
    then show ?thesis by (cases "taskId = []") (auto simp: GetDockerTaskLogsHandler_def)
  next
    case False
    then obtain u where u: "taskId \<noteq> []" "uuid_parse taskId = Inr u" by (cases "uuid_parse taskId") auto
    show ?thesis
    proof (cases "TaskIds w u")
      case None
      with u get show ?thesis by (simp add: GetDockerTaskLogsHandler_def)
    next
      case (Some t)
      note t = this
      show ?thesis
      proof (cases "ContainerLogs api (ContainerID (wtask w t)) logs_request (engine w)")
        case (Inl e)
        with u t get show ?thesis
          by (simp add: GetDockerTaskLogsHandler_def GetDockerTaskLogs_def GetDockerContainerLogs_def)
      next
        case (Inr reader)
        let ?bytes = "fst (r_cancelled reader)"
        let ?out = "concat (map (log_lines line) (map entry_of (fst (decode_all decode_frame ?bytes))))"
        obtain e where out: "process_frames (write_entry marshal) (r_cancelled reader) ?head = (e, ?head @ ?out)"
          using write_entries [of marshal line ?bytes "snd (r_cancelled reader)" ?head] json by auto
        have run: "ContainerID (wtask w t) \<noteq> [] \<Longrightarrow>
            GetDockerTaskLogsHandler api uuid_parse marshal True taskId r w = Return (?head @ ?out) w"
          using u t Inr get out
          by (simp add: GetDockerTaskLogsHandler_def GetDockerTaskLogs_def GetDockerContainerLogs_def
              ProcessDockerStream_def)
        have body: "\<exists>n. whole_frames (length ?bytes) fs n
            \<and> bodies (?head @ ?out) = concat (map (\<lambda>f. [Lines (line (entry_of f)), Lines [CHR 0x0A]]) (take n fs))"
          if fs: "\<forall>f \<in> set fs. frame_ok f" and cut: "concat (map encode_frame fs) = ?bytes @ unread" for fs unread
        proof -
          obtain n left where "decode_all decode_frame ?bytes = (take n fs, left)" "whole_frames (length ?bytes) fs n"
            using decode_cut [OF fs cut] by blast
          then show ?thesis by (intro exI [of _ n]) (simp add: bodies_log_lines)
        qed
        show ?thesis
        proof (cases "ContainerID (wtask w t) = []")
          case True
          with u t get show ?thesis by (simp add: GetDockerTaskLogsHandler_def)
        next
          case False
          have status: "status_of (?head @ ?out) = 200" by simp
          have here: "\<exists>n. whole_frames (length (fst (r_cancelled v))) fs n
              \<and> bodies (?head @ ?out) = concat (map (\<lambda>f. [Lines (line (entry_of f)), Lines [CHR 0x0A]]) (take n fs))"
            if "uuid_parse taskId = Inr x" "TaskIds w x = Some y"
              "ContainerLogs api (ContainerID (wtask w y)) logs_request (engine w) = Inr v"
              "\<forall>f \<in> set fs. frame_ok f" "fst (r_live v) = concat (map encode_frame fs)"
              "fst (r_live v) = fst (r_cancelled v) @ unread" for x y v fs unread
          proof -
            have "v = reader" using that(1-3) u t Inr by simp
            then show ?thesis using body [OF that(4), of unread] that(5,6) by simp
          qed
          show ?thesis
            by (intro exI [of _ "?head @ ?out"] conjI allI impI; (elim conjE)?)
              (use run [OF False] status u t Inr False here in \<open>simp; fail | blast\<close>)+
        qed
      qed
    qed
  qed
qed

text \<open>A container with a log of two lines, of whose second frame only the header has arrived when the context is cancelled.\<close>

definition sample_frames :: "frame list" where
  "sample_frames = [(1, ''ab''), (2, ''cde'')]"

definition sample_reader :: logs_reader where
  "sample_reader =
     \<lparr>r_live = (concat (map encode_frame sample_frames), None),
      r_cancelled = (take 18 (concat (map encode_frame sample_frames)), Some ''context canceled'')\<rparr>"

theorem GetDockerTaskLogsHandler_correct_witness:
  "\<exists>ws. GetDockerTaskLogsHandler (sample_docker\<lparr>ContainerLogs := (\<lambda>c l d. Inr sample_reader)\<rparr>)
      (\<lambda>_. Inr 3) (\<lambda>e. Inr (Payload e)) True ''3'' (\<lparr>r_Method = ''GET'', r_Path = ''/tasks/3/logs'',
        r_Header = (\<lambda>_. []), r_Query = (\<lambda>_. []), r_correlation = None\<rparr>)
      ((sample_worker Running)\<lparr>TaskIds := [3 \<mapsto> 0]\<rparr>)
    = Return ws ((sample_worker Running)\<lparr>TaskIds := [3 \<mapsto> 0]\<rparr>)
    \<and> status_of ws = 200 \<and> bodies ws = [Lines (Payload (entry_of (1, ''ab''))), Lines [CHR 0x0A]]"
proof -
  let ?w = "(sample_worker Running)\<lparr>TaskIds := [3 \<mapsto> 0]\<rparr>" and ?all = "concat (map encode_frame sample_frames)"
  let ?api = "sample_docker\<lparr>ContainerLogs := (\<lambda>c l d. Inr sample_reader)\<rparr>"
  have q: "w_quiet ?w" using sample_worker_quiet(1) by (simp add: w_quiet_def)
  have t: "wtask ?w 0 = zero_task\<lparr>ID := 3, State := Running, ContainerID := ''c0''\<rparr>"
    by (simp add: sample_worker_def wtask_def)
  have fs: "\<forall>f \<in> set sample_frames. frame_ok f" by (simp add: sample_frames_def frame_ok_def)
  have len: "length (fst (r_cancelled sample_reader)) = 18"
    by (simp add: sample_reader_def sample_frames_def encode_frame_parts(1))
  have cut: "fst (r_live sample_reader) = ?all"
      "fst (r_live sample_reader) = fst (r_cancelled sample_reader) @ drop 18 ?all"
    by (simp_all add: sample_reader_def)
  have one: "n = 1" if "whole_frames 18 sample_frames n" for n
    using that by (cases n; cases "n - 1")
      (auto simp: whole_frames_def sample_frames_def encode_frame_parts(1) take_Cons')
  note thm31 = GetDockerTaskLogsHandler_correct [OF q, of "\<lambda>e. Inr (Payload e)" Payload ?api "\<lambda>_. Inr 3" "''3''"
      "\<lparr>r_Method = ''GET'', r_Path = ''/tasks/3/logs'', r_Header = (\<lambda>_. []), r_Query = (\<lambda>_. []), r_correlation = None\<rparr>"]
  obtain ws where ws: "GetDockerTaskLogsHandler ?api (\<lambda>_. Inr 3) (\<lambda>e. Inr (Payload e)) True ''3''
      (\<lparr>r_Method = ''GET'', r_Path = ''/tasks/3/logs'', r_Header = (\<lambda>_. []), r_Query = (\<lambda>_. []), r_correlation = None\<rparr>) ?w
      = Return ws ?w" "status_of ws = 200"
      and body: "\<forall>fs. (\<forall>f \<in> set fs. frame_ok f) \<and> fst (r_live sample_reader) = concat (map encode_frame fs)
        \<and> (\<exists>unread. fst (r_live sample_reader) = fst (r_cancelled sample_reader) @ unread) \<longrightarrow>
        (\<exists>n. whole_frames (length (fst (r_cancelled sample_reader))) fs n
          \<and> bodies ws = concat (map (\<lambda>f. [Lines (Payload (entry_of f)), Lines [CHR 0x0A]]) (take n fs)))"
    using thm31 t by auto
  have "\<exists>unread. fst (r_live sample_reader) = fst (r_cancelled sample_reader) @ unread" using cut(2) by blast
  with body fs cut(1) obtain n where "whole_frames (length (fst (r_cancelled sample_reader))) sample_frames n"
      "bodies ws = concat (map (\<lambda>f. [Lines (Payload (entry_of f)), Lines [CHR 0x0A]]) (take n sample_frames))"
    by blast
  moreover from this(1) have "n = 1" by (intro one) (simp only: len)
  ultimately have "bodies ws = [Lines (Payload (entry_of (1, ''ab''))), Lines [CHR 0x0A]]"
    by (simp add: sample_frames_def)
  with ws show ?thesis by blast
qed

end
