(* ===== verification/Cluster.thy ===== *)
theory Cluster
  imports Manager_System Worker_Http
begin

text \<open>
  The two processes together: what the manager posts, the worker's handler receives
  (\<open>SendWork\<close> of \<open>src/internal/manager/manager.go\<close> and \<open>StartTaskHandler\<close> of
  \<open>src/internal/worker/http/handlers.go\<close>), and what the worker lists, the manager merges.
\<close>

section \<open>A task on its way to the worker\<close>

text \<open>The worker's answer to a posted event: the body is not empty and decodes to what was sent.\<close>

definition deliver_event ::
    "'q queue_api \<Rightarrow> uuid \<Rightarrow> time \<Rightarrow> task_event \<Rightarrow> request \<Rightarrow> ('q, 'd) worker
       \<Rightarrow> (worker_json write_event list, ('q, 'd) worker) result" where
  "deliver_event Q new_id now te =
     StartTaskHandler_w Q \<lparr>content_length = 1, decoded = Inr te, new_task_id = new_id, arrival = now\<rparr>"

text \<open>The task the worker queues: the one it was sent, with a new identifier, Pending and starting now.\<close>

definition received :: "uuid \<Rightarrow> time \<Rightarrow> task_event \<Rightarrow> task" where
  "received new_id now te = (ev_Task te)\<lparr>ID := new_id, StartTime := now, State := Pending\<rparr>"

lemma accepted_task:
  "ev_Task (accepted_event \<lparr>content_length = c, decoded = d, new_task_id = u, arrival = now\<rparr> te) = received u now te"
  by (simp add: accepted_event_def received_def Let_def)

lemma deliver_event_queues:
  assumes "fifo Q contents"
  shows "\<exists>ws w'. deliver_event Q new_id now te r w = Return ws w' \<and> status_of ws = 201
    \<and> contents (Queue w') = contents (Queue w) @ [fresh (w_store w)]
    \<and> wtask w' (fresh (w_store w)) = received new_id now te
    \<and> (\<forall>q. q \<noteq> fresh (w_store w) \<longrightarrow> wtask w' q = wtask w q)
    \<and> TaskIds w' = TaskIds w \<and> engine w' = engine w"
proof -
  let ?env = "\<lparr>content_length = 1, decoded = Inr te, new_task_id = new_id, arrival = now\<rparr>"
  let ?w = "AddTask_w Q (fresh (w_store w)) (w\<lparr>w_store := snd (alloc (received new_id now te) (w_store w))\<rparr>)"
  let ?ws = "writeSuccessResponse 201 (W_Event ((accepted_event ?env te)\<lparr>ev_Task := wtask ?w (fresh (w_store w))\<rparr>))"
  have run: "deliver_event Q new_id now te r w = Return ?ws ?w"
    by (simp add: deliver_event_def StartTaskHandler_w_def accepted_task alloc_def Let_def)
  have own: "wtask ?w (fresh (w_store w)) = received new_id now te"
    unfolding AddTask_w_simps by (simp add: wtask_def alloc_def)
  have others: "\<forall>q. q \<noteq> fresh (w_store w) \<longrightarrow> wtask ?w q = wtask w q"
    unfolding AddTask_w_simps by (simp add: wtask_def alloc_def)
  have queue: "contents (Queue ?w) = contents (Queue w) @ [fresh (w_store w)]"
    by (simp add: fifo_Enqueue [OF assms])
  have same: "TaskIds ?w = TaskIds w" "engine ?w = engine w" by simp_all
  have status: "status_of ?ws = 201" by simp
  show ?thesis
    by (rule exI [of _ ?ws], rule exI [of _ ?w]) (intro conjI run status queue own others same)
qed

section \<open>Properties\<close>

definition sample_delivery :: send_env where
  "sample_delivery = posting_env (\<lambda>w e. Posted 201 None)"

lemma sample_delivery_facts:
  "marshal_error sample_delivery = None" "new_request_error sample_delivery = None"
  "\<forall>w. \<exists>d. post sample_delivery w (sent_event sample_delivery t m) = Posted 201 d"
  by (simp_all add: sample_delivery_def posting_env_def)

text \<open>
  C39: a task that was stopped through the manager's API is sent out like a new one. \<open>SendWork\<close>
  overwrites its state with Scheduled before it posts it, so the manager forgets that it was
  stopped, and the worker gives it a new identifier and queues it as Pending: its own task, table
  and containers are not touched, and a second container will be started.
\<close>

theorem stopped_task_is_started_again:
  assumes wf: "manager_wf contents m" and q: "quiet m" and fifo: "fifo Q contents"
    and head: "contents (PendingTasks m) = t # ts" and some: "schedulable m \<noteq> []"
    and built: "marshal_error env = None" "new_request_error env = None"
    and accepted: "\<forall>w. \<exists>d. post env w (sent_event env t m) = Posted 201 d"
    and stop: "State (task_at m t) = Completed" and fifo_w: "fifo Qw contents_w"
  shows "\<exists>m' ws w'. SendWork Q env m = Return () m' \<and> State (task_at m' t) = Scheduled
    \<and> deliver_event Qw new_id now (sent_event env t m) r w = Return ws w' \<and> status_of ws = 201
    \<and> contents_w (Queue w') = contents_w (Queue w) @ [fresh (w_store w)]
    \<and> State (wtask w' (fresh (w_store w))) = Pending \<and> ID (wtask w' (fresh (w_store w))) = new_id
    \<and> (\<forall>p. p \<noteq> fresh (w_store w) \<longrightarrow> wtask w' p = wtask w p)
    \<and> TaskIds w' = TaskIds w \<and> engine w' = engine w"
proof -
  obtain wk q' where "SendWork Q env m = Return () (accepted_state env t wk (m\<lparr>PendingTasks := q'\<rparr>))"
    using SendWork_accepted [OF wf q fifo head some built accepted] by blast
  moreover obtain ws w' where "deliver_event Qw new_id now (sent_event env t m) r w = Return ws w'"
      "status_of ws = 201" "contents_w (Queue w') = contents_w (Queue w) @ [fresh (w_store w)]"
      "wtask w' (fresh (w_store w)) = received new_id now (sent_event env t m)"
      "\<forall>q. q \<noteq> fresh (w_store w) \<longrightarrow> wtask w' q = wtask w q" "TaskIds w' = TaskIds w" "engine w' = engine w"
    using deliver_event_queues [OF fifo_w, of new_id now "sent_event env t m" r w] by blast
  ultimately show ?thesis
    by (intro exI [of _ "accepted_state env t wk (m\<lparr>PendingTasks := q'\<rparr>)"] exI [of _ ws] exI [of _ w'])
      (simp add: received_def)
qed

text \<open>The manager of the witness: its queued task has been stopped.\<close>

definition sample_stopped :: "ptr list manager" where
  "sample_stopped = sample_two\<lparr>store := write_cell 0 (\<lambda>t. t\<lparr>State := Completed\<rparr>) (store sample_two)\<rparr>"

lemma sample_stopped_facts:
  "manager_wf (\<lambda>q. q) sample_stopped" "quiet sample_stopped" "PendingTasks sample_stopped = 0 # []"
  "schedulable sample_stopped \<noteq> []" "State (task_at sample_stopped 0) = Completed"
  using write_wf [OF sample_two_ok(1), of "\<lambda>t. t\<lparr>State := Completed\<rparr>" 0] sample_two_ok(2)
    sample_two_send(1) [of "\<lambda>q. q"] sample_two_send(2)
  by (simp_all add: sample_stopped_def keeps_id_def quiet_def schedulable_def healthy_def ready_def task_at_def)

theorem stopped_task_is_started_again_witness:
  "\<exists>m' ws w'. SendWork list_queue sample_delivery sample_stopped = Return () m' \<and> State (task_at m' 0) = Scheduled
    \<and> deliver_event list_queue 8 60 (sent_event sample_delivery 0 sample_stopped) (page_request 1 1) (sample_worker Running)
        = Return ws w' \<and> Queue w' = [0, 1] \<and> State (wtask w' 1) = Pending"
proof -
  have "fresh (w_store (sample_worker Running)) = 1" "Queue (sample_worker Running) = [0]"
    by (simp_all add: sample_worker_def)
  then show ?thesis
    using stopped_task_is_started_again [OF sample_stopped_facts(1,2) fifo_list_queue sample_stopped_facts(3,4)
        sample_delivery_facts sample_stopped_facts(5) fifo_list_queue,
        of 8 60 "page_request 1 1" "sample_worker Running"]
    by auto
qed

text \<open>
  C40: manager and worker do not agree on the identifier of a task. The worker gives the task it
  accepts a new one, so its report, whatever state it carries, never reaches the manager's entry,
  which stays Scheduled; the report is adopted as another task, and both are listed.
\<close>

theorem accepted_task_is_tracked_twice:
  assumes wf: "manager_wf contents m" and q: "quiet m" and fifo: "fifo Q contents"
    and head: "contents (PendingTasks m) = t # ts" and some: "schedulable m \<noteq> []"
    and built: "marshal_error env = None" "new_request_error env = None"
    and accepted: "\<forall>w. \<exists>d. post env w (sent_event env t m) = Posted 201 d"
    and id: "new_id \<noteq> ID (task_at m t)"
    and report: "wt = (received new_id now (sent_event env t m))\<lparr>State := st, ContainerID := cid\<rparr>"
  shows "\<exists>m1 m2 p. SendWork Q env m = Return () m1
    \<and> updateTasks [(work, Response 200 (Inr [Some wt]))] m1 = Return None m2
    \<and> TaskDb m2 (ID (task_at m t)) = Some t \<and> State (task_at m2 t) = Scheduled
    \<and> TaskDb m2 new_id = Some p \<and> State (task_at m2 p) = st \<and> p \<noteq> t
    \<and> {ID (task_at m t), new_id} \<subseteq> listed_ids m2"
proof -
  obtain wk q' where run: "SendWork Q env m = Return () (accepted_state env t wk (m\<lparr>PendingTasks := q'\<rparr>))"
      and wf1: "manager_wf contents (accepted_state env t wk (m\<lparr>PendingTasks := q'\<rparr>))"
      and q1: "quiet (accepted_state env t wk (m\<lparr>PendingTasks := q'\<rparr>))"
    using SendWork_accepted [OF wf q fifo head some built accepted] by blast
  let ?u = "ID (task_at m t)" and ?a = "accepted_state env t wk (m\<lparr>PendingTasks := q'\<rparr>)"
  let ?b = "merge_all work [wt] ?a"
  have wt: "ID wt = new_id" "State wt = st" by (simp_all add: report received_def)
  have upd: "updateTasks [(work, Response 200 (Inr [Some wt]))] ?a = Return None ?b"
    using worker_update_ok [OF wf1 q1, of work "[wt]"] q1
    by (simp add: updateTasks_def rlock_op_def runlock_op_def comp_def)
  have "TaskDb ?a ?u = Some t" by simp
  moreover have "?u \<notin> ID ` set [wt]" using id wt by simp
  ultimately have own: "TaskDb ?b ?u = Some t" "task_at ?b t = task_at ?a t"
    using merge_all_other [OF wf1] by blast+
  obtain p where p: "TaskDb ?b new_id = Some p" "State (task_at ?b p) = st"
    using merge_all_self [OF wf1, of "[wt]" wt work] wt by auto
  note wf2 = merge_all_wf [OF wf1, of work "[wt]"]
  have "p \<noteq> t" using manager_wfD(6) [OF wf2 p(1)] manager_wfD(6) [OF wf2 own(1)] id by auto
  moreover have "{?u, new_id} \<subseteq> listed_ids ?b"
    using manager_wfD(7) [OF wf2 p(1)] manager_wfD(7) [OF wf2 own(1)] by blast
  moreover have "State (task_at ?b t) = Scheduled" unfolding own(2) by simp
  ultimately show ?thesis using run upd own(1) p by blast
qed

theorem accepted_task_is_tracked_twice_witness:
  "\<exists>m1 m2 p. SendWork list_queue sample_delivery sample_two = Return () m1
    \<and> updateTasks [(''w2'', Response 200 (Inr [Some ((received 8 60 (sent_event sample_delivery 0 sample_two))
        \<lparr>State := Running, ContainerID := ''c1''\<rparr>)]))] m1 = Return None m2
    \<and> TaskDb m2 1 = Some 0 \<and> State (task_at m2 0) = Scheduled
    \<and> TaskDb m2 8 = Some p \<and> State (task_at m2 p) = Running \<and> p \<noteq> 0 \<and> {1, 8} \<subseteq> listed_ids m2"
proof -
  have "ID (task_at sample_two 0) = 1" by (simp add: sample_two_def task_at_def)
  moreover have "schedulable sample_two \<noteq> []" by (simp add: sample_two_send(2))
  ultimately show ?thesis
    using accepted_task_is_tracked_twice [OF sample_two_ok fifo_list_queue sample_two_send(1) [OF refl] _
        sample_delivery_facts, of 8, OF _ _ refl]
    by auto
qed

text \<open>
  C36: a DELETE of a task at the worker is answered with status 200 and the task is marked Completed
  and queued; the next round of \<open>RunTasks\<close> that takes it never ends: \<open>runTask\<close> holds the worker's lock
  when it calls \<open>StopTask\<close>, which takes it again. The container is not stopped, and every operation
  that needs the lock waits for ever.
\<close>

theorem worker_stop_never_stops:
  assumes q: "w_quiet w" and fifo: "fifo Q contents" and empty: "contents (Queue w) = []"
    and u: "taskID \<noteq> []" "uuid_parse taskID = Inr u" "TaskIds w u = Some t"
  shows "\<exists>ws w' w''. StopTaskHandler_w Q uuid_parse taskID r w = Return ws w' \<and> status_of ws = 200
    \<and> w_quiet w' \<and> State (wtask w' t) = Completed \<and> contents (Queue w') = [t]
    \<and> RunTasks_step Q api now w' = Blocked w'' \<and> engine w'' = engine w
    \<and> (\<forall>v. GetTask_w v w'' = Blocked w'') \<and> (\<forall>v s n. updateTaskState v s n w'' = Blocked w'')
    \<and> MonitorTasks_step api order now w'' = Blocked w''"
proof -
  let ?w = "AddTask_w Q t (edit t (\<lambda>x. x\<lparr>State := Completed\<rparr>) w)"
  have run: "StopTaskHandler_w Q uuid_parse taskID r w = Return (writeSuccessResponse 200 (W_Task (wtask ?w t))) ?w"
    using StopTaskHandler_w_quiet [OF q u(1), of uuid_parse u t Q r] u by (simp add: Let_def)
  have queue: "contents (Queue ?w) = t # []" by (simp add: fifo_Enqueue [OF fifo] empty)
  have quiet: "w_quiet ?w" using q by (simp add: w_quiet_def)
  have st: "State (wtask ?w t) = Completed" by simp
  obtain v where v: "RunTasks_step Q api now ?w = Blocked v" "engine v = engine w" "writer (w_mu v)"
    using RunTasks_completed [OF quiet fifo queue st, of api now] by auto
  have "status_of (writeSuccessResponse 200 (W_Task (wtask ?w t))) = 200" by simp
  with run quiet st queue v held_blocks [OF v(3)] show ?thesis by blast
qed

theorem worker_stop_never_stops_witness:
  "\<exists>ws w' w''. StopTaskHandler_w list_queue (\<lambda>_. Inr 3) ''3'' (page_request 1 1)
      ((sample_worker Running)\<lparr>TaskIds := [3 \<mapsto> 0], Queue := []\<rparr>) = Return ws w' \<and> status_of ws = 200
    \<and> RunTasks_step list_queue sample_docker 70 w' = Blocked w'' \<and> GetTask_w 3 w'' = Blocked w''"
proof -
  let ?w = "(sample_worker Running)\<lparr>TaskIds := [3 \<mapsto> 0], Queue := []\<rparr>"
  have "w_quiet ?w" using sample_worker_quiet(1) by (simp add: w_quiet_def)
  then show ?thesis
    using worker_stop_never_stops [OF _ fifo_list_queue, of ?w "''3''" "\<lambda>_. Inr 3" 3 0 "page_request 1 1" sample_docker 70 "[]"]
    by fastforce
qed

end
