(* ===== verification/Scheduler.thy ===== *)
theory Scheduler
  imports Task
begin

text \<open>
  The interface \<open>Scheduler\<close> of \<open>src/scheduler/scheduler.go\<close> and its one implementation,
  \<open>src/scheduler/roundrobin/roundrobin.go\<close>. The comments of the interface say what the methods are for:
  candidates are selected among the nodes, selected nodes are ranked, a ranked node is picked.
  A node pointer is modelled by the node it points to; the implementation has no state.
\<close>

locale scheduler =
  fixes SelectCandidates :: "ptr list \<Rightarrow> node list \<Rightarrow> node list"
    and Score :: "node \<rightharpoonup> real"
    and Pick :: "node option"
  assumes candidates_among: "set (SelectCandidates ts ns) \<subseteq> set ns"
    and pick_scored: "Pick = Some n \<Longrightarrow> n \<in> dom Score"
begin

lemma no_nodes_no_candidates: "SelectCandidates ts [] = []"
  using candidates_among [of ts "[]"] by simp

lemma no_score_no_pick: "Score = (\<lambda>_. None) \<Longrightarrow> Pick = None"
  using pick_scored by (cases Pick) auto

end

definition RoundRobin_SelectCandidates :: "ptr list \<Rightarrow> node list \<Rightarrow> node list" where
  "RoundRobin_SelectCandidates tasks nodes = []"

definition RoundRobin_Score :: "node \<rightharpoonup> real" where
  "RoundRobin_Score = (\<lambda>_. None)"

definition RoundRobin_Pick :: "node option" where
  "RoundRobin_Pick = None"

interpretation round_robin: scheduler RoundRobin_SelectCandidates RoundRobin_Score RoundRobin_Pick
  by unfold_locales (simp_all add: RoundRobin_SelectCandidates_def RoundRobin_Pick_def)

end
