(* ===== verification/Processes.thy ===== *)
theory Processes
  imports Manager_Sched Worker Scheduler
begin

text \<open>
  The start of the two processes: \<open>src/cmd/manager/main.go\<close>, \<open>src/minkube.go\<close> and
  \<open>src/cmd/worker/main.go\<close>. The goroutines they start are the operations of the component theories;
  here are the states they start from. \<open>log.Fatal\<close> ends the process: \<open>Inl\<close> with its message.
\<close>

text \<open>The scheduler is a parameter of \<open>New\<close> that \<open>New\<close> does not use.\<close>

record scheduler_impl =
  SelectCandidates_of :: "ptr list \<Rightarrow> node list \<Rightarrow> node list"
  Score_of :: "node \<rightharpoonup> real"
  Pick_of :: "node option"

definition RoundRobin :: scheduler_impl where
  "RoundRobin =
     \<lparr>SelectCandidates_of = RoundRobin_SelectCandidates, Score_of = RoundRobin_Score, Pick_of = RoundRobin_Pick\<rparr>"

definition NewManager :: "'q queue_api \<Rightarrow> time \<Rightarrow> scheduler_impl \<Rightarrow> string list \<Rightarrow> 'q manager" where
  "NewManager Q now s workers = New Q workers now"

definition manager_main :: "'q queue_api \<Rightarrow> time \<Rightarrow> string \<Rightarrow> error + 'q manager" where
  "manager_main Q now workersStr =
     (if workersStr = []
      then Inl ''MINKUBE_WORKERS environment variable not set (e.g., 'localhost:9001,localhost:9002')''
      else (let workers = Split workersStr (CHR '','') in Inr (NewManager Q now RoundRobin workers)))"

text \<open>\<open>client_error\<close> is what creating the Docker client gives, \<open>d\<close> the state of the Docker engine.\<close>

definition worker_main :: "'q queue_api \<Rightarrow> error option \<Rightarrow> 'd \<Rightarrow> error + ('q, 'd) worker" where
  "worker_main Q client_error d =
     (case client_error of
        Some err \<Rightarrow> Inl (''Failed to create docker client: '' @ err)
      | None \<Rightarrow>
          Inr \<lparr>w_Name = [], w_store = empty_heap, Queue = q_New Q, TaskIds = (\<lambda>_. None), w_TaskCount = 0,
               w_State = Ready, w_Stats = Some zero_stats, engine = d, w_mu = unlocked\<rparr>)"

section \<open>Properties\<close>

text \<open>
  A manager started with a non-empty \<open>MINKUBE_WORKERS\<close> has exactly the comma-separated pieces of
  the variable as its workers: joined with commas they give the variable back, and none contains
  a comma. Each has an empty task list and is Ready, but none counts as healthy, so until the
  first health check has succeeded no worker can be selected.
\<close>

theorem manager_main_workers:
  assumes "workersStr \<noteq> []"
  shows "\<exists>m. manager_main Q now workersStr = Inr m \<and> join (CHR '','') (Workers m) = workersStr
    \<and> (\<forall>w \<in> set (Workers m). CHR '','' \<notin> set w \<and> WorkersTaskMap m w = Some [] \<and> ready m w \<and> \<not> healthy m w)
    \<and> (\<exists>e. SelectWorker m = Return (Inl e) m)"
proof -
  let ?m = "New Q (Split workersStr (CHR '','')) now"
  have ws: "Workers ?m = Split workersStr (CHR '','')" by (simp add: New_def)
  have unhealthy: "\<not> healthy ?m w" for w
    by (simp add: New_fields healthy_def lookup_default_def)
  have "quiet ?m" by (simp add: New_def quiet_def)
  moreover have "select_spec ?m = (Inl ''no healthy workers exist'', ?m)"
    using unhealthy by (simp add: select_spec_def ws Split_nonempty)
  ultimately have "SelectWorker ?m = Return (Inl ''no healthy workers exist'') ?m"
    by (simp add: SelectWorker_quiet)
  moreover have "WorkersTaskMap ?m w = Some []" "ready ?m w" if "w \<in> set (Workers ?m)" for w
    using that by (simp_all add: New_fields ready_def lookup_default_def)
  ultimately show ?thesis
    using assms unhealthy Split_pieces
    by (simp add: manager_main_def NewManager_def join_Split Let_def ws)
qed

theorem manager_main_workers_witness:
  "\<exists>m. manager_main list_queue 0 ''a:1,b:2'' = Inr m \<and> join (CHR '','') (Workers m) = ''a:1,b:2''
    \<and> (\<forall>w \<in> set (Workers m). CHR '','' \<notin> set w \<and> WorkersTaskMap m w = Some [] \<and> ready m w \<and> \<not> healthy m w)
    \<and> (\<exists>e. SelectWorker m = Return (Inl e) m)"
  by (rule manager_main_workers) simp

end
