(* ===== verification/Goroutines.thy ===== *)
theory Goroutines
  imports Manager_System
begin

text \<open>
  The manager's goroutines interleaved at every operation on its mutex.

  \<open>Manager_System\<close> runs each operation in one piece. Here a goroutine is a program counter with its
  local variables, \<open>move\<close> takes one goroutine from one operation on the mutex to the next, and a
  configuration is the manager with the multiset of the goroutines that run. \<open>Lock\<close> takes two moves:
  it announces the writer, which keeps new readers out, and gets the mutex when the last reader
  has left. What a goroutine does while it holds the write lock is one move, since nobody else
  can act on the locked fields in between; so is what it does between two operations on the
  mutex. The inputs of an operation (the replies of the network, the clock) are part of its
  first program counter.
\<close>

section \<open>Program counters\<close>

text \<open>
  The regions of \<open>src/internal/manager/manager.go\<close> under the write lock: taking a task off the queue
  and recording its assignment in \<open>SendWork\<close>, the round robin of \<open>SelectWorker\<close>, \<open>AddTask\<close>, the first
  region of \<open>StopTaskHandler\<close>, the merge in \<open>updateTasks\<close>, \<open>CleanUpTasks\<close>, and \<open>MarkWorkerDown\<close> and
  \<open>MarkWorkerUp\<close>.
\<close>

datatype region =
    Take_pending send_env
  | Choose send_env ptr "string list"
  | Assign string ptr task_event
  | Add_pending ptr
  | Stop_by_id "error + uuid"
  | Merge string "task option list"
  | Clean_up "uuid list" time
  | Mark string bool

datatype pc =
    Want region                                                       \<comment> \<open>before \<open>Lock\<close>\<close>
  | Announced region                                                  \<comment> \<open>in \<open>Lock\<close>, waiting\<close>
  | Inside region                                                     \<comment> \<open>holds the write lock\<close>
  | Select send_env ptr                                               \<comment> \<open>at the start of \<open>SelectWorker\<close>\<close>
  | Healthy_want send_env ptr                                         \<comment> \<open>in \<open>GetHealthyWorkers\<close>\<close>
  | Healthy_loop send_env ptr "string list" "string list"
  | Healthy_read send_env ptr string "string list" "string list"      \<comment> \<open>in \<open>IsWorkerHealthy\<close>\<close>
  | Ready_want send_env ptr "string list"                             \<comment> \<open>in \<open>GetReadyWorkers\<close>\<close>
  | Ready_loop send_env ptr "string list" "string list" "string list"
  | Ready_read send_env ptr "string list" string "string list" "string list"
  | Dispatch send_env ptr string                                      \<comment> \<open>\<open>SendWork\<close> has its worker\<close>
  | Create task                                                       \<comment> \<open>\<open>StartTaskHandler\<close> has its task\<close>
  | Update_want "(string \<times> tasks_reply) list"                         \<comment> \<open>in \<open>updateTasks\<close>\<close>
  | Update_inside "(string \<times> tasks_reply) list"
  | Page_want request                                                 \<comment> \<open>in \<open>GetTasksHandler\<close>\<close>
  | Page_inside go_int go_int
  | Health_request string health_reply                                \<comment> \<open>in \<open>HealthCheckWorkers\<close>\<close>
  | Dead_reader                                                       \<comment> \<open>panicked with the read lock\<close>

text \<open>What one move does: it leads on, it waits for the mutex, or it ends the process.\<close>

datatype 'q outcome = Moves "'q manager" "pc list" | Waits | Crashes

section \<open>The moves\<close>

definition region_body :: "'q queue_api \<Rightarrow> region \<Rightarrow> 'q manager \<Rightarrow> (pc list, 'q manager) result" where
  "region_body Q r m =
     (case r of
        Take_pending env \<Rightarrow>
          if Len Q (PendingTasks m) = 0 then Return [] m
          else (let (e, q) = Dequeue Q (PendingTasks m); m = m\<lparr>PendingTasks := q\<rparr>
                in case e of None \<Rightarrow> Return [] m | Some t \<Rightarrow> Return [Select env t] m)
      | Choose env t usable \<Rightarrow>
          (let m = m\<lparr>lastWorker := (lastWorker m + 1) mod length usable\<rparr>
           in if lastWorker m < length usable
              then Return [Dispatch env t (usable ! lastWorker m)] m
              else Panic IndexOutOfRange m)
      | Assign w t te \<Rightarrow> Return [] (record_assignment w t te m)
      | Add_pending t \<Rightarrow> andthen (AddTask_body Q t m) (\<lambda>_. Return [])
      | Stop_by_id parsed \<Rightarrow>
          (case parsed of
             Inl err \<Rightarrow> Return [] m
           | Inr tId \<Rightarrow>
               (case TaskDb m tId of
                  None \<Rightarrow> Return [] m
                | Some t \<Rightarrow> Return [Want (Add_pending t)]
                    (m\<lparr>store := write_cell t (\<lambda>t. t\<lparr>State := Completed\<rparr>) (store m)\<rparr>)))
      | Merge work tasks \<Rightarrow> andthen (for_each (merge_task work) tasks m) (\<lambda>_. Return [])
      | Clean_up order now \<Rightarrow>
          Return [] (fold (cleanup_entry (now - hours TASK_RETENTION_HOURS)) order m)
      | Mark w failed \<Rightarrow> Return [] (if failed then MarkWorkerDown_body w m else MarkWorkerUp_body w m))"

text \<open>From the chosen worker to the answer of the POST.\<close>

definition dispatch :: "send_env \<Rightarrow> ptr \<Rightarrow> string \<Rightarrow> 'q manager \<Rightarrow> 'q outcome" where
  "dispatch env t w m =
     (let m = scheduled t m; te = event_for env t m
      in if marshal_error env \<noteq> None then Moves m [Want (Add_pending t)]
         else if new_request_error env \<noteq> None then Crashes
         else (case post env w te of
                 PostFailed err \<Rightarrow> Moves m [Want (Add_pending t)]
               | Posted code decode_error \<Rightarrow>
                   if code \<noteq> 201
                   then (if decode_error \<noteq> None then Moves m [] else Moves m [Want (Add_pending t)])
                   else Moves m [Want (Assign w t te)]))"

text \<open>The goroutines \<open>updateTasks\<close> starts: only a decoded list takes them to the lock.\<close>

definition update_goroutine :: "string \<times> tasks_reply \<Rightarrow> pc list" where
  "update_goroutine r =
     (case snd r of
        Response code (Inr tasks) \<Rightarrow> if code = 200 then [Want (Merge (fst r) tasks)] else []
      | _ \<Rightarrow> [])"

definition rlocked :: "'q manager \<Rightarrow> 'q manager" where
  "rlocked = mu_update (\<lambda>x. x\<lparr>readers := Suc (readers x)\<rparr>)"

definition runlocked :: "'q manager \<Rightarrow> 'q manager" where
  "runlocked = mu_update (\<lambda>x. x\<lparr>readers := readers x - 1\<rparr>)"

definition rlock_move :: "pc \<Rightarrow> 'q manager \<Rightarrow> 'q outcome" where
  "rlock_move k m = (if can_rlock (mu m) then Moves (rlocked m) [k] else Waits)"

fun move :: "'q queue_api \<Rightarrow> pc \<Rightarrow> 'q manager \<Rightarrow> 'q outcome" where
  "move Q (Want r) m =
     Moves (mu_update (\<lambda>x. x\<lparr>writers_waiting := Suc (writers_waiting x)\<rparr>) m) [Announced r]"
| "move Q (Announced r) m =
     (if can_lock (mu m)
      then Moves (mu_update (\<lambda>x. x\<lparr>writer := True, writers_waiting := writers_waiting x - 1\<rparr>) m) [Inside r]
      else Waits)"
| "move Q (Inside r) m =
     (case region_body Q r m of
        Return pcs m \<Rightarrow> Moves (mu_update (\<lambda>x. x\<lparr>writer := False\<rparr>) m) pcs
      | Panic p m \<Rightarrow> Crashes
      | Blocked m \<Rightarrow> Waits)"
| "move Q (Select env t) m = Moves m (if Workers m = [] then [] else [Healthy_want env t])"
| "move Q (Healthy_want env t) m = rlock_move (Healthy_loop env t (Workers m) []) m"
| "move Q (Healthy_loop env t (w # ws) found) m = rlock_move (Healthy_read env t w ws found) m"
| "move Q (Healthy_loop env t [] found) m =
     Moves (runlocked m) (if found = [] then [] else [Ready_want env t found])"
| "move Q (Healthy_read env t w ws found) m =
     Moves (runlocked m) [Healthy_loop env t ws (if healthy m w then found @ [w] else found)]"
| "move Q (Ready_want env t hs) m = rlock_move (Ready_loop env t hs (Workers m) []) m"
| "move Q (Ready_loop env t hs (w # ws) found) m = rlock_move (Ready_read env t hs w ws found) m"
| "move Q (Ready_loop env t hs [] found) m =
     Moves (runlocked m)
       (if found = [] \<or> workersInBoth hs found = [] then []
        else [Want (Choose env t (workersInBoth hs found))])"
| "move Q (Ready_read env t hs w ws found) m =
     Moves (runlocked m) [Ready_loop env t hs ws (if ready m w then found @ [w] else found)]"
| "move Q (Dispatch env t w) m = dispatch env t w m"
| "move Q (Create t) m =
     (let (p, h) = alloc t (store m) in Moves (m\<lparr>store := h\<rparr>) [Want (Add_pending p)])"
| "move Q (Update_want replies) m = rlock_move (Update_inside replies) m"
| "move Q (Update_inside replies) m = Moves (runlocked m) (concat (map update_goroutine replies))"
| "move Q (Page_want r) m =
     (case parsePaginationParams r of
        Inl err \<Rightarrow> Moves m []
      | Inr (pg, per_page) \<Rightarrow> rlock_move (Page_inside pg per_page) m)"
| "move Q (Page_inside pg per_page) m =
     (let taskCount = go_len (SortedTasks m); start = page_start pg per_page
      in if sint taskCount \<le> sint start \<or> taskCount = 0
            \<or> go_slice (SortedTasks m) start (go_min (start + per_page) taskCount) \<noteq> None
         then Moves (runlocked m) [] else Moves m [Dead_reader])"
| "move Q (Health_request w reply) m =
     (case reply of
        NoRequest \<Rightarrow> Crashes
      | NoAnswer \<Rightarrow> Moves m [Want (Mark w True)]
      | Answered \<Rightarrow> Moves m [Want (Mark w False)])"
| "move Q Dead_reader m = Waits"

text \<open>The program counters at which an operation starts.\<close>

fun starts :: "pc \<Rightarrow> bool" where
  "starts (Want (Take_pending env)) = True"
| "starts (Want (Stop_by_id parsed)) = True"
| "starts (Want (Clean_up order now)) = True"
| "starts (Health_request w reply) = True"
| "starts (Create t) = True"
| "starts (Update_want replies) = True"
| "starts (Page_want r) = True"
| "starts _ = False"

type_synonym 'q config = "'q manager \<times> pc multiset"

inductive conc_step :: "'q queue_api \<Rightarrow> 'q config \<Rightarrow> 'q config \<Rightarrow> bool" for Q where
  spawn: "starts pc \<Longrightarrow> conc_step Q (m, T) (m, add_mset pc T)"
| run: "move Q pc m = Moves m' pcs \<Longrightarrow> conc_step Q (m, add_mset pc T) (m', mset pcs + T)"

inductive conc_reachable :: "'q queue_api \<Rightarrow> 'q config \<Rightarrow> 'q config \<Rightarrow> bool" for Q c0 where
  init: "conc_reachable Q c0 c0"
| later: "conc_reachable Q c0 c \<Longrightarrow> conc_step Q c c' \<Longrightarrow> conc_reachable Q c0 c'"

inductive_cases conc_stepE: "conc_step Q (m, T) c'"


section \<open>What a goroutine holds\<close>

text \<open>The read locks a goroutine holds.\<close>

fun rholds :: "pc \<Rightarrow> nat" where
  "rholds (Healthy_loop env t ws found) = 1"
| "rholds (Healthy_read env t w ws found) = 2"
| "rholds (Ready_loop env t hs ws found) = 1"
| "rholds (Ready_read env t hs w ws found) = 2"
| "rholds (Update_inside replies) = 1"
| "rholds (Page_inside pg per_page) = 1"
| "rholds Dead_reader = 1"
| "rholds _ = 0"

fun announced :: "pc \<Rightarrow> nat" where
  "announced (Announced r) = 1"
| "announced _ = 0"

fun wholds :: "pc \<Rightarrow> nat" where
  "wholds (Inside r) = 1"
| "wholds _ = 0"

text \<open>
  The task a goroutine has in its hands: one that \<open>SendWork\<close> has taken off the queue and not yet
  given to a worker or put back, and one that is about to be queued.
\<close>

fun region_task :: "region \<Rightarrow> ptr option" where
  "region_task (Choose env t usable) = Some t"
| "region_task (Assign w t te) = Some t"
| "region_task (Add_pending t) = Some t"
| "region_task _ = None"

fun in_hand :: "pc \<Rightarrow> ptr option" where
  "in_hand (Want r) = region_task r"
| "in_hand (Announced r) = region_task r"
| "in_hand (Inside r) = region_task r"
| "in_hand (Select env t) = Some t"
| "in_hand (Healthy_want env t) = Some t"
| "in_hand (Healthy_loop env t ws found) = Some t"
| "in_hand (Healthy_read env t w ws found) = Some t"
| "in_hand (Ready_want env t hs) = Some t"
| "in_hand (Ready_loop env t hs ws found) = Some t"
| "in_hand (Ready_read env t hs w ws found) = Some t"
| "in_hand (Dispatch env t w) = Some t"
| "in_hand _ = None"

text \<open>Only \<open>AddTask\<close> may have a task that is not listed yet.\<close>

fun adds :: "pc \<Rightarrow> bool" where
  "adds (Want (Add_pending t)) = True"
| "adds (Announced (Add_pending t)) = True"
| "adds (Inside (Add_pending t)) = True"
| "adds _ = False"

text \<open>The chosen workers of a goroutine at the round robin are never none.\<close>

fun index_ok :: "pc \<Rightarrow> bool" where
  "index_ok (Want (Choose env t usable)) = (usable \<noteq> [])"
| "index_ok (Announced (Choose env t usable)) = (usable \<noteq> [])"
| "index_ok (Inside (Choose env t usable)) = (usable \<noteq> [])"
| "index_ok _ = True"

definition pc_ok :: "'q manager \<Rightarrow> pc \<Rightarrow> bool" where
  "pc_ok m pc \<longleftrightarrow> index_ok pc \<and>
     (\<forall>t. in_hand pc = Some t \<longrightarrow>
        t < fresh (store m) \<and> (\<not> adds pc \<longrightarrow> ID (task_at m t) \<in> listed_ids m))"

definition conc_inv :: "('q \<Rightarrow> ptr list) \<Rightarrow> 'q config \<Rightarrow> bool" where
  "conc_inv contents c \<longleftrightarrow>
     manager_wf contents (fst c)
     \<and> readers (mu (fst c)) = (\<Sum>pc\<in>#snd c. rholds pc)
     \<and> writers_waiting (mu (fst c)) = (\<Sum>pc\<in>#snd c. announced pc)
     \<and> (if writer (mu (fst c)) then 1 else 0) = (\<Sum>pc\<in>#snd c. wholds pc)
     \<and> (writer (mu (fst c)) \<longrightarrow> readers (mu (fst c)) = 0)
     \<and> (\<forall>pc \<in># snd c. pc_ok (fst c) pc)"

text \<open>The store only grows, cells keep their identifiers, and a listed identifier stays listed.\<close>

definition grows :: "'q manager \<Rightarrow> 'q manager \<Rightarrow> bool" where
  "grows m m' \<longleftrightarrow> fresh (store m) \<le> fresh (store m')
     \<and> (\<forall>p < fresh (store m). ID (task_at m' p) = ID (task_at m p)) \<and> listed_ids m \<subseteq> listed_ids m'"

lemma grows_refl [simp]: "grows m m"
  by (simp add: grows_def)

lemma grows_mu [simp]: "grows m (mu_update g m') = grows m m'" "grows (mu_update g m) m' = grows m m'"
  by (simp_all add: grows_def listed_ids_def task_at_def)

lemma grows_trans: "grows m m' \<Longrightarrow> grows m' m'' \<Longrightarrow> grows m m''"
  by (auto simp: grows_def)

lemma pc_ok_mu [simp]: "pc_ok (mu_update g m) pc = pc_ok m pc"
  by (simp add: pc_ok_def listed_ids_def task_at_def)

lemma pc_ok_grows: "grows m m' \<Longrightarrow> pc_ok m pc \<Longrightarrow> pc_ok m' pc"
  unfolding pc_ok_def grows_def by (metis order_less_le_trans subsetD)


lemma grows_same: "store m' = store m \<Longrightarrow> SortedTasks m' = SortedTasks m \<Longrightarrow> grows m m'"
  by (simp add: grows_def listed_ids_def task_at_def)

lemma grows_write: "keeps_id f \<Longrightarrow> grows m (m\<lparr>store := write_cell p f (store m)\<rparr>)"
  by (auto simp: grows_def listed_ids_def task_at_def keeps_id_def)

lemma grows_added: "no_nil (SortedTasks m) \<Longrightarrow> grows m (added Q t m)"
  by (auto simp: grows_def listed_ids_added)

lemma grows_alloc:
  assumes "manager_wf contents m"
  shows "grows m (m\<lparr>store := snd (alloc t (store m))\<rparr>)"
proof -
  let ?m = "m\<lparr>store := snd (alloc t (store m))\<rparr>"
  have keep: "task_at ?m p = task_at m p" if "p < fresh (store m)" for p
    using that by (simp add: task_at_def alloc_def)
  then have "ID (task_at ?m p) = ID (task_at m p)" if "Some p \<in> set (SortedTasks m)" for p
    using manager_wfD(2) [OF assms that] by simp
  then have "listed_ids ?m = listed_ids m"
    unfolding listed_ids_def
    by (metis (no_types, lifting) manager.select_convs(4) manager.surjective manager.update_convs(1))
  then show ?thesis using keep by (simp add: grows_def) (simp add: alloc_def)
qed

lemma grows_merged:
  assumes "manager_wf contents m"
  shows "grows m (merged work wt m)"
proof (cases "TaskDb m (ID wt)")
  case None
  then show ?thesis
    using adopted_ids [OF assms, of work wt]
    by (auto simp: merged_def grows_def adopted_cells(1) adopted_cells(2))
next
  case (Some p)
  then show ?thesis by (simp add: merged_def grows_write keeps_id_def)
qed

lemma grows_merge_all: "manager_wf contents m \<Longrightarrow> grows m (merge_all work wts m)"
  unfolding merge_all_def
proof (induction wts arbitrary: m)
  case (Cons wt wts)
  then show ?case using grows_trans [OF grows_merged] merged_wf by fastforce
qed simp

lemma AddTask_body_added:
  assumes "no_nil (SortedTasks m)"
  shows "AddTask_body Q t m = Return () (added Q t m)"
proof -
  obtain xs ys where "InsertSorted (store m) (SortedTasks m) t = Some (xs @ Some t # ys)"
    using assms by (rule InsertSorted_insertion)
  then show ?thesis
    by (auto simp: AddTask_body_def added_def listed_after_add_def Let_def task_at_def split: option.splits)
qed

lemma cleanup_fold_grows: "grows m (fold (cleanup_entry c) us m)"
  by (rule grows_same) simp_all

lemma mark_wf: "manager_wf contents m \<Longrightarrow>
    manager_wf contents (if failed then MarkWorkerDown_body w m else MarkWorkerUp_body w m)"
  by (simp add: manager_wf_def listed_ids_def task_at_def)

section \<open>What a locked region does\<close>

text \<open>
  The result of a region whose input is in order: a well-formed manager that has grown, the mutex
  as it was, and goroutines that hold no lock and know their task.
\<close>

definition region_ok :: "('q \<Rightarrow> ptr list) \<Rightarrow> 'q manager \<Rightarrow> (pc list, 'q manager) result \<Rightarrow> bool" where
  "region_ok contents m res \<longleftrightarrow>
     (\<forall>pcs m'. res = Return pcs m' \<longrightarrow>
        manager_wf contents m' \<and> mu m' = mu m \<and> grows m m'
        \<and> (\<forall>pc \<in> set pcs. pc_ok m' pc \<and> rholds pc = 0 \<and> announced pc = 0 \<and> wholds pc = 0))"

lemma take_pending_ok:
  assumes "manager_wf contents m" and "fifo Q contents"
  shows "region_ok contents m (region_body Q (Take_pending env) m)"
proof (cases "contents (PendingTasks m)")
  case Nil
  then show ?thesis using assms by (simp add: region_ok_def region_body_def fifo_Len)
next
  case (Cons t ts)
  obtain q' where q': "Dequeue Q (PendingTasks m) = (Some t, q')" "contents q' = ts"
    using fifo_Dequeue [OF assms(2) Cons] by blast
  let ?m = "m\<lparr>PendingTasks := q'\<rparr>"
  have "region_body Q (Take_pending env) m = Return [Select env t] ?m"
    using q' Cons by (simp add: region_body_def fifo_Len [OF assms(2)] Let_def)
  moreover have "pc_ok ?m (Select env t)"
    using manager_wfD(3,4) [OF assms(1), of t] Cons by (simp add: pc_ok_def listed_ids_def)
  moreover have "grows m ?m" by (rule grows_same) simp_all
  ultimately show ?thesis using dequeued_wf [OF assms(1) Cons q'(2)] by (simp add: region_ok_def)
qed

lemma stop_ok:
  assumes "manager_wf contents m"
  shows "region_ok contents m (region_body Q (Stop_by_id parsed) m)"
proof -
  have k: "keeps_id (\<lambda>t. t\<lparr>State := Completed\<rparr>)" by (simp add: keeps_id_def)
  show ?thesis
    using assms write_wf [OF assms k] grows_write [OF k, of m] manager_wfD(5) [OF assms]
    by (auto simp: region_ok_def region_body_def pc_ok_def split: sum.split option.split)
qed

lemma merge_ok:
  assumes "manager_wf contents m"
  shows "region_ok contents m (region_body Q (Merge work tasks) m)"
proof (cases "no_nil tasks")
  case True
  then obtain wts where "tasks = map Some wts" by (auto simp: no_nil_iff_map)
  then show ?thesis
    using for_each_merge [OF assms, of work wts] merge_all_wf [OF assms] grows_merge_all [OF assms]
    by (simp add: region_ok_def region_body_def)
next
  case False
  then show ?thesis
    using for_each_merge_no_null [OF assms] by (auto simp: region_ok_def region_body_def andthen_Return_iff)
qed

lemma region_body_ok:
  assumes wf: "manager_wf contents m" and fifo: "fifo Q contents" and ok: "pc_ok m (Inside r)"
  shows "region_ok contents m (region_body Q r m)"
proof (cases r)
  case (Take_pending env)
  then show ?thesis using take_pending_ok [OF wf fifo] by simp
next
  case (Choose env t usable)
  let ?m = "m\<lparr>lastWorker := (lastWorker m + 1) mod length usable\<rparr>"
  have "manager_wf contents ?m" using wf by (simp add: manager_wf_def listed_ids_def task_at_def)
  moreover have "grows m ?m" by (rule grows_same) simp_all
  ultimately show ?thesis
    using ok Choose by (auto simp: region_ok_def region_body_def pc_ok_def listed_ids_def task_at_def Let_def)
next
  case (Assign w t te)
  have "grows m (record_assignment w t te m)" by (rule grows_same) simp_all
  then show ?thesis
    using ok Assign record_assignment_wf [OF wf, of t] by (simp add: region_ok_def region_body_def pc_ok_def)
next
  case (Add_pending t)
  then show ?thesis
    using ok added_wf [OF wf fifo, of t] manager_wfD(1) [OF wf]
    by (simp add: region_ok_def region_body_def pc_ok_def AddTask_body_added grows_added)
next
  case (Stop_by_id parsed)
  then show ?thesis using stop_ok [OF wf] by simp
next
  case (Merge work tasks)
  then show ?thesis using merge_ok [OF wf] by simp
next
  case (Clean_up order now)
  then show ?thesis
    using cleanup_fold_wf [OF wf] by (simp add: region_ok_def region_body_def cleanup_fold_grows)
next
  case (Mark w failed)
  have "grows m (if failed then MarkWorkerDown_body w m else MarkWorkerUp_body w m)"
    by (rule grows_same) simp_all
  with Mark show ?thesis using mark_wf [OF wf] by (simp add: region_ok_def region_body_def)
qed


section \<open>The invariant\<close>

definition held :: "'q manager \<Rightarrow> nat" where
  "held m = (if writer (mu m) then 1 else 0)"

text \<open>A move changes each count of the mutex by what its goroutine takes and gives back.\<close>

definition balanced :: "pc \<Rightarrow> pc list \<Rightarrow> 'q manager \<Rightarrow> 'q manager \<Rightarrow> bool" where
  "balanced pc pcs m m' \<longleftrightarrow>
     readers (mu m') + rholds pc = readers (mu m) + sum_list (map rholds pcs)
     \<and> writers_waiting (mu m') + announced pc = writers_waiting (mu m) + sum_list (map announced pcs)
     \<and> held m' + wholds pc = held m + sum_list (map wholds pcs)
     \<and> (writer (mu m') \<longrightarrow> readers (mu m') = 0)"

definition covered :: "pc \<Rightarrow> 'q manager \<Rightarrow> bool" where
  "covered pc m \<longleftrightarrow> rholds pc \<le> readers (mu m) \<and> announced pc \<le> writers_waiting (mu m)
     \<and> wholds pc \<le> held m \<and> (writer (mu m) \<longrightarrow> readers (mu m) = 0)"

definition move_good :: "('q \<Rightarrow> ptr list) \<Rightarrow> pc \<Rightarrow> pc list \<Rightarrow> 'q manager \<Rightarrow> 'q manager \<Rightarrow> bool" where
  "move_good contents pc pcs m m' \<longleftrightarrow>
     manager_wf contents m' \<and> grows m m' \<and> (\<forall>k \<in> set pcs. pc_ok m' k) \<and> balanced pc pcs m m'"

lemma sum_list_zero: "(\<forall>x \<in> set xs. f x = (0::nat)) \<Longrightarrow> sum_list (map f xs) = 0"
  by (induction xs) auto

lemma rlock_move_good:
  assumes "manager_wf contents m" and "covered pc m" and "pc_ok m k"
    and "rholds k = Suc (rholds pc)" "announced k = 0" "wholds k = 0" "announced pc = 0" "wholds pc = 0"
    and "rlock_move k m = Moves m' pcs"
  shows "move_good contents pc pcs m m'"
  using assms
  by (auto simp: rlock_move_def rlocked_def move_good_def balanced_def covered_def held_def can_rlock_def
      split: if_splits)

lemma runlock_move_good:
  assumes "manager_wf contents m" and "covered pc m" and "\<forall>k \<in> set pcs. pc_ok m k"
    and "rholds pc = Suc (sum_list (map rholds pcs))" "announced pc = 0" "wholds pc = 0"
    and "sum_list (map announced pcs) = 0" "sum_list (map wholds pcs) = 0"
  shows "move_good contents pc pcs m (runlocked m)"
  using assms by (auto simp: runlocked_def move_good_def balanced_def covered_def held_def)

lemma region_move_good:
  assumes "manager_wf contents m" and "fifo Q contents" and "covered (Inside r) m" and "pc_ok m (Inside r)"
    and "move Q (Inside r) m = Moves m' pcs"
  shows "move_good contents (Inside r) pcs m m'"
proof -
  obtain u where u: "region_body Q r m = Return pcs u" "m' = mu_update (\<lambda>x. x\<lparr>writer := False\<rparr>) u"
    using assms(5) by (auto split: result.splits)
  note ok = region_body_ok [OF assms(1,2,4), unfolded region_ok_def, rule_format, OF u(1)]
  then have "sum_list (map rholds pcs) = 0" "sum_list (map announced pcs) = 0" "sum_list (map wholds pcs) = 0"
    by (auto intro!: sum_list_zero)
  with ok assms(3) show ?thesis by (auto simp: u(2) move_good_def balanced_def covered_def held_def)
qed

lemma dispatch_good:
  assumes "manager_wf contents m" and "covered (Dispatch env t w) m" and "pc_ok m (Dispatch env t w)"
    and "dispatch env t w m = Moves m' pcs"
  shows "move_good contents (Dispatch env t w) pcs m m'"
proof -
  have m': "m' = scheduled t m" "pcs = [] \<or> pcs = [Want (Add_pending t)]
      \<or> pcs = [Want (Assign w t (event_for env t (scheduled t m)))]"
    using assms(4) by (auto simp: dispatch_def Let_def split: if_splits post_reply.splits)
  have "grows m (scheduled t m)" unfolding scheduled_def by (rule grows_write) (simp add: keeps_id_def)
  moreover from this have "pc_ok (scheduled t m) (Dispatch env t w)" using assms(3) by (rule pc_ok_grows)
  then have "\<forall>k \<in> set pcs. pc_ok (scheduled t m) k" using m'(2) by (auto simp: pc_ok_def)
  ultimately show ?thesis
    using assms(2) m' scheduled_wf [OF assms(1)]
    by (auto simp: move_good_def balanced_def covered_def held_def)
qed

lemma create_good:
  assumes "manager_wf contents m" and "covered (Create t) m" and "move Q (Create t) m = Moves m' pcs"
  shows "move_good contents (Create t) pcs m m'"
proof -
  have m': "m' = m\<lparr>store := snd (alloc t (store m))\<rparr>" "pcs = [Want (Add_pending (fresh (store m)))]"
    using assms(3) by (simp_all add: alloc_def Let_def)
  have "pc_ok m' (Want (Add_pending (fresh (store m))))" by (simp add: m' pc_ok_def alloc_def)
  then show ?thesis
    using assms(2) m' alloc_wf [OF assms(1)] grows_alloc [OF assms(1)]
    by (simp add: move_good_def balanced_def covered_def held_def)
qed

lemma update_goroutine_good:
  "\<forall>k \<in> set (concat (map update_goroutine rs)). pc_ok m k \<and> rholds k = 0 \<and> announced k = 0 \<and> wholds k = 0"
  by (auto simp: update_goroutine_def pc_ok_def split: tasks_reply.splits sum.splits if_splits)

lemma pc_ok_region: "pc_ok m (Want r) = pc_ok m (Inside r)" "pc_ok m (Announced r) = pc_ok m (Inside r)"
  by (cases r; simp add: pc_ok_def)+

lemma want_move_good:
  assumes "manager_wf contents m" and "covered (Want r) m" and "pc_ok m (Want r)"
    and "move Q (Want r) m = Moves m' pcs"
  shows "move_good contents (Want r) pcs m m'"
proof -
  have "pc_ok m (Announced r)" using assms(3) by (simp only: pc_ok_region)
  then show ?thesis
    using assms(1,2,4) by (auto simp: move_good_def balanced_def covered_def held_def)
qed

lemma announced_move_good:
  assumes "manager_wf contents m" and "covered (Announced r) m" and "pc_ok m (Announced r)"
    and "move Q (Announced r) m = Moves m' pcs"
  shows "move_good contents (Announced r) pcs m m'"
proof -
  have free: "can_lock (mu m)" using assms(4) by (simp split: if_splits)
  have "pc_ok m (Inside r)" using assms(3) by (simp only: pc_ok_region)
  then show ?thesis
    using assms(1,2,4) free by (auto simp: move_good_def balanced_def covered_def held_def can_lock_def)
qed

lemma move_is_good:
  assumes wf: "manager_wf contents m" and fifo: "fifo Q contents" and cov: "covered pc m"
    and ok: "pc_ok m pc" and mv: "move Q pc m = Moves m' pcs"
  shows "move_good contents pc pcs m m'"
proof (cases pc)
  case (Want r)
  then show ?thesis using want_move_good wf cov ok mv by blast
next
  case (Announced r)
  then show ?thesis using announced_move_good wf cov ok mv by blast
next
  case (Inside r)
  then show ?thesis using region_move_good [OF wf fifo] cov ok mv by blast
next
  case (Select env t)
  then show ?thesis
    using wf cov ok mv by (auto simp: move_good_def balanced_def covered_def held_def pc_ok_def split: if_splits)
next
  case (Healthy_want env t)
  show ?thesis
    by (rule rlock_move_good [OF wf cov, of "Healthy_loop env t (Workers m) []"])
      (use ok mv Healthy_want in \<open>simp_all add: pc_ok_def\<close>)
next
  case (Healthy_loop env t ws found)
  show ?thesis
  proof (cases ws)
    case Nil
    with Healthy_loop mv have m': "m' = runlocked m" by simp
    show ?thesis
      unfolding m' by (rule runlock_move_good [OF wf cov])
        (use ok mv Healthy_loop Nil in \<open>auto simp: pc_ok_def split: if_splits\<close>)
  next
    case (Cons w ws')
    show ?thesis
      by (rule rlock_move_good [OF wf cov, of "Healthy_read env t w ws' found"])
        (use ok mv Healthy_loop Cons in \<open>simp_all add: pc_ok_def\<close>)
  qed
next
  case (Healthy_read env t w ws found)
  with mv have m': "m' = runlocked m" by simp
  show ?thesis
    unfolding m' by (rule runlock_move_good [OF wf cov])
      (use ok mv Healthy_read in \<open>auto simp: pc_ok_def\<close>)
next
  case (Ready_want env t hs)
  show ?thesis
    by (rule rlock_move_good [OF wf cov, of "Ready_loop env t hs (Workers m) []"])
      (use ok mv Ready_want in \<open>simp_all add: pc_ok_def\<close>)
next
  case (Ready_loop env t hs ws found)
  show ?thesis
  proof (cases ws)
    case Nil
    with Ready_loop mv have m': "m' = runlocked m" by simp
    show ?thesis
      unfolding m' by (rule runlock_move_good [OF wf cov])
        (use ok mv Ready_loop Nil in \<open>auto simp: pc_ok_def split: if_splits\<close>)
  next
    case (Cons w ws')
    show ?thesis
      by (rule rlock_move_good [OF wf cov, of "Ready_read env t hs w ws' found"])
        (use ok mv Ready_loop Cons in \<open>simp_all add: pc_ok_def\<close>)
  qed
next
  case (Ready_read env t hs w ws found)
  with mv have m': "m' = runlocked m" by simp
  show ?thesis
    unfolding m' by (rule runlock_move_good [OF wf cov])
      (use ok mv Ready_read in \<open>auto simp: pc_ok_def\<close>)
next
  case (Dispatch env t w)
  then show ?thesis using dispatch_good [OF wf] cov ok mv by simp
next
  case (Create t)
  then show ?thesis using create_good [OF wf] cov mv by blast
next
  case (Update_want replies)
  show ?thesis
    by (rule rlock_move_good [OF wf cov, of "Update_inside replies"])
      (use mv Update_want in \<open>simp_all add: pc_ok_def\<close>)
next
  case (Update_inside replies)
  with mv have m': "m' = runlocked m" "pcs = concat (map update_goroutine replies)" by simp_all
  show ?thesis
    unfolding m' by (rule runlock_move_good [OF wf cov])
      (use update_goroutine_good [of replies m] Update_inside in \<open>auto intro!: sum_list_zero\<close>)
next
  case (Page_want r)
  show ?thesis
  proof (cases "parsePaginationParams r")
    case (Inl err)
    then show ?thesis
      using wf cov mv Page_want by (simp add: move_good_def balanced_def covered_def held_def)
  next
    case (Inr pl)
    show ?thesis
      by (rule rlock_move_good [OF wf cov, of "Page_inside (fst pl) (snd pl)"])
        (use mv Page_want Inr in \<open>simp_all add: pc_ok_def split_beta\<close>)
  qed
next
  case (Page_inside pg per_page)
  have "pcs = [] \<and> m' = runlocked m \<or> pcs = [Dead_reader] \<and> m' = m"
    using mv Page_inside by (auto simp: Let_def split: if_splits)
  then show ?thesis
    using wf cov runlock_move_good [OF wf cov, of "[]"] Page_inside
    by (auto simp: move_good_def balanced_def covered_def held_def pc_ok_def)
next
  case (Health_request w reply)
  with mv have "m' = m" "\<exists>failed. pcs = [Want (Mark w failed)]" by (auto split: health_reply.splits)
  then show ?thesis
    using wf cov Health_request by (auto simp: move_good_def balanced_def covered_def held_def pc_ok_def)
next
  case Dead_reader
  with mv show ?thesis by simp
qed

lemma covered_member:
  assumes "conc_inv contents (m, add_mset pc T)"
  shows "covered pc m"
  using assms by (auto simp: conc_inv_def covered_def held_def split: if_splits)

lemma conc_inv_run:
  assumes inv: "conc_inv contents (m, add_mset pc T)" and fifo: "fifo Q contents"
    and mv: "move Q pc m = Moves m' pcs"
  shows "conc_inv contents (m', mset pcs + T)"
proof -
  have "move_good contents pc pcs m m'"
    using inv covered_member [OF inv] by (intro move_is_good [OF _ fifo _ _ mv]) (auto simp: conc_inv_def)
  then have good: "manager_wf contents m'" "grows m m'" "\<forall>k \<in> set pcs. pc_ok m' k" "balanced pc pcs m m'"
    by (simp_all add: move_good_def)
  have sums: "(\<Sum>k\<in>#mset pcs. f k) = sum_list (map f pcs)" for f :: "pc \<Rightarrow> nat"
    by (metis mset_map sum_mset_sum_list)
  have "\<forall>k \<in># T. pc_ok m' k"
    using inv pc_ok_grows [OF good(2)] by (auto simp: conc_inv_def)
  then show ?thesis
    using inv good(1,3,4) unfolding conc_inv_def balanced_def held_def by (auto simp: sums)
qed

lemma starts_neutral:
  "starts pc \<Longrightarrow> rholds pc = 0 \<and> announced pc = 0 \<and> wholds pc = 0 \<and> pc_ok m pc \<and> in_hand pc = None"
  by (cases pc rule: starts.cases) (auto simp: pc_ok_def)

lemma conc_inv_step:
  assumes "conc_inv contents c" and "fifo Q contents" and "conc_step Q c c'"
  shows "conc_inv contents c'"
  using assms(3)
proof (cases rule: conc_step.cases)
  case (spawn pc m T)
  then show ?thesis using assms(1) starts_neutral by (auto simp: conc_inv_def)
next
  case (run pc m m' pcs T)
  then show ?thesis using conc_inv_run assms(1,2) by blast
qed

lemma conc_reachable_inv:
  assumes "conc_reachable Q c0 c" and "conc_inv contents c0" and "fifo Q contents"
  shows "conc_inv contents c"
  using assms by (induction rule: conc_reachable.induct) (auto intro: conc_inv_step)

lemma conc_inv_New: "fifo Q contents \<Longrightarrow> conc_inv contents (New Q workers now, {#})"
  using New_wf [of Q contents workers now] by (simp add: conc_inv_def New_def unlocked_def)


end
