(* ===== verification/Goroutine_Runs.thy ===== *)
theory Goroutine_Runs
  imports Goroutines
begin

text \<open>
  Runs of the interleaved manager in which one operation goes from its start to its end while the
  other goroutines rest: each does what its one-piece definition in \<open>Manager_Tasks\<close>,
  \<open>Manager_Sched\<close>, \<open>Manager_Sync\<close> and \<open>Manager_Http\<close> does.
\<close>

section \<open>Runs without interference\<close>

lemma reach_trans:
  assumes "conc_reachable Q b c" and "conc_reachable Q a b"
  shows "conc_reachable Q a c"
  using assms by (induction rule: conc_reachable.induct) (auto intro: conc_reachable.later)

lemma reach_spawn: "starts pc \<Longrightarrow> conc_reachable Q (m, T) (m, add_mset pc T)"
  by (rule conc_reachable.later [OF conc_reachable.init]) (rule conc_step.spawn)

lemma reach_run: "move Q pc m = Moves m' pcs \<Longrightarrow> conc_reachable Q (m, add_mset pc T) (m', mset pcs + T)"
  by (rule conc_reachable.later [OF conc_reachable.init]) (rule conc_step.run)

lemma reach_run1: "move Q pc m = Moves m' [k] \<Longrightarrow> conc_reachable Q (m, add_mset pc T) (m', add_mset k T)"
  using reach_run [of Q pc m m' "[k]" T] by simp

lemma reach_run0: "move Q pc m = Moves m' [] \<Longrightarrow> conc_reachable Q (m, add_mset pc T) (m', T)"
  using reach_run [of Q pc m m' "[]" T] by simp

lemma AddTask_body_mu: "AddTask_body Q t (mu_update g m) = map_state (mu_update g) (AddTask_body Q t m)"
  by (simp add: AddTask_body_def Let_def task_at_def split: option.split)

lemma merge_task_mu: "merge_task work e (mu_update g m) = map_state (mu_update g) (merge_task work e m)"
  by (simp add: merge_task_def Let_def split: option.split prod.split)

lemma for_each_mu:
  assumes "\<And>x m. body x (mu_update g m) = map_state (mu_update g) (body x m)"
  shows "for_each body xs (mu_update g m) = map_state (mu_update g) (for_each body xs m)"
proof (induction xs arbitrary: m)
  case (Cons x xs)
  then show ?case by (cases "body x m") (simp_all add: assms)
qed simp

lemma andthen_map_state: "andthen (map_state f r) (\<lambda>_. Return b) = map_state f (andthen r (\<lambda>_. Return b))"
  by (cases r) simp_all

lemma region_body_mu: "region_body Q r (mu_update g m) = map_state (mu_update g) (region_body Q r m)"
  by (cases r)
    (simp_all add: region_body_def AddTask_body_mu for_each_mu merge_task_mu andthen_map_state Let_def
      MarkWorkerDown_body_def MarkWorkerUp_body_def split: option.split prod.split sum.split)

text \<open>A region that finds the mutex free runs through.\<close>

lemma region_alone:
  assumes q: "quiet m" and body: "region_body Q r m = Return pcs m'" and keep: "mu m' = mu m"
  shows "conc_reachable Q (m, add_mset (Want r) T) (m', mset pcs + T)"
proof -
  let ?a = "mu_update (\<lambda>x. x\<lparr>writers_waiting := Suc (writers_waiting x)\<rparr>) m"
  let ?l = "mu_update (\<lambda>x. x\<lparr>writer := True\<rparr>)"
  have 1: "conc_reachable Q (m, add_mset (Want r) T) (?a, add_mset (Announced r) T)"
    by (rule reach_run1) simp
  have "can_lock (mu ?a)" using q by (simp add: quiet_def mutex_free_def can_lock_def)
  then have 2: "conc_reachable Q (?a, add_mset (Announced r) T) (?l m, add_mset (Inside r) T)"
    by (intro reach_run1) (simp add: mgr.upd_upd comp_def)
  have "mu_update (\<lambda>x. x\<lparr>writer := False\<rparr>) (?l m') = m'"
    unfolding mgr.upd_upd by (rule mgr.upd_same) (use q keep in \<open>simp add: quiet_def mutex_free_def\<close>)
  then have "move Q (Inside r) (?l m) = Moves m' pcs" by (simp add: region_body_mu body)
  then have 3: "conc_reachable Q (?l m, add_mset (Inside r) T) (m', mset pcs + T)" by (rule reach_run)
  from reach_trans [OF 3 reach_trans [OF 2 1]] show ?thesis .
qed

lemma rlocked_facts:
  assumes "quiet m"
  shows "can_rlock (mu m)" and "can_rlock (mu (rlocked m))"
    and "runlocked (rlocked m) = m" and "runlocked (rlocked (rlocked m)) = rlocked m"
  using assms by (simp_all add: quiet_def mutex_free_def can_rlock_def rlocked_def runlocked_def mgr.upd_upd comp_def)

lemma rlocked_frame [simp]:
  "Workers (rlocked m) = Workers m" "healthy (rlocked m) = healthy m" "ready (rlocked m) = ready m"
  by (simp_all add: rlocked_def healthy_def [abs_def] ready_def [abs_def])

lemma healthy_alone:
  assumes "quiet m"
  shows "conc_reachable Q (rlocked m, add_mset (Healthy_loop env t ws found) T)
    (rlocked m, add_mset (Healthy_loop env t [] (found @ filter (healthy m) ws)) T)"
proof (induction ws arbitrary: found)
  case Nil
  show ?case by (simp add: conc_reachable.init)
next
  case (Cons w ws)
  have a: "conc_reachable Q (rlocked m, add_mset (Healthy_loop env t (w # ws) found) T)
      (rlocked (rlocked m), add_mset (Healthy_read env t w ws found) T)"
    by (rule reach_run1) (simp add: rlock_move_def rlocked_facts [OF assms])
  have b: "conc_reachable Q (rlocked (rlocked m), add_mset (Healthy_read env t w ws found) T)
      (rlocked m, add_mset (Healthy_loop env t ws (if healthy m w then found @ [w] else found)) T)"
    by (rule reach_run1) (simp add: rlocked_facts [OF assms])
  from reach_trans [OF Cons.IH reach_trans [OF b a]] show ?case by (auto split: if_splits)
qed

lemma ready_alone:
  assumes "quiet m"
  shows "conc_reachable Q (rlocked m, add_mset (Ready_loop env t hs ws found) T)
    (rlocked m, add_mset (Ready_loop env t hs [] (found @ filter (ready m) ws)) T)"
proof (induction ws arbitrary: found)
  case Nil
  show ?case by (simp add: conc_reachable.init)
next
  case (Cons w ws)
  have a: "conc_reachable Q (rlocked m, add_mset (Ready_loop env t hs (w # ws) found) T)
      (rlocked (rlocked m), add_mset (Ready_read env t hs w ws found) T)"
    by (rule reach_run1) (simp add: rlock_move_def rlocked_facts [OF assms])
  have b: "conc_reachable Q (rlocked (rlocked m), add_mset (Ready_read env t hs w ws found) T)
      (rlocked m, add_mset (Ready_loop env t hs ws (if ready m w then found @ [w] else found)) T)"
    by (rule reach_run1) (simp add: rlocked_facts [OF assms])
  from reach_trans [OF Cons.IH reach_trans [OF b a]] show ?case by (auto split: if_splits)
qed


text \<open>Both loops of \<open>SelectWorker\<close>, each between its two read-lock operations.\<close>

lemma healthy_phase:
  assumes "quiet m"
  shows "conc_reachable Q (m, add_mset (Healthy_want env t) T)
    (m, mset (if filter (healthy m) (Workers m) = [] then []
              else [Ready_want env t (filter (healthy m) (Workers m))]) + T)"
proof -
  have 1: "conc_reachable Q (m, add_mset (Healthy_want env t) T)
      (rlocked m, add_mset (Healthy_loop env t (Workers m) []) T)"
    by (rule reach_run1) (simp add: rlock_move_def rlocked_facts [OF assms])
  have 2: "conc_reachable Q (rlocked m, add_mset (Healthy_loop env t [] (filter (healthy m) (Workers m))) T)
      (m, mset (if filter (healthy m) (Workers m) = [] then []
                else [Ready_want env t (filter (healthy m) (Workers m))]) + T)"
    by (rule reach_run) (simp add: rlocked_facts [OF assms])
  from reach_trans [OF 2 reach_trans [OF healthy_alone [OF assms, where found = "[]", simplified] 1]]
  show ?thesis .
qed

lemma ready_phase:
  assumes "quiet m"
  shows "conc_reachable Q (m, add_mset (Ready_want env t hs) T)
    (m, mset (if filter (ready m) (Workers m) = [] \<or> workersInBoth hs (filter (ready m) (Workers m)) = [] then []
              else [Want (Choose env t (workersInBoth hs (filter (ready m) (Workers m))))]) + T)"
proof -
  have 1: "conc_reachable Q (m, add_mset (Ready_want env t hs) T)
      (rlocked m, add_mset (Ready_loop env t hs (Workers m) []) T)"
    by (rule reach_run1) (simp add: rlock_move_def rlocked_facts [OF assms])
  have 2: "conc_reachable Q (rlocked m, add_mset (Ready_loop env t hs [] (filter (ready m) (Workers m))) T)
      (m, mset (if filter (ready m) (Workers m) = [] \<or> workersInBoth hs (filter (ready m) (Workers m)) = [] then []
              else [Want (Choose env t (workersInBoth hs (filter (ready m) (Workers m))))]) + T)"
    by (rule reach_run) (simp add: rlocked_facts [OF assms])
  from reach_trans [OF 2 reach_trans [OF ready_alone [OF assms, where found = "[]", simplified] 1]]
  show ?thesis .
qed

text \<open>The interleaved \<open>SelectWorker\<close>, run alone, is the abstract selection.\<close>

lemma select_alone:
  assumes q: "quiet m"
  shows "conc_reachable Q (m, add_mset (Select env t) T)
    (snd (select_spec m), mset (case fst (select_spec m) of Inl e \<Rightarrow> [] | Inr w \<Rightarrow> [Dispatch env t w]) + T)"
proof -
  let ?hs = "filter (healthy m) (Workers m)" and ?rs = "filter (ready m) (Workers m)"
  have start: "conc_reachable Q (m, add_mset (Select env t) T)
      (m, mset (if Workers m = [] then [] else [Healthy_want env t]) + T)"
    by (rule reach_run) simp
  consider (none) "Workers m = [] \<or> ?hs = []" | (unready) "?hs \<noteq> []" "?rs = [] \<or> schedulable m = []"
    | (some) "?hs \<noteq> []" "?rs \<noteq> []" "schedulable m \<noteq> []" by blast
  then show ?thesis
  proof cases
    case none
    then have "select_spec m = (Inl (if Workers m = [] then ''no workers available to select''
        else ''no healthy workers exist''), m)"
      by (auto simp: select_spec_def)
    then show ?thesis
      using none start reach_trans [OF healthy_phase [OF q, of Q env t T]] by (auto split: if_splits)
  next
    case unready
    then have ws: "Workers m \<noteq> []" by auto
    then have "select_spec m = (Inl (if ?rs = [] then ''no ready workers exist''
        else ''no workers that are both healthy and ready''), m)"
      using unready by (auto simp: select_spec_def)
    moreover have r: "conc_reachable Q (m, add_mset (Ready_want env t ?hs) T) (m, T)"
      using ready_phase [OF q, of Q env t ?hs T] unready by (simp add: workersInBoth_schedulable split: if_splits)
    moreover have h: "conc_reachable Q (m, add_mset (Healthy_want env t) T) (m, add_mset (Ready_want env t ?hs) T)"
      using healthy_phase [OF q, of Q env t T] unready(1) by simp
    moreover have s: "conc_reachable Q (m, add_mset (Select env t) T) (m, add_mset (Healthy_want env t) T)"
      using start ws by simp
    from reach_trans [OF r reach_trans [OF h s]]
    have "conc_reachable Q (m, add_mset (Select env t) T) (m, T)" .
    ultimately show ?thesis by simp
  next
    case some
    then have ws: "Workers m \<noteq> []" by auto
    let ?k = "Suc (lastWorker m) mod length (schedulable m)"
    have spec: "select_spec m = (Inr (schedulable m ! ?k), m\<lparr>lastWorker := ?k\<rparr>)"
      using some ws by (simp add: select_spec_def Let_def)
    have choose: "region_body Q (Choose env t (schedulable m)) m
        = Return [Dispatch env t (schedulable m ! ?k)] (m\<lparr>lastWorker := ?k\<rparr>)"
      using some(3) by (simp add: region_body_def Let_def)
    have 1: "conc_reachable Q (m, add_mset (Want (Choose env t (schedulable m))) T)
        (m\<lparr>lastWorker := ?k\<rparr>, add_mset (Dispatch env t (schedulable m ! ?k)) T)"
      using region_alone [OF q choose] by simp
    have 2: "conc_reachable Q (m, add_mset (Ready_want env t ?hs) T)
        (m, add_mset (Want (Choose env t (schedulable m))) T)"
      using ready_phase [OF q, of Q env t ?hs T] some by (simp add: workersInBoth_schedulable)
    have 3: "conc_reachable Q (m, add_mset (Healthy_want env t) T) (m, add_mset (Ready_want env t ?hs) T)"
      using healthy_phase [OF q, of Q env t T] some by simp
    have 4: "conc_reachable Q (m, add_mset (Select env t) T) (m, add_mset (Healthy_want env t) T)"
      using start ws by simp
    from reach_trans [OF 1 reach_trans [OF 2 reach_trans [OF 3 4]]] show ?thesis by (simp add: spec)
  qed
qed

lemma add_alone:
  assumes "quiet m" and "no_nil (SortedTasks m)"
  shows "conc_reachable Q (m, add_mset (Want (Add_pending t)) T) (added Q t m, T)"
proof -
  have "region_body Q (Add_pending t) m = Return [] (added Q t m)"
    by (simp add: region_body_def AddTask_body_added [OF assms(2)])
  then show ?thesis using region_alone [OF assms(1), of Q "Add_pending t" "[]"] by simp
qed

lemma dispatch_alone:
  assumes q: "quiet m" and nn: "no_nil (SortedTasks m)" and sel: "fst (select_spec m) = Inr w"
    and ok: "\<forall>w. sending_of env t m \<noteq> Crashed w"
  shows "conc_reachable Q (snd (select_spec m), add_mset (Dispatch env t w) T) (sent Q env t m, T)"
proof -
  let ?m = "scheduled t (snd (select_spec m))" and ?ev = "event_for env t (scheduled t (snd (select_spec m)))"
  have qm: "quiet ?m" "no_nil (SortedTasks ?m)" using q nn by (simp_all add: quiet_def)
  note add = add_alone [OF qm, of Q t T]
  have "region_body Q (Assign w t ?ev) ?m = Return [] (record_assignment w t ?ev ?m)"
    by (simp add: region_body_def)
  then have assign: "conc_reachable Q (?m, add_mset (Want (Assign w t ?ev)) T) (record_assignment w t ?ev ?m, T)"
    using region_alone [OF qm(1), of Q "Assign w t ?ev" "[]"] by simp
  show ?thesis
  proof (cases "sending_of env t m")
    case NoWorker
    then show ?thesis
      using sel by (auto simp: sending_of_def split: if_splits post_reply.splits)
  next
    case (Requeued v)
    then have "move Q (Dispatch env t w) (snd (select_spec m)) = Moves ?m [Want (Add_pending t)]"
      using sel by (auto simp: sending_of_def dispatch_def Let_def split: if_splits post_reply.splits)
    from reach_trans [OF add reach_run1 [OF this]] Requeued show ?thesis by (simp add: sent_def Let_def)
  next
    case (Lost v)
    then have "move Q (Dispatch env t w) (snd (select_spec m)) = Moves ?m []"
      using sel by (auto simp: sending_of_def dispatch_def Let_def split: if_splits post_reply.splits)
    from reach_run0 [OF this] Lost show ?thesis by (simp add: sent_def Let_def)
  next
    case (Assigned v)
    then have "v = w" "move Q (Dispatch env t w) (snd (select_spec m)) = Moves ?m [Want (Assign w t ?ev)]"
      using sel by (auto simp: sending_of_def dispatch_def Let_def split: if_splits post_reply.splits)
    from reach_trans [OF assign reach_run1 [OF this(2)]] this(1) Assigned show ?thesis
      by (simp add: sent_def Let_def)
  next
    case (Crashed v)
    with ok show ?thesis by simp
  qed
qed


lemma send_alone:
  assumes wf: "manager_wf contents m" and q: "quiet m" and fifo: "fifo Q contents"
    and run: "SendWork Q env m = Return () m'"
  shows "conc_reachable Q (m, add_mset (Want (Take_pending env)) T) (m', T)"
proof (cases "contents (PendingTasks m)")
  case Nil
  then have "m' = m" using SendWork_empty [OF q fifo Nil, of env] run by simp
  moreover have "region_body Q (Take_pending env) m = Return [] m"
    using Nil by (simp add: region_body_def fifo_Len [OF fifo])
  ultimately show ?thesis using region_alone [OF q, of Q "Take_pending env" "[]"] by simp
next
  case (Cons t ts)
  note nn = manager_wfD(1) [OF wf]
  obtain q' where q': "Dequeue Q (PendingTasks m) = (Some t, q')"
    using fifo_Dequeue [OF fifo Cons] by blast
  let ?m = "m\<lparr>PendingTasks := q'\<rparr>"
  have qm: "quiet ?m" "no_nil (SortedTasks ?m)" using q nn by (simp_all add: quiet_def)
  note send = SendWork_head [OF q nn fifo Cons q', of env]
  then have ok: "\<forall>w. sending_of env t ?m \<noteq> Crashed w"
    using run by (auto simp: Let_def split: sending.splits)
  have m': "m' = sent Q env t ?m"
    using send run by (auto simp: Let_def split: sending.splits)
  have take: "conc_reachable Q (m, add_mset (Want (Take_pending env)) T) (?m, add_mset (Select env t) T)"
    using region_alone [OF q, of Q "Take_pending env" "[Select env t]" ?m] q' Cons
    by (simp add: region_body_def fifo_Len [OF fifo])
  show ?thesis
  proof (cases "fst (select_spec ?m)")
    case (Inl e)
    then have "conc_reachable Q (?m, add_mset (Select env t) T) (sent Q env t ?m, T)"
      using select_alone [OF qm(1), of Q env t T] by (simp add: sent_def sending_of_def)
    from reach_trans [OF this take] show ?thesis by (simp only: m')
  next
    case (Inr w)
    have "conc_reachable Q (?m, add_mset (Select env t) T) (snd (select_spec ?m), add_mset (Dispatch env t w) T)"
      using select_alone [OF qm(1), of Q env t T] Inr by simp
    from reach_trans [OF dispatch_alone [OF qm Inr ok] reach_trans [OF this take]]
    show ?thesis by (simp only: m')
  qed
qed

lemma worker_update_alone:
  assumes wf: "manager_wf contents m" and q: "quiet m" and run: "worker_update work reply m = Return e u"
  shows "conc_reachable Q (m, mset (update_goroutine (work, reply)) + T) (u, T)"
proof -
  have u: "u = apply_reply (work, reply) m" by (rule worker_update_Return [OF wf q run])
  show ?thesis
  proof (cases "\<exists>ts. reply = Response 200 (Inr ts)")
    case True
    then obtain ts where ts: "reply = Response 200 (Inr ts)" by blast
    have "no_nil ts"
    proof (rule ccontr)
      let ?l = "mu_update (\<lambda>x. x\<lparr>writer := True\<rparr>) m"
      assume "\<not> no_nil ts"
      moreover have "manager_wf contents ?l" using wf by simp
      ultimately have "\<nexists>v. for_each (merge_task work) ts ?l = Return () v"
        using for_each_merge_no_null by blast
      then show False using ts run q by (auto simp: worker_update_def lock_op_def andthen_Return_iff)
    qed
    then obtain wts where "ts = map Some wts" by (auto simp: no_nil_iff_map)
    then have "region_body Q (Merge work ts) m = Return [] (apply_reply (work, reply) m)"
      using for_each_merge [OF wf, of work wts] ts by (simp add: region_body_def apply_reply_def comp_def)
    from region_alone [OF q this] show ?thesis by (simp add: u ts update_goroutine_def)
  next
    case False
    then have "update_goroutine (work, reply) = []" "apply_reply (work, reply) m = m"
      by (cases reply rule: carries_tasks.cases;
          auto simp: update_goroutine_def apply_reply_def split: tasks_reply.splits sum.splits)+
    then show ?thesis by (simp add: u conc_reachable.init)
  qed
qed

lemma gather_alone:
  "manager_wf contents m \<Longrightarrow> quiet m \<Longrightarrow> gather replies m = Return e t \<Longrightarrow>
     conc_reachable Q (m, mset (concat (map update_goroutine replies)) + T) (t, T)"
proof (induction replies arbitrary: m e)
  case Nil
  then show ?case by (simp add: conc_reachable.init)
next
  case (Cons r replies)
  obtain work reply where r: "r = (work, reply)" by (cases r)
  from Cons.prems(3) obtain e1 u e2 where u: "worker_update work reply m = Return e1 u"
      "gather replies u = Return e2 t"
    by (auto simp: r andthen_Return_iff)
  have "u = apply_reply r m" using worker_update_Return [OF Cons.prems(1,2) u(1)] r by simp
  then have "manager_wf contents u" "quiet u"
    using apply_reply_wf [OF Cons.prems(1)] Cons.prems(2) by (simp_all add: quiet_def)
  from reach_trans [OF Cons.IH [OF this u(2)] worker_update_alone [OF Cons.prems(1,2) u(1)]]
  show ?case by (simp add: r union_assoc)
qed

lemma update_alone:
  assumes wf: "manager_wf contents m" and q: "quiet m" and run: "updateTasks replies m = Return e t"
  shows "conc_reachable Q (m, add_mset (Update_want replies) T) (t, T)"
proof -
  have g: "gather replies m = Return e t"
    using run by (auto simp: updateTasks_def andthen_Return_iff rlock_runlock)
  have 1: "conc_reachable Q (m, add_mset (Update_want replies) T) (rlocked m, add_mset (Update_inside replies) T)"
    by (rule reach_run1) (simp add: rlock_move_def rlocked_facts [OF q])
  have 2: "conc_reachable Q (rlocked m, add_mset (Update_inside replies) T)
      (m, mset (concat (map update_goroutine replies)) + T)"
    by (rule reach_run) (simp add: rlocked_facts [OF q])
  from reach_trans [OF gather_alone [OF wf q g] reach_trans [OF 2 1]] show ?thesis .
qed

lemma health_alone1:
  assumes q: "quiet m" and reply: "reply \<noteq> NoRequest"
  shows "conc_reachable Q (m, T) (health_update (w, reply) m, T)"
proof -
  let ?failed = "reply = NoAnswer"
  have 1: "conc_reachable Q (m, T) (m, add_mset (Health_request w reply) T)" by (rule reach_spawn) simp
  have 2: "conc_reachable Q (m, add_mset (Health_request w reply) T) (m, add_mset (Want (Mark w ?failed)) T)"
    by (rule reach_run1) (use reply in \<open>cases reply; simp\<close>)
  have "region_body Q (Mark w ?failed) m = Return [] (health_update (w, reply) m)"
    using reply by (cases reply) (simp_all add: region_body_def health_update_def)
  from region_alone [OF q this] have 3: "conc_reachable Q (m, add_mset (Want (Mark w ?failed)) T)
      (health_update (w, reply) m, T)"
    by simp
  from reach_trans [OF 3 reach_trans [OF 2 1]] show ?thesis .
qed

lemma health_alone:
  "quiet m \<Longrightarrow> NoRequest \<notin> snd ` set rs \<Longrightarrow> conc_reachable Q (m, T) (fold health_update rs m, T)"
proof (induction rs arbitrary: m)
  case Nil
  then show ?case by (simp add: conc_reachable.init)
next
  case (Cons r rs)
  have "conc_reachable Q (m, T) (health_update (fst r, snd r) m, T)"
    by (rule health_alone1) (use Cons.prems in auto)
  then have step: "conc_reachable Q (m, T) (health_update r m, T)" by simp
  have "quiet (health_update r m)" using Cons.prems by (simp add: quiet_def)
  from reach_trans [OF Cons.IH [OF this] step] Cons.prems(2) show ?case by simp
qed


end
