(* ===== verification/Manager_Concurrent.thy ===== *)
theory Manager_Concurrent
  imports Goroutine_Runs
begin

text \<open>
  The properties of the interleaved manager: its invariant, where its tasks are, the deadlock of the
  nested read locks, what a reader that died leaves behind, and the relation to the manager whose
  operations run in one piece.
\<close>

section \<open>Where a task is\<close>

definition hand :: "pc \<Rightarrow> ptr multiset" where
  "hand pc = (case in_hand pc of None \<Rightarrow> {#} | Some t \<Rightarrow> {#t#})"

definition in_flight :: "('q \<Rightarrow> ptr list) \<Rightarrow> 'q config \<Rightarrow> ptr multiset" where
  "in_flight contents c = mset (contents (PendingTasks (fst c))) + (\<Sum>pc\<in>#snd c. hand pc)"

text \<open>The moves with which \<open>SendWork\<close> lets its task go: no worker to select, or an answer that is
  neither 201 nor a readable error.\<close>

fun gives_up :: "pc \<Rightarrow> 'q manager \<Rightarrow> bool" where
  "gives_up (Select env t) m = (Workers m = [])"
| "gives_up (Healthy_loop env t [] found) m = (found = [])"
| "gives_up (Ready_loop env t hs [] found) m = (workersInBoth hs found = [])"
| "gives_up (Dispatch env t w) m =
     (marshal_error env = None \<and> new_request_error env = None \<and>
      (case post env w (event_for env t (scheduled t m)) of
         PostFailed err \<Rightarrow> False
       | Posted code decode_error \<Rightarrow> code \<noteq> 201 \<and> decode_error \<noteq> None))"
| "gives_up _ m = False"

text \<open>What a move does to the tasks in flight.\<close>

definition flight_change ::
    "ptr multiset \<Rightarrow> ptr multiset \<Rightarrow> pc \<Rightarrow> 'q manager \<Rightarrow> 'q manager \<Rightarrow> bool" where
  "flight_change before after pc m m' \<longleftrightarrow>
     after = before
     \<or> (\<exists>p. after = add_mset p before
          \<and> (p = fresh (store m) \<or> (\<exists>u. TaskDb m u = Some p \<and> State (task_at m' p) = Completed)))
     \<or> (\<exists>p. before = add_mset p after \<and> in_hand pc = Some p
          \<and> ((\<exists>w te. pc = Inside (Assign w p te) \<and> TaskWorkerMap m' (ID (task_at m' p)) = Some w) \<or> gives_up pc m))"

lemma flight_same: "flight_change x x pc m m'"
  by (simp add: flight_change_def)

definition flight_of :: "('q \<Rightarrow> ptr list) \<Rightarrow> 'q manager \<Rightarrow> pc list \<Rightarrow> ptr multiset" where
  "flight_of contents m pcs = mset (contents (PendingTasks m)) + sum_list (map hand pcs)"

lemma pending_mu [simp]: "flight_of contents (mu_update g m) = flight_of contents m"
  by (simp add: flight_of_def fun_eq_iff)

lemma hand_Want [simp]: "hand (Want r) = (case region_task r of None \<Rightarrow> {#} | Some t \<Rightarrow> {#t#})"
  and hand_Announced [simp]: "hand (Announced r) = (case region_task r of None \<Rightarrow> {#} | Some t \<Rightarrow> {#t#})"
  and hand_Inside [simp]: "hand (Inside r) = (case region_task r of None \<Rightarrow> {#} | Some t \<Rightarrow> {#t#})"
  by (simp_all add: hand_def)

lemma region_flight:
  assumes fifo: "fifo Q contents" and wf: "manager_wf contents m" and run: "region_body Q r m = Return pcs u"
  shows "flight_change (flight_of contents m [Inside r]) (flight_of contents u pcs) (Inside r) m u"
proof (cases r)
  case (Take_pending env)
  show ?thesis
  proof (cases "contents (PendingTasks m)")
    case Nil
    with Take_pending run show ?thesis
      by (auto simp: region_body_def fifo_Len [OF fifo] flight_of_def flight_same)
  next
    case (Cons t ts)
    then obtain q' where "Dequeue Q (PendingTasks m) = (Some t, q')" "contents q' = ts"
      using fifo_Dequeue [OF fifo] by blast
    with Cons Take_pending run show ?thesis
      by (auto simp: region_body_def fifo_Len [OF fifo] flight_of_def hand_def flight_same)
  qed
next
  case (Choose env t usable)
  with run show ?thesis
    by (auto simp: region_body_def Let_def flight_of_def hand_def flight_same split: if_splits)
next
  case (Assign w t te)
  with run have u: "u = record_assignment w t te m" "pcs = []" by (simp_all add: region_body_def)
  have "task_at u t = task_at m t" by (simp add: u task_at_def)
  with Assign u have "TaskWorkerMap u (ID (task_at u t)) = Some w" by simp
  with Assign u show ?thesis by (auto simp: flight_change_def flight_of_def)
next
  case (Add_pending t)
  then have "u = added Q t m" "pcs = []"
    using run manager_wfD(1) [OF wf] by (simp_all add: region_body_def AddTask_body_added)
  with Add_pending show ?thesis by (simp add: flight_of_def fifo_Enqueue [OF fifo] flight_same)
next
  case (Stop_by_id parsed)
  show ?thesis
  proof (cases "\<exists>v t. parsed = Inr v \<and> TaskDb m v = Some t")
    case False
    then have "pcs = []" "u = m"
      using run Stop_by_id by (auto simp: region_body_def split: sum.splits option.splits)
    with Stop_by_id show ?thesis by (simp add: flight_of_def flight_same)
  next
    case True
    then obtain v t where v: "parsed = Inr v" "TaskDb m v = Some t" by blast
    then have u: "u = m\<lparr>store := write_cell t (\<lambda>t. t\<lparr>State := Completed\<rparr>) (store m)\<rparr>"
        "pcs = [Want (Add_pending t)]"
      using run Stop_by_id by (simp_all add: region_body_def)
    then have "State (task_at u t) = Completed" by (simp add: task_at_def)
    moreover have "flight_of contents u pcs = add_mset t (flight_of contents m [Inside r])"
      using Stop_by_id u by (simp add: flight_of_def)
    ultimately show ?thesis using v(2) unfolding flight_change_def by blast
  qed
next
  case (Merge work tasks)
  then have "for_each (merge_task work) tasks m = Return () u" "pcs = []"
    using run by (auto simp: region_body_def andthen_Return_iff)
  moreover from this have "no_nil tasks" using for_each_merge_no_null [OF wf] by blast
  ultimately have "u = merge_all work (map the tasks) m"
    using for_each_merge [OF wf, of work] by (auto simp: no_nil_iff_map comp_def)
  with \<open>pcs = []\<close> Merge show ?thesis by (simp add: flight_of_def flight_same)
next
  case (Clean_up order now)
  with run show ?thesis by (auto simp: region_body_def flight_of_def flight_same)
next
  case (Mark w failed)
  with run show ?thesis by (auto simp: region_body_def flight_of_def flight_same)
qed


lemma hand_update_goroutine: "sum_list (map hand (concat (map update_goroutine rs))) = {#}"
proof -
  have "hand k = {#}" if "k \<in> set (update_goroutine r)" for k r
    using that by (auto simp: update_goroutine_def split: tasks_reply.splits sum.splits if_splits)
  then have "sum_list (map hand (update_goroutine r)) = {#}" for r
    by (metis (no_types, lifting) map_eq_conv sum_list_0)
  then show ?thesis by (induction rs) simp_all
qed

lemma dispatch_flight:
  assumes "dispatch env t w m = Moves m' pcs"
  shows "flight_change (flight_of contents m [Dispatch env t w]) (flight_of contents m' pcs) (Dispatch env t w) m m'"
proof (cases "gives_up (Dispatch env t w) m")
  case True
  then have "pcs = []" "m' = scheduled t m"
    using assms by (auto simp: dispatch_def Let_def split: post_reply.splits)
  with True show ?thesis unfolding flight_change_def flight_of_def by (simp add: hand_def)
next
  case False
  then have "pcs = [Want (Add_pending t)] \<or> (\<exists>te. pcs = [Want (Assign w t te)])" "m' = scheduled t m"
    using assms by (auto simp: dispatch_def Let_def split: if_splits post_reply.splits)
  then show ?thesis by (auto simp: flight_of_def hand_def flight_same)
qed

lemma rlock_flight:
  "rlock_move k m = Moves m' pcs \<Longrightarrow> hand k = hand pc \<Longrightarrow>
     flight_change (flight_of contents m [pc]) (flight_of contents m' pcs) pc m m'"
  by (auto simp: rlock_move_def rlocked_def flight_of_def flight_same split: if_splits)

lemma move_flight:
  assumes fifo: "fifo Q contents" and wf: "manager_wf contents m" and mv: "move Q pc m = Moves m' pcs"
  shows "flight_change (flight_of contents m [pc]) (flight_of contents m' pcs) pc m m'"
proof (cases pc)
  case (Inside r)
  then obtain u where u: "region_body Q r m = Return pcs u" "m' = mu_update (\<lambda>x. x\<lparr>writer := False\<rparr>) u"
    using mv by (auto split: result.splits)
  show ?thesis
    using region_flight [OF fifo wf u(1)] unfolding Inside u(2) flight_change_def by (simp add: task_at_def)
next
  case (Healthy_loop env t ws found)
  show ?thesis
  proof (cases ws)
    case Nil
    with Healthy_loop mv show ?thesis
      by (cases "found = []") (auto simp: flight_of_def hand_def flight_change_def runlocked_def)
  next
    case (Cons w ws')
    with Healthy_loop mv show ?thesis
      by (intro rlock_flight [of "Healthy_read env t w ws' found"]) (simp_all add: hand_def)
  qed
next
  case (Ready_loop env t hs ws found)
  show ?thesis
  proof (cases ws)
    case Nil
    have "workersInBoth hs [] = []" by (simp add: workersInBoth_filter)
    with Nil Ready_loop mv show ?thesis
      by (cases "workersInBoth hs found = []")
        (auto simp: flight_of_def hand_def flight_change_def runlocked_def split: if_splits)
  next
    case (Cons w ws')
    with Ready_loop mv show ?thesis
      by (intro rlock_flight [of "Ready_read env t hs w ws' found"]) (simp_all add: hand_def)
  qed
next
  case (Dispatch env t w)
  then show ?thesis using dispatch_flight mv by simp
next
  case (Create t)
  with mv have m': "m' = m\<lparr>store := snd (alloc t (store m))\<rparr>" "pcs = [Want (Add_pending (fresh (store m)))]"
    by (simp_all add: alloc_def Let_def)
  with Create show ?thesis by (simp add: flight_change_def flight_of_def hand_def)
next
  case (Update_inside replies)
  with mv show ?thesis
    using hand_update_goroutine by (auto simp: flight_of_def hand_def runlocked_def flight_same)
next
  case (Page_want r)
  show ?thesis
  proof (cases "parsePaginationParams r")
    case (Inl e)
    with Page_want mv show ?thesis by (simp add: flight_of_def hand_def flight_same)
  next
    case (Inr pl)
    with Page_want mv show ?thesis
      by (intro rlock_flight [of "Page_inside (fst pl) (snd pl)"]) (simp_all add: hand_def split_beta)
  qed
next
  case (Page_inside pg per_page)
  have "(pcs = [] \<and> m' = runlocked m) \<or> (pcs = [Dead_reader] \<and> m' = m)"
    using mv Page_inside by (auto simp: Let_def split: if_splits)
  with Page_inside show ?thesis by (auto simp: flight_of_def hand_def runlocked_def flight_same)
qed (use mv in \<open>auto simp: flight_of_def hand_def runlocked_def rlock_move_def rlocked_def flight_change_def
       pc_ok_region split: if_splits health_reply.splits\<close>)

lemma in_flight_member: "in_flight contents (m, add_mset pc T)
    = flight_of contents m [pc] + (\<Sum>k\<in>#T. hand k)"
  by (simp add: in_flight_def flight_of_def)

lemma in_flight_after: "in_flight contents (m, mset pcs + T) = flight_of contents m pcs + (\<Sum>k\<in>#T. hand k)"
proof -
  have "(\<Sum>k\<in>#mset pcs. hand k) = sum_list (map hand pcs)" by (metis mset_map sum_mset_sum_list)
  then show ?thesis by (simp add: in_flight_def flight_of_def)
qed

lemma flight_change_add:
  "flight_change a b pc m m' \<Longrightarrow> flight_change (a + x) (b + x) pc m m'"
  by (auto simp: flight_change_def)

section \<open>The nested read locks\<close>

text \<open>A loop that holds the read lock and is about to take it again.\<close>

fun rereads :: "pc \<Rightarrow> bool" where
  "rereads (Healthy_loop env t (w # ws) found) = True"
| "rereads (Ready_loop env t hs (w # ws) found) = True"
| "rereads _ = False"

lemma rereads_facts:
  "rereads pc \<Longrightarrow> rholds pc = 1 \<and> pc \<noteq> Announced r \<and> (move Q pc m = Waits \<longleftrightarrow> \<not> can_rlock (mu m))"
  by (cases pc rule: rereads.cases) (auto simp: rlock_move_def)

lemma member_le_sum: "pc \<in># T \<Longrightarrow> f pc \<le> (\<Sum>k\<in>#T. (f k :: nat))"
  by (metis le_add1 multi_member_split sum_mset.insert image_mset_add_mset)

text \<open>The reader waits for the announced writer, the writer for the reader.\<close>

definition deadlocked :: "pc \<Rightarrow> region \<Rightarrow> 'q config \<Rightarrow> bool" where
  "deadlocked a r c \<longleftrightarrow> rereads a \<and> a \<in># snd c \<and> Announced r \<in># snd c"

lemma deadlocked_mutex:
  assumes "conc_inv contents (m, T)" and "deadlocked a r (m, T)"
  shows "\<not> can_lock (mu m)" and "\<not> can_rlock (mu m)" and "\<not> writer (mu m)" and "Inside r' \<notin># T"
proof -
  have mem: "a \<in># T" "Announced r \<in># T" "rholds a = 1"
    using assms(2) rereads_facts [of a r] by (auto simp: deadlocked_def)
  have "1 \<le> readers (mu m)" "1 \<le> writers_waiting (mu m)"
    using assms(1) member_le_sum [OF mem(1), of rholds] member_le_sum [OF mem(2), of announced] mem(3)
    by (auto simp: conc_inv_def)
  then show "\<not> can_lock (mu m)" "\<not> can_rlock (mu m)" by (simp_all add: can_lock_def can_rlock_def)
  show "\<not> writer (mu m)" using assms(1) \<open>1 \<le> readers (mu m)\<close> by (auto simp: conc_inv_def)
  then have "(\<Sum>k\<in>#T. wholds k) = 0" using assms(1) by (simp add: conc_inv_def)
  then show "Inside r' \<notin># T" using member_le_sum [of "Inside r'" T wholds] by auto
qed

lemma deadlocked_step:
  assumes inv: "conc_inv contents c" and dead: "deadlocked a r c" and step: "conc_step Q c c'"
  shows "deadlocked a r c'"
  using step
proof (cases rule: conc_step.cases)
  case (spawn pc m T)
  with dead show ?thesis by (simp add: deadlocked_def)
next
  case (run pc m m' pcs T)
  note stuck = deadlocked_mutex [OF inv [unfolded run(1)] dead [unfolded run(1)]]
  have "pc \<noteq> a" "pc \<noteq> Announced r"
    using run(3) stuck(1,2) dead rereads_facts [of a r Q m] by (auto simp: deadlocked_def)
  with dead run show ?thesis by (auto simp: deadlocked_def)
qed

lemma deadlocked_reachable:
  assumes "conc_reachable Q c c'" and "conc_inv contents c" and "fifo Q contents" and "deadlocked a r c"
  shows "deadlocked a r c'"
  using assms
proof (induction rule: conc_reachable.induct)
  case (later c' c'')
  then show ?case using deadlocked_step conc_reachable_inv by blast
qed


section \<open>The dead reader\<close>

text \<open>
  Without the write lock a goroutine writes no field of the manager but the mutex and the store: it
  makes new cells, and in \<open>SendWork\<close> it sets the state of the task in its hand.
\<close>

lemma move_outside:
  assumes "move Q pc m = Moves m' pcs" and "\<forall>r. pc \<noteq> Inside r"
  shows "m' = m\<lparr>store := store m', mu := mu m'\<rparr> \<and> fresh (store m) \<le> fresh (store m')
    \<and> (\<forall>p < fresh (store m). task_at m' p = task_at m p
        \<or> in_hand pc = Some p \<and> task_at m' p = (task_at m p)\<lparr>State := Scheduled\<rparr>)
    \<and> (\<forall>k \<in> set pcs. \<forall>p. in_hand k = Some p \<longrightarrow> in_hand pc = Some p \<or> p = fresh (store m))"
proof (cases pc)
  case (Dispatch env t w)
  then have "m' = scheduled t m" "pcs = [] \<or> pcs = [Want (Add_pending t)] \<or> (\<exists>te. pcs = [Want (Assign w t te)])"
    using assms(1) by (auto simp: dispatch_def Let_def split: if_splits post_reply.splits)
  with Dispatch show ?thesis by (auto simp: scheduled_def task_at_def)
next
  case (Update_inside replies)
  then have "in_hand k = None" if "k \<in> set pcs" for k
    using assms(1) that
    by (auto simp: update_goroutine_def split: tasks_reply.splits sum.splits if_splits)
  with Update_inside assms(1) show ?thesis by (auto simp: runlocked_def task_at_def)
next
  case (Healthy_loop env t ws found)
  with assms(1) show ?thesis
    by (cases ws) (auto simp: rlock_move_def rlocked_def runlocked_def task_at_def split: if_splits)
next
  case (Ready_loop env t hs ws found)
  with assms(1) show ?thesis
    by (cases ws) (auto simp: rlock_move_def rlocked_def runlocked_def task_at_def split: if_splits)
qed (use assms in \<open>auto simp: rlock_move_def rlocked_def runlocked_def task_at_def alloc_def Let_def
       split: if_splits sum.splits prod.splits health_reply.splits\<close>)

text \<open>What holds of every configuration after one in which a reader has died.\<close>

definition frozen :: "'q config \<Rightarrow> 'q config \<Rightarrow> bool" where
  "frozen c c' \<longleftrightarrow> Dead_reader \<in># snd c' \<and> (\<forall>r. Announced r \<in># snd c \<longrightarrow> Announced r \<in># snd c')
     \<and> fst c' = (fst c)\<lparr>store := store (fst c'), mu := mu (fst c')\<rparr> \<and> fresh (store (fst c)) \<le> fresh (store (fst c'))
     \<and> (\<forall>p < fresh (store (fst c)). task_at (fst c') p = task_at (fst c) p
          \<or> (\<exists>k \<in># snd c. in_hand k = Some p) \<and> task_at (fst c') p = (task_at (fst c) p)\<lparr>State := Scheduled\<rparr>)
     \<and> (\<forall>k \<in># snd c'. \<forall>p. in_hand k = Some p \<longrightarrow> fresh (store (fst c)) \<le> p \<or> (\<exists>k \<in># snd c. in_hand k = Some p))"

lemma dead_reader_mutex:
  assumes "conc_inv contents (m, T)" and "Dead_reader \<in># T"
  shows "\<not> can_lock (mu m)" and "Inside r \<notin># T" and "Announced r' \<in># T \<Longrightarrow> \<not> can_rlock (mu m)"
proof -
  have r: "1 \<le> readers (mu m)"
    using assms member_le_sum [OF assms(2), of rholds] by (auto simp: conc_inv_def)
  then show "\<not> can_lock (mu m)" by (simp add: can_lock_def)
  have "(\<Sum>k\<in>#T. wholds k) = 0" using assms(1) r by (auto simp: conc_inv_def split: if_splits)
  then show "Inside r \<notin># T" using member_le_sum [of "Inside r" T wholds] by auto
  have w: "writers_waiting (mu m) = (\<Sum>k\<in>#T. announced k)" using assms(1) by (simp add: conc_inv_def)
  show "\<not> can_rlock (mu m)" if "Announced r' \<in># T"
    unfolding can_rlock_def w using member_le_sum [OF that, of announced] by (auto simp del: sum_mset_0_iff)
qed

lemma frozen_run:
  assumes inv: "conc_inv contents (m, add_mset pc T)" and f: "frozen c (m, add_mset pc T)"
    and mv: "move Q pc m = Moves m' pcs"
  shows "frozen c (m', mset pcs + T)"
proof -
  have dead: "Dead_reader \<in># add_mset pc T" using f by (simp add: frozen_def)
  note stuck = dead_reader_mutex [OF inv dead]
  have out: "\<forall>r. pc \<noteq> Inside r" using stuck(2) by auto
  have stay: "pc \<noteq> Dead_reader" "\<forall>r. pc \<noteq> Announced r" using mv stuck(1) by auto
  note o = move_outside [OF mv out]
  have "m' = (fst c)\<lparr>store := store m', mu := mu m'\<rparr>" (is "_ = ?new")
  proof -
    have "m = (fst c)\<lparr>store := store m, mu := mu m\<rparr>" using f by (simp add: frozen_def)
    moreover have "m' = m\<lparr>store := store m', mu := mu m'\<rparr>" using o by blast
    ultimately show ?thesis by (cases "fst c"; cases m; cases m') simp
  qed
  moreover have "task_at m' p = task_at (fst c) p
      \<or> (\<exists>k \<in># snd c. in_hand k = Some p) \<and> task_at m' p = (task_at (fst c) p)\<lparr>State := Scheduled\<rparr>"
    if p: "p < fresh (store (fst c))" for p
  proof -
    have lt: "p < fresh (store m)" using p f by (simp add: frozen_def)
    have old: "task_at m p = task_at (fst c) p
        \<or> (\<exists>k \<in># snd c. in_hand k = Some p) \<and> task_at m p = (task_at (fst c) p)\<lparr>State := Scheduled\<rparr>"
      using f p by (simp add: frozen_def)
    have "in_hand pc = Some p \<Longrightarrow> \<exists>k \<in># snd c. in_hand k = Some p"
      using f p unfolding frozen_def by (metis fst_conv leD snd_conv union_single_eq_member)
    then show ?thesis using o lt old by fastforce
  qed
  moreover have "fresh (store (fst c)) \<le> p \<or> (\<exists>k \<in># snd c. in_hand k = Some p)"
    if k: "k \<in># mset pcs + T" "in_hand k = Some p" for k p
  proof (cases "k \<in># T")
    case True
    then show ?thesis using f k(2) by (auto simp: frozen_def)
  next
    case False
    then have "in_hand pc = Some p \<or> p = fresh (store m)" using k o by auto
    then show ?thesis using f by (auto simp: frozen_def)
  qed
  moreover have "fresh (store (fst c)) \<le> fresh (store m')" using f o by (auto simp: frozen_def)
  ultimately show ?thesis using f stay unfolding frozen_def by auto
qed

lemma frozen_step:
  assumes "conc_inv contents c1" and "frozen c c1" and "conc_step Q c1 c2"
  shows "frozen c c2"
  using assms(3)
proof (cases rule: conc_step.cases)
  case (spawn pc m T)
  with assms(2) show ?thesis using starts_neutral [of pc m] by (auto simp: frozen_def)
next
  case (run pc m m' pcs T)
  then show ?thesis using frozen_run assms(1,2) by blast
qed

lemma frozen_reachable:
  assumes "conc_reachable Q c c'" and "conc_inv contents c" and "fifo Q contents" and "Dead_reader \<in># snd c"
  shows "frozen c c'"
  using assms
proof (induction rule: conc_reachable.induct)
  case init
  then show ?case by (auto simp: frozen_def)
next
  case (later c' c'')
  then show ?case using frozen_step conc_reachable_inv by blast
qed

section \<open>Which moves end the process\<close>

text \<open>
  A goroutine that is about to dereference nil: the request of a POST or of a health check could not
  be built, or a worker's list has a \<open>null\<close> entry.
\<close>

fun about_to_crash :: "pc \<Rightarrow> bool" where
  "about_to_crash (Dispatch env t w) = (marshal_error env = None \<and> new_request_error env \<noteq> None)"
| "about_to_crash (Inside (Merge work tasks)) = (\<not> no_nil tasks)"
| "about_to_crash (Health_request w reply) = (reply = NoRequest)"
| "about_to_crash _ = False"

lemma merge_task_no_wait: "\<not> waits (merge_task work e m)"
  by (simp add: merge_task_def Let_def split: option.split prod.split)

lemma for_each_no_wait:
  assumes "\<And>x m. \<not> waits (body x m)"
  shows "\<not> waits (for_each body xs m)"
proof (induction xs arbitrary: m)
  case (Cons x xs)
  then show ?case using assms [of x m] by (cases "body x m") simp_all
qed simp

lemma region_returns:
  assumes wf: "manager_wf contents m" and ok: "pc_ok m (Inside r)" and "\<not> about_to_crash (Inside r)"
  shows "\<exists>pcs u. region_body Q r m = Return pcs u"
proof (cases r)
  case (Take_pending env)
  then show ?thesis by (auto simp: region_body_def Let_def split: prod.split option.split)
next
  case (Choose env t usable)
  with ok show ?thesis by (auto simp: region_body_def pc_ok_def Let_def)
next
  case (Add_pending t)
  with manager_wfD(1) [OF wf] show ?thesis by (simp add: region_body_def AddTask_body_added)
next
  case (Stop_by_id parsed)
  then show ?thesis by (auto simp: region_body_def split: sum.split option.split)
next
  case (Merge work tasks)
  with assms(3) obtain wts where "tasks = map Some wts" by (auto simp: no_nil_iff_map)
  with Merge show ?thesis using for_each_merge [OF wf, of work wts] by (simp add: region_body_def)
qed (simp_all add: region_body_def)

lemma rlock_move_safe: "rlock_move k m \<noteq> Crashes"
  by (simp add: rlock_move_def)

lemma move_crashes:
  assumes wf: "manager_wf contents m" and ok: "pc_ok m pc"
  shows "move Q pc m = Crashes \<longleftrightarrow> about_to_crash pc"
proof (cases "\<exists>r. pc = Inside r")
  case True
  then obtain r where r: "pc = Inside r" by blast
  show ?thesis
  proof (cases "about_to_crash pc")
    case False
    then obtain pcs u where "region_body Q r m = Return pcs u"
      using region_returns [OF wf] ok r by blast
    with r False show ?thesis by simp
  next
    case True
    then obtain work tasks where m: "r = Merge work tasks" "\<not> no_nil tasks"
      using r by (cases r) auto
    have "\<not> waits (for_each (merge_task work) tasks m)"
      by (rule for_each_no_wait) (rule merge_task_no_wait)
    then have "\<exists>p u. for_each (merge_task work) tasks m = Panic p u"
      using for_each_merge_no_null [OF wf, of work tasks] m(2)
      by (cases "for_each (merge_task work) tasks m") auto
    with r m True show ?thesis by (auto simp: region_body_def)
  qed
next
  case False
  then show ?thesis
    by (cases "(Q, pc, m)" rule: move.cases)
      (auto simp: rlock_move_safe dispatch_def Let_def
        split: post_reply.split sum.split prod.split health_reply.split)
qed

lemma create_alone:
  assumes "manager_wf contents m" and "quiet m"
  shows "conc_reachable Q (m, T) (created Q t m, T)"
proof -
  let ?m = "m\<lparr>store := snd (alloc t (store m))\<rparr>"
  have 1: "conc_reachable Q (m, T) (m, add_mset (Create t) T)" by (rule reach_spawn) simp
  have 2: "conc_reachable Q (m, add_mset (Create t) T) (?m, add_mset (Want (Add_pending (fresh (store m)))) T)"
    by (rule reach_run1) (simp add: alloc_def Let_def)
  have "conc_reachable Q (?m, add_mset (Want (Add_pending (fresh (store m)))) T) (added Q (fresh (store m)) ?m, T)"
    by (rule add_alone) (use assms manager_wfD(1) [OF assms(1)] in \<open>simp_all add: quiet_def\<close>)
  from reach_trans [OF this reach_trans [OF 2 1]] show ?thesis by (simp add: created_def)
qed

lemma stop_alone:
  assumes wf: "manager_wf contents m" and q: "quiet m" and u: "TaskDb m u = Some p"
  shows "conc_reachable Q (m, T) (stopped Q p m, T)"
proof -
  let ?m = "m\<lparr>store := write_cell p (\<lambda>t. t\<lparr>State := Completed\<rparr>) (store m)\<rparr>"
  have 1: "conc_reachable Q (m, T) (m, add_mset (Want (Stop_by_id (Inr u))) T)" by (rule reach_spawn) simp
  have "region_body Q (Stop_by_id (Inr u)) m = Return [Want (Add_pending p)] ?m"
    using u by (simp add: region_body_def)
  from region_alone [OF q this] have 2: "conc_reachable Q (m, add_mset (Want (Stop_by_id (Inr u))) T)
      (?m, add_mset (Want (Add_pending p)) T)"
    by simp
  have "conc_reachable Q (?m, add_mset (Want (Add_pending p)) T) (added Q p ?m, T)"
    by (rule add_alone) (use q manager_wfD(1) [OF wf] in \<open>simp_all add: quiet_def\<close>)
  from reach_trans [OF this reach_trans [OF 2 1]] show ?thesis by (simp add: stopped_def)
qed

lemma panic_alone:
  assumes q: "quiet m" and run: "GetTasksHandler r m = Panic p t"
  shows "conc_reachable Q (m, {#}) (t, {#Dead_reader#})"
proof -
  obtain pg per_page where pl: "parsePaginationParams r = Inr (pg, per_page)"
    using run by (auto simp: GetTasksHandler_def split: sum.splits)
  have t: "t = rlocked m" using list_panic_leaks(1) [OF run] by (simp add: rlocked_def)
  have 1: "conc_reachable Q (m, {#}) (m, {#Page_want r#})" by (rule reach_spawn) simp
  have 2: "conc_reachable Q (m, {#Page_want r#}) (t, {#Page_inside pg per_page#})"
    by (rule reach_run1) (simp add: pl rlock_move_def rlocked_facts [OF q] t)
  have "move Q (Page_inside pg per_page) t = Moves t [Dead_reader]"
    using run pl q
    by (auto simp: GetTasksHandler_def Let_def rlock_op_def runlock_op_def t rlocked_def split: if_splits option.splits)
  from reach_trans [OF reach_run1 [OF this] reach_trans [OF 2 1]] show ?thesis .
qed


text \<open>
  A manager of one worker in the middle of its first \<open>SendWork\<close>: the goroutine has begun the loop of
  \<open>GetHealthyWorkers\<close>, and a health check that has just failed asks for the write lock.
\<close>

definition stuck_env :: send_env where
  "stuck_env = posting_env (\<lambda>w e. Posted 201 None)"

definition stuck_loop :: pc where
  "stuck_loop = Healthy_loop stuck_env 0 [''w1''] []"

definition stuck_start :: "ptr list manager" where
  "stuck_start = (created list_queue zero_task (New list_queue [''w1''] 0))\<lparr>PendingTasks := []\<rparr>"

definition stuck_manager :: "ptr list manager" where
  "stuck_manager = mu_update (\<lambda>x. x\<lparr>writers_waiting := Suc (writers_waiting x)\<rparr>) (rlocked stuck_start)"

lemma stuck_reached:
  "conc_reachable list_queue (New list_queue [''w1''] 0, {#})
     (stuck_manager, {#Announced (Mark ''w1'' True), stuck_loop#})"
proof -
  let ?m0 = "New list_queue [''w1''] 0" and ?Q = list_queue
  let ?c = "created ?Q zero_task ?m0"
  have 1: "conc_reachable ?Q (?m0, {#}) (?c, {#})"
    by (rule create_alone [OF New_wf [OF fifo_list_queue] New_quiet])
  have q: "quiet ?c" using New_quiet [of ?Q "[''w1'']" 0] by (simp add: quiet_def)
  then have qs: "quiet stuck_start" by (simp add: stuck_start_def quiet_def)
  have pending: "PendingTasks ?c = [0]" by (simp add: created_def New_def list_queue_def empty_heap_def)
  have ws: "Workers stuck_start = [''w1'']"
    by (simp add: stuck_start_def created_def New_def)
  have 2: "conc_reachable ?Q (?c, {#}) (?c, {#Want (Take_pending stuck_env)#})" by (rule reach_spawn) simp
  have "region_body ?Q (Take_pending stuck_env) ?c = Return [Select stuck_env 0] stuck_start"
    using pending by (simp add: region_body_def stuck_start_def list_queue_def)
  from region_alone [OF q this] have 3: "conc_reachable ?Q (?c, {#Want (Take_pending stuck_env)#})
      (stuck_start, {#Select stuck_env 0#})"
    by (simp add: stuck_start_def)
  have 4: "conc_reachable ?Q (stuck_start, {#Select stuck_env 0#}) (stuck_start, {#Healthy_want stuck_env 0#})"
    by (rule reach_run1) (simp add: ws)
  have 5: "conc_reachable ?Q (stuck_start, {#Healthy_want stuck_env 0#}) (rlocked stuck_start, {#stuck_loop#})"
    by (rule reach_run1) (simp add: ws rlock_move_def rlocked_facts [OF qs] stuck_loop_def)
  have 6: "conc_reachable ?Q (rlocked stuck_start, {#stuck_loop#})
      (rlocked stuck_start, {#Health_request ''w1'' NoAnswer, stuck_loop#})"
    by (rule reach_spawn) simp
  have h: "conc_reachable ?Q (rlocked stuck_start, {#Health_request ''w1'' NoAnswer, stuck_loop#})
      (rlocked stuck_start, {#Want (Mark ''w1'' True), stuck_loop#})"
    by (rule reach_run1) simp
  have 7: "conc_reachable ?Q (rlocked stuck_start, {#Want (Mark ''w1'' True), stuck_loop#})
      (stuck_manager, {#Announced (Mark ''w1'' True), stuck_loop#})"
    by (rule reach_run1) (simp add: stuck_manager_def)
  show ?thesis
    by (rule reach_trans [OF 7 reach_trans [OF h reach_trans [OF 6 reach_trans [OF 5 reach_trans [OF 4
          reach_trans [OF 3 reach_trans [OF 2 1]]]]]]])
qed

section \<open>Properties\<close>

text \<open>
  C1: however the goroutines of the manager interleave between their operations on the mutex, and
  whatever the network answers, the manager's containers stay consistent, at most one goroutine
  holds the write lock and then nobody holds a read lock, and a task in the hands of a goroutine is
  a cell of the store. What a goroutine thinks it holds of the mutex the mutex records, so no unlock
  finds it unlocked; no goroutine indexes the schedulable workers out of range or meets a nil slot
  of the listing:
  the only moves that end the process are those of a goroutine whose POST request or health
  request could not be built and of one whose worker listed a \<open>null\<close> task.
\<close>

theorem interleaved_manager_safe:
  assumes "fifo Q contents" and "conc_reachable Q (New Q workers now, {#}) (m, T)"
  shows "manager_wf contents m \<and> (\<Sum>pc\<in>#T. wholds pc) \<le> 1
    \<and> (\<forall>pc \<in># T. rholds pc \<le> readers (mu m))
    \<and> ((\<exists>r. Inside r \<in># T) \<longrightarrow> writer (mu m) \<and> readers (mu m) = 0 \<and> (\<forall>pc \<in># T. rholds pc = 0))
    \<and> (\<forall>pc \<in># T. \<forall>t. in_hand pc = Some t \<longrightarrow> t < fresh (store m))
    \<and> (\<forall>pc \<in># T. move Q pc m = Crashes \<longleftrightarrow> about_to_crash pc)"
proof -
  have inv: "conc_inv contents (m, T)"
    by (rule conc_reachable_inv [OF assms(2) conc_inv_New [OF assms(1)] assms(1)])
  then have wf: "manager_wf contents m" and ok: "\<forall>pc \<in># T. pc_ok m pc"
    and w: "(if writer (mu m) then 1 else 0) = (\<Sum>pc\<in>#T. wholds pc)"
    and r: "readers (mu m) = (\<Sum>pc\<in>#T. rholds pc)" "writer (mu m) \<longrightarrow> readers (mu m) = 0"
    by (auto simp: conc_inv_def)
  have held: "\<forall>pc \<in># T. rholds pc \<le> readers (mu m)"
    using member_le_sum [of _ T rholds] by (simp only: r(1)) blast
  moreover have "writer (mu m) \<and> readers (mu m) = 0 \<and> (\<forall>pc \<in># T. rholds pc = 0)" if "Inside r' \<in># T" for r'
  proof -
    have "writer (mu m)" using member_le_sum [OF that, of wholds] w by (auto split: if_splits)
    with r(2) held show ?thesis by auto
  qed
  moreover have "(\<Sum>pc\<in>#T. wholds pc) \<le> 1" by (simp add: w [symmetric])
  ultimately show ?thesis using wf ok move_crashes [OF wf] by (auto simp: pc_ok_def)
qed

theorem interleaved_manager_safe_witness:
  "manager_wf (\<lambda>q. q) stuck_manager \<and> move list_queue stuck_loop stuck_manager \<noteq> Crashes"
proof -
  have "\<not> about_to_crash stuck_loop" by (simp add: stuck_loop_def)
  then show ?thesis using interleaved_manager_safe [OF fifo_list_queue stuck_reached] by simp
qed

text \<open>
  C3: a task is not lost or sent twice by interleaving. In every step the tasks in flight (those in
  the queue and those in the hands of a goroutine) stay the same, or one joins them, because it
  has just been created or because a DELETE has marked it Completed, or one leaves them: it is now
  assigned to a worker, or \<open>SendWork\<close> gives it up because it found no worker to select or because
  the worker refused it with a body that does not decode.
\<close>

theorem tasks_in_flight_conserved:
  assumes "fifo Q contents" and "conc_reachable Q (New Q workers now, {#}) (m, T)"
    and "conc_step Q (m, T) (m', T')"
  shows "in_flight contents (m', T') = in_flight contents (m, T)
    \<or> (\<exists>p. in_flight contents (m', T') = add_mset p (in_flight contents (m, T))
        \<and> (p = fresh (store m) \<or> (\<exists>u. TaskDb m u = Some p \<and> State (task_at m' p) = Completed)))
    \<or> (\<exists>p pc. pc \<in># T \<and> in_hand pc = Some p \<and> in_flight contents (m, T) = add_mset p (in_flight contents (m', T'))
        \<and> ((\<exists>w te. pc = Inside (Assign w p te) \<and> TaskWorkerMap m' (ID (task_at m' p)) = Some w) \<or> gives_up pc m))"
proof -
  have "manager_wf contents m"
    using conc_reachable_inv [OF assms(2) conc_inv_New [OF assms(1)] assms(1)] by (simp add: conc_inv_def)
  from assms(3) show ?thesis
  proof (cases rule: conc_step.cases)
    case (spawn pc)
    then have "in_flight contents (m', T') = in_flight contents (m, T)"
      using starts_neutral [of pc m] by (simp add: in_flight_def hand_def)
    then show ?thesis by blast
  next
    case (run pc pcs S)
    have "flight_change (in_flight contents (m, T)) (in_flight contents (m', T')) pc m m'"
      unfolding run(1,2) in_flight_member in_flight_after
      by (rule flight_change_add [OF move_flight [OF assms(1) \<open>manager_wf contents m\<close> run(3)]])
    moreover have "pc \<in># T" using run(1) by simp
    ultimately show ?thesis unfolding flight_change_def by blast
  qed
qed

theorem tasks_in_flight_conserved_witness:
  "\<exists>m' T'. conc_step list_queue (stuck_manager, {#Announced (Mark ''w1'' True), stuck_loop#}) (m', T')
    \<and> in_flight (\<lambda>q. q) (m', T') = {#0#}"
proof -
  let ?T = "{#Announced (Mark ''w1'' True), stuck_loop#}"
  have step: "conc_step list_queue (stuck_manager, ?T) (stuck_manager, add_mset (Page_want (page_request 1 1)) ?T)"
    by (rule conc_step.spawn) simp
  have "PendingTasks stuck_manager = []" by (simp add: stuck_manager_def rlocked_def stuck_start_def)
  then have now: "in_flight (\<lambda>q. q) (stuck_manager, ?T) = {#0#}"
    by (simp add: in_flight_def hand_def stuck_loop_def)
  have "\<not> gives_up pc stuck_manager" if "pc \<in># ?T" for pc
    using that by (auto simp: stuck_loop_def)
  moreover have "in_flight (\<lambda>q. q) (stuck_manager, add_mset (Page_want (page_request 1 1)) ?T)
      = in_flight (\<lambda>q. q) (stuck_manager, ?T)"
    by (simp add: in_flight_def hand_def)
  ultimately show ?thesis
    using tasks_in_flight_conserved [OF fifo_list_queue stuck_reached step] step now by auto
qed

text \<open>
  C33: the manager can deadlock. \<open>GetHealthyWorkers\<close> and \<open>GetReadyWorkers\<close> call a method that takes
  the read lock again while they hold it. Once a goroutine in one of these loops has a worker left
  to ask about and another has announced itself as a writer, neither moves in any later state; no
  goroutine ever gets the write lock or a read lock again, so no task is sent, listed, created,
  stopped or reconciled.
\<close>

theorem nested_read_locks_deadlock:
  assumes "fifo Q contents" and "conc_reachable Q (New Q workers now, {#}) (m, T)"
    and "rereads a" and "a \<in># T" and "Announced r \<in># T" and "conc_reachable Q (m, T) (m', T')"
  shows "a \<in># T' \<and> move Q a m' = Waits \<and> Announced r \<in># T' \<and> \<not> can_rlock (mu m')
    \<and> (\<forall>r'. move Q (Announced r') m' = Waits \<and> Inside r' \<notin># T')"
proof -
  have inv: "conc_inv contents (m, T)"
    by (rule conc_reachable_inv [OF assms(2) conc_inv_New [OF assms(1)] assms(1)])
  have "deadlocked a r (m', T')"
    by (rule deadlocked_reachable [OF assms(6) inv assms(1)]) (use assms(3-5) in \<open>simp add: deadlocked_def\<close>)
  moreover have "conc_inv contents (m', T')" by (rule conc_reachable_inv [OF assms(6) inv assms(1)])
  note stuck = deadlocked_mutex [OF this \<open>deadlocked a r (m', T')\<close>]
  ultimately show ?thesis
    using stuck rereads_facts [OF assms(3), of r Q m'] by (simp add: deadlocked_def)
qed

theorem nested_read_locks_deadlock_witness:
  "conc_reachable list_queue (New list_queue [''w1''] 0, {#})
     (stuck_manager, {#Announced (Mark ''w1'' True), stuck_loop#})
   \<and> move list_queue stuck_loop stuck_manager = Waits
   \<and> move list_queue (Announced (Mark ''w1'' True)) stuck_manager = Waits"
proof -
  have "rereads stuck_loop" by (simp add: stuck_loop_def)
  then show ?thesis
    using nested_read_locks_deadlock [OF fifo_list_queue stuck_reached _ _ _ conc_reachable.init,
        of stuck_loop "Mark ''w1'' True"] stuck_reached
    by simp
qed

text \<open>
  C35: a reader that has died with the read lock, as the overflowing page request makes one (see
  \<open>GetTasksHandler_overflow\<close>), stops the manager for good. In every later state of the interleaved
  manager the dead reader is still there, nobody holds the write lock, and no goroutine in \<open>Lock\<close>
  ever gets it, those that are waiting included. So the queue, the database, the listing, the
  assignments and the health of the workers stay as they were; only the mutex changes and the
  store, where handlers make cells for tasks they cannot add any more and a goroutine that already
  had a task in its hand may set its state to Scheduled on the way to a POST. And as long as one
  goroutine waits in \<open>Lock\<close>, nobody gets a read lock either.
\<close>

theorem dead_reader_is_for_ever:
  assumes "fifo Q contents" and "conc_reachable Q (New Q workers now, {#}) (m, T)"
    and "Dead_reader \<in># T" and "conc_reachable Q (m, T) (m', T')"
  shows "Dead_reader \<in># T' \<and> m' = m\<lparr>store := store m', mu := mu m'\<rparr>
    \<and> (\<forall>p < fresh (store m). task_at m' p = task_at m p
        \<or> (\<exists>pc \<in># T. in_hand pc = Some p) \<and> task_at m' p = (task_at m p)\<lparr>State := Scheduled\<rparr>)
    \<and> (\<forall>r. Inside r \<notin># T' \<and> move Q (Announced r) m' = Waits \<and> (Announced r \<in># T \<longrightarrow> Announced r \<in># T'))
    \<and> ((\<exists>r. Announced r \<in># T') \<longrightarrow> (\<forall>k. rlock_move k m' = Waits))"
proof -
  have inv: "conc_inv contents (m, T)"
    by (rule conc_reachable_inv [OF assms(2) conc_inv_New [OF assms(1)] assms(1)])
  have f: "frozen (m, T) (m', T')"
    by (rule frozen_reachable [OF assms(4) inv assms(1)]) (simp add: assms(3))
  then have "Dead_reader \<in># T'" by (simp add: frozen_def)
  note stuck = dead_reader_mutex [OF conc_reachable_inv [OF assms(4) inv assms(1)] this]
  show ?thesis using f stuck by (auto simp: frozen_def rlock_move_def)
qed

text \<open>A manager with one task, whose listing has been asked for the page that overflows.\<close>

definition one_task :: "ptr list manager" where
  "one_task = created list_queue zero_task (New list_queue [''w1''] 0)"

theorem dead_reader_is_for_ever_witness:
  "conc_reachable list_queue (New list_queue [''w1''] 0, {#}) (rlocked one_task, {#Dead_reader#})
   \<and> (\<exists>m' T'. conc_reachable list_queue (rlocked one_task, {#Dead_reader#}) (m', T')
       \<and> Announced (Clean_up [] 0) \<in># T' \<and> PendingTasks m' = [0] \<and> rlock_move (Page_inside 1 1) m' = Waits)"
proof -
  let ?Q = list_queue and ?c = "Want (Clean_up [] 0)"
  let ?d = "rlocked one_task" and ?r = "page_request 1152921504606846977 8"
  have 1: "conc_reachable ?Q (New ?Q [''w1''] 0, {#}) (one_task, {#})"
    unfolding one_task_def by (rule create_alone [OF New_wf [OF fifo_list_queue] New_quiet])
  have q: "quiet one_task" using New_quiet [of ?Q "[''w1'']" 0] by (simp add: one_task_def quiet_def)
  have "InsertSorted h [] 0 = Some [Some 0]" for h
    using InsertSorted_at [of "[]" h 0] by (auto simp: no_nil_def)
  then have listing: "SortedTasks one_task = [Some 0]" "PendingTasks one_task = [0]"
    by (simp_all add: one_task_def created_def New_def list_queue_def empty_heap_def listed_after_add_def)
  have "GetTasksHandler ?r one_task = Panic SliceBounds ?d"
    using q listing
    by (simp add: GetTasksHandler_def parse_page_request Let_def rlock_op_def page_start_def go_slice_def
        go_len_def rlocked_def)
  note dead = reach_trans [OF panic_alone [OF q this] 1]
  let ?m = "mu_update (\<lambda>x. x\<lparr>writers_waiting := Suc (writers_waiting x)\<rparr>) ?d"
  have 2: "conc_reachable ?Q (?d, {#Dead_reader#}) (?d, {#?c, Dead_reader#})" by (rule reach_spawn) simp
  have 3: "conc_reachable ?Q (?d, {#?c, Dead_reader#}) (?m, {#Announced (Clean_up [] 0), Dead_reader#})"
    by (rule reach_run1) simp
  note later = reach_trans [OF 3 2]
  show ?thesis
    using dead_reader_is_for_ever [OF fifo_list_queue dead _ later] dead later listing(2)
    by (intro conjI exI [of _ ?m] exI [of _ "{#Announced (Clean_up [] 0), Dead_reader#}"])
      (auto simp: rlocked_def)
qed

text \<open>
  The operations modelled in one piece are runs of the interleaved manager: whatever a step of
  the manager process does to a well-formed manager with a free mutex, the goroutines do too, from
  an operation's start to its end, with nothing left over but the reader of a listing that panicked.
\<close>

theorem interleaving_covers_operations:
  assumes wf: "manager_wf contents m" and q: "quiet m" and fifo: "fifo Q contents" and step: "manager_step Q m t"
  shows "\<exists>T. conc_reachable Q (m, {#}) (t, T) \<and> (\<forall>pc \<in># T. pc = Dead_reader)"
proof -
  have here: "\<exists>T. conc_reachable Q (m, {#}) (m, T) \<and> (\<forall>pc \<in># T. pc = Dead_reader)"
    using conc_reachable.init by (intro exI [of _ "{#}"]) simp
  from step show ?thesis
  proof (cases rule: manager_step.cases)
    case (create env r ws)
    then show ?thesis
      using create_Return [OF wf q create] create_alone [OF wf q, of Q "{#}"] here by fastforce
  next
    case (list_page r ws)
    then show ?thesis using list_unchanged here by blast
  next
    case (list_panic r p)
    then show ?thesis using panic_alone [OF q list_panic] by fastforce
  next
    case (stop up ut taskID r ws)
    then show ?thesis
      using stop_Return [OF wf q stop] stop_alone [OF wf q, of _ _ Q "{#}"] here by fastforce
  next
    case (send env)
    have "conc_reachable Q (m, {#}) (m, {#Want (Take_pending env)#})" by (rule reach_spawn) simp
    from reach_trans [OF send_alone [OF wf q fifo send] this] show ?thesis by fastforce
  next
    case (update replies e)
    have "conc_reachable Q (m, {#}) (m, {#Update_want replies#})" by (rule reach_spawn) simp
    from reach_trans [OF update_alone [OF wf q update] this] show ?thesis by fastforce
  next
    case (cleanup order now)
    have t: "t = fold (cleanup_entry (now - hours TASK_RETENTION_HOURS)) order m"
      using CleanUpTasks_quiet [OF q, of order now] cleanup by simp
    have "conc_reachable Q (m, {#}) (m, {#Want (Clean_up order now)#})" by (rule reach_spawn) simp
    moreover have "region_body Q (Clean_up order now) m = Return [] t" by (simp add: region_body_def t)
    from region_alone [OF q this, of "{#}"] have "conc_reachable Q (m, {#Want (Clean_up order now)#}) (t, {#})"
      by (simp add: t)
    ultimately show ?thesis using reach_trans by fastforce
  next
    case (health results)
    then show ?thesis
      using HealthCheckWorkers_Return [OF q health] health_alone [OF q, of results Q "{#}"] by fastforce
  next
    case wait
    with q show ?thesis by simp
  qed
qed

theorem interleaving_covers_operations_witness:
  "\<exists>t T. manager_step list_queue sample_two t \<and> TaskWorkerMap t 1 = Some ''w2''
    \<and> conc_reachable list_queue (sample_two, {#}) (t, T)"
proof -
  let ?env = "posting_env (\<lambda>w e. Posted 201 None)"
  have id: "ID (task_at sample_two 0) = 1" by (simp add: sample_two_def task_at_def)
  obtain m' where m': "SendWork list_queue ?env sample_two = Return () m'" "TaskWorkerMap m' 1 = Some ''w2''"
    using SendWork_accepted [OF sample_two_ok fifo_list_queue sample_two_send(1) [OF refl], of ?env]
    by (auto simp: sample_two_send(2) posting_env_def id)
  have "manager_step list_queue sample_two m'" using m'(1) by (rule manager_step.send)
  with interleaving_covers_operations [OF sample_two_ok fifo_list_queue this] m'(2) show ?thesis by blast
qed

end
