(* ===== verification/Round_Robin.thy ===== *)
theory Round_Robin
  imports Manager_Concurrent
begin

text \<open>
  The index of the round robin in 64 bits. \<open>lastWorker\<close> is a Go \<open>int\<close> and a natural number in the
  model; here the interleaved manager is shown to compute, in every state it can reach, what
  \<open>(m.lastWorker + 1) % len(schedulable)\<close> gives on 64-bit integers.
\<close>

text \<open>The lists of workers a goroutine of \<open>SendWork\<close> collects are no longer than the configuration.\<close>

fun region_size :: "region \<Rightarrow> nat" where
  "region_size (Choose env t usable) = length usable"
| "region_size _ = 0"

fun collected :: "pc \<Rightarrow> nat" where
  "collected (Healthy_loop env t ws found) = length ws + length found"
| "collected (Healthy_read env t w ws found) = Suc (length ws + length found)"
| "collected (Ready_loop env t hs ws found) = length ws + length found"
| "collected (Ready_read env t hs w ws found) = Suc (length ws + length found)"
| "collected (Want r) = region_size r"
| "collected (Announced r) = region_size r"
| "collected (Inside r) = region_size r"
| "collected _ = 0"

definition bounded :: "string list \<Rightarrow> 'q config \<Rightarrow> bool" where
  "bounded workers c \<longleftrightarrow> Workers (fst c) = workers \<and> lastWorker (fst c) \<le> length workers
     \<and> (\<forall>pc \<in># snd c. collected pc \<le> length workers)"

lemma AddTask_body_frame:
  "AddTask_body Q t m = Return () u \<Longrightarrow> Workers u = Workers m \<and> lastWorker u = lastWorker m"
  by (auto simp: AddTask_body_def Let_def split: option.splits)

lemma merge_frame:
  "for_each (merge_task work) tasks m = Return () u \<Longrightarrow> Workers u = Workers m \<and> lastWorker u = lastWorker m"
proof (induction tasks arbitrary: m)
  case (Cons e tasks)
  obtain v where v: "merge_task work e m = Return () v" "for_each (merge_task work) tasks v = Return () u"
    using Cons.prems by (auto simp: andthen_Return_iff)
  then have "Workers v = Workers m \<and> lastWorker v = lastWorker m"
    by (auto simp: merge_task_def Let_def split: option.splits prod.splits)
  with Cons.IH [OF v(2)] show ?case by simp
qed simp

lemma cleanup_frame: "Workers (fold (cleanup_entry c) us m) = Workers m \<and> lastWorker (fold (cleanup_entry c) us m) = lastWorker m"
  by (induction us arbitrary: m) (simp_all add: cleanup_entry_def forget_assignment_def Let_def split: option.split)

text \<open>A region leaves the configuration as it is, and the index within the chosen workers.\<close>

lemma region_bounded:
  assumes "region_body Q r m = Return pcs u"
  shows "Workers u = Workers m \<and> lastWorker u \<le> max (lastWorker m) (region_size r) \<and> (\<forall>k \<in> set pcs. collected k = 0)"
proof (cases r)
  case (Take_pending env)
  with assms show ?thesis by (auto simp: region_body_def Let_def split: if_splits prod.splits option.splits)
next
  case (Choose env t usable)
  with assms show ?thesis by (auto simp: region_body_def Let_def split: if_splits)
next
  case (Assign w t te)
  with assms show ?thesis by (auto simp: region_body_def record_assignment_def Let_def)
next
  case (Add_pending t)
  with assms show ?thesis using AddTask_body_frame by (fastforce simp: region_body_def andthen_Return_iff)
next
  case (Stop_by_id parsed)
  with assms show ?thesis by (auto simp: region_body_def split: sum.splits option.splits)
next
  case (Merge work tasks)
  with assms show ?thesis using merge_frame by (fastforce simp: region_body_def andthen_Return_iff)
next
  case (Clean_up order now)
  with assms show ?thesis by (auto simp: region_body_def cleanup_frame)
next
  case (Mark w failed)
  with assms show ?thesis
    by (auto simp: region_body_def MarkWorkerDown_body_def MarkWorkerUp_body_def Let_def)
qed

lemma workersInBoth_le: "length (workersInBoth hs found) \<le> length found"
  by (simp add: workersInBoth_filter)

lemma update_collects_nothing: "k \<in> set (update_goroutine r) \<Longrightarrow> collected k = 0"
  by (auto simp: update_goroutine_def split: tasks_reply.splits sum.splits if_splits)

lemma move_bounded:
  assumes "move Q pc m = Moves m' pcs"
  shows "Workers m' = Workers m \<and> lastWorker m' \<le> max (lastWorker m) (collected pc)
    \<and> (\<forall>k \<in> set pcs. collected k \<le> max (length (Workers m)) (collected pc))"
proof (cases pc)
  case (Inside r)
  then obtain u where u: "region_body Q r m = Return pcs u" "m' = mu_update (\<lambda>x. x\<lparr>writer := False\<rparr>) u"
    using assms by (auto split: result.splits)
  from region_bounded [OF u(1)] show ?thesis by (auto simp: Inside u(2))
next
  case (Healthy_loop env t ws found)
  with assms show ?thesis
    by (cases ws) (auto simp: rlock_move_def rlocked_def runlocked_def split: if_splits)
next
  case (Ready_loop env t hs ws found)
  with assms show ?thesis using workersInBoth_le [of hs found]
    by (cases ws) (auto simp: rlock_move_def rlocked_def runlocked_def split: if_splits)
next
  case (Dispatch env t w)
  with assms show ?thesis
    by (auto simp: dispatch_def scheduled_def Let_def split: if_splits post_reply.splits)
next
  case (Update_inside replies)
  with assms show ?thesis using update_collects_nothing by (fastforce simp: runlocked_def)
qed (use assms in \<open>auto simp: rlock_move_def rlocked_def runlocked_def alloc_def Let_def
       split: if_splits sum.splits prod.splits health_reply.splits\<close>)

lemma starts_collect_nothing: "starts pc \<Longrightarrow> collected pc = 0"
  by (cases pc rule: starts.cases) auto

lemma bounded_reachable:
  assumes "conc_reachable Q c c'" and "bounded workers c"
  shows "bounded workers c'"
  using assms
proof (induction rule: conc_reachable.induct)
  case (later c1 c2)
  from later.hyps(2) show ?case
  proof (cases rule: conc_step.cases)
    case (spawn pc m T)
    with later show ?thesis using starts_collect_nothing by (auto simp: bounded_def)
  next
    case (run pc m m' pcs T)
    have b: "bounded workers (m, add_mset pc T)" using later run by simp
    have le: "lastWorker m' \<le> length workers"
      using move_bounded [OF run(3)] b by (auto simp: bounded_def)
    have "collected k \<le> length workers" if "k \<in># mset pcs + T" for k
      using that move_bounded [OF run(3)] b by (fastforce simp: bounded_def)
    with le move_bounded [OF run(3)] b run(2) show ?thesis by (auto simp: bounded_def)
  qed
qed simp

section \<open>Properties\<close>

text \<open>
  C13: the round robin of \<open>SelectWorker\<close> never wraps and never indexes out of range. In every state
  the interleaved manager reaches, a goroutine that has the write lock to choose among the usable
  workers takes the one at \<open>(m.lastWorker + 1) % len(schedulable)\<close>, computed on Go's 64-bit
  integers with their truncating remainder; this index is not negative and below the number of
  usable workers, and it is what \<open>lastWorker\<close> becomes.
\<close>

theorem round_robin_in_64_bits:
  assumes "fifo Q contents" and "conc_reachable Q (New Q workers now, {#}) (m, T)"
    and "length workers < 2 ^ 63 - 1" and "Inside (Choose env t usable) \<in># T"
  defines "k \<equiv> sint (go_rem (word_of_nat (lastWorker m) + 1) (go_len usable))"
  shows "0 \<le> k \<and> k < int (length usable)
    \<and> (\<exists>m'. region_body Q (Choose env t usable) m = Return [Dispatch env t (usable ! nat k)] m'
        \<and> int (lastWorker m') = k \<and> m' = m\<lparr>lastWorker := lastWorker m'\<rparr>)"
proof -
  have "conc_inv contents (m, T)"
    by (rule conc_reachable_inv [OF assms(2) conc_inv_New [OF assms(1)] assms(1)])
  then have some: "usable \<noteq> []" using assms(4) by (fastforce simp: conc_inv_def pc_ok_def)
  have "bounded workers (New Q workers now, {#})" by (simp add: bounded_def New_def)
  from bounded_reachable [OF assms(2) this]
  have "lastWorker m \<le> length workers" "length usable \<le> length workers"
    using assms(4) by (auto simp: bounded_def)
  then have "k = int ((lastWorker m + 1) mod length usable)"
    unfolding k_def go_len_def using some assms(3) by (intro round_robin_exact) auto
  then show ?thesis using some by (auto simp: region_body_def Let_def)
qed

text \<open>A manager whose one worker is up, with one task that \<open>SendWork\<close> has taken to the round robin.\<close>

definition choosing :: "ptr list manager" where
  "choosing = (MarkWorkerUp_body ''w1'' one_task)\<lparr>PendingTasks := []\<rparr>"

lemma choosing_reached:
  "conc_reachable list_queue (New list_queue [''w1''] 0, {#})
     (mu_update (\<lambda>x. x\<lparr>writer := True\<rparr>) choosing, {#Inside (Choose stuck_env 0 [''w1''])#})"
proof -
  let ?Q = list_queue and ?up = "MarkWorkerUp_body ''w1'' one_task" and ?r = "Choose stuck_env 0 [''w1'']"
  have 1: "conc_reachable ?Q (New ?Q [''w1''] 0, {#}) (one_task, {#})"
    unfolding one_task_def by (rule create_alone [OF New_wf [OF fifo_list_queue] New_quiet])
  have q: "quiet one_task" using New_quiet [of ?Q "[''w1'']" 0] by (simp add: one_task_def quiet_def)
  then have qu: "quiet ?up" and qc: "quiet choosing" by (simp_all add: quiet_def choosing_def)
  have 2: "conc_reachable ?Q (one_task, {#}) (?up, {#})"
    using health_alone1 [OF q, of Answered] by (simp add: health_update_def)
  have 3: "conc_reachable ?Q (?up, {#}) (?up, {#Want (Take_pending stuck_env)#})" by (rule reach_spawn) simp
  have "PendingTasks ?up = [0]"
    by (simp add: one_task_def created_def New_def list_queue_def empty_heap_def)
  then have "region_body ?Q (Take_pending stuck_env) ?up = Return [Select stuck_env 0] choosing"
    by (simp add: region_body_def choosing_def list_queue_def)
  from region_alone [OF qu this, of "{#}"] have 4: "conc_reachable ?Q (?up, {#Want (Take_pending stuck_env)#})
      (choosing, {#Select stuck_env 0#})"
    by (simp add: choosing_def)
  have ws: "Workers choosing = [''w1'']" "filter (healthy choosing) [''w1''] = [''w1'']"
      "filter (ready choosing) [''w1''] = [''w1'']"
    by (simp_all add: choosing_def one_task_def created_def New_def Up_fields healthy_def ready_def MarkWorkerUp_body_def)
  have 5: "conc_reachable ?Q (choosing, {#Select stuck_env 0#}) (choosing, {#Healthy_want stuck_env 0#})"
    by (rule reach_run1) (simp add: ws)
  have 6: "conc_reachable ?Q (choosing, {#Healthy_want stuck_env 0#}) (choosing, {#Ready_want stuck_env 0 [''w1'']#})"
    using healthy_phase [OF qc, of ?Q stuck_env 0 "{#}"] ws by simp
  have 7: "conc_reachable ?Q (choosing, {#Ready_want stuck_env 0 [''w1'']#}) (choosing, {#Want ?r#})"
    using ready_phase [OF qc, of ?Q stuck_env 0 "[''w1'']" "{#}"] ws by (simp add: workersInBoth_filter)
  let ?a = "mu_update (\<lambda>x. x\<lparr>writers_waiting := Suc (writers_waiting x)\<rparr>) choosing"
  have 8: "conc_reachable ?Q (choosing, {#Want ?r#}) (?a, {#Announced ?r#})" by (rule reach_run1) simp
  have "can_lock (mu ?a)" using qc by (simp add: quiet_def mutex_free_def can_lock_def)
  then have 9: "conc_reachable ?Q (?a, {#Announced ?r#})
      (mu_update (\<lambda>x. x\<lparr>writer := True\<rparr>) choosing, {#Inside ?r#})"
    by (intro reach_run1) (simp add: mgr.upd_upd comp_def)
  show ?thesis
    by (rule reach_trans [OF 9 reach_trans [OF 8 reach_trans [OF 7 reach_trans [OF 6 reach_trans [OF 5
          reach_trans [OF 4 reach_trans [OF 3 reach_trans [OF 2 1]]]]]]]])
qed

theorem round_robin_in_64_bits_witness:
  "\<exists>m'. region_body list_queue (Choose stuck_env 0 [''w1'']) (mu_update (\<lambda>x. x\<lparr>writer := True\<rparr>) choosing)
    = Return [Dispatch stuck_env 0 ''w1''] m' \<and> lastWorker m' = 0"
  using round_robin_in_64_bits [OF fifo_list_queue choosing_reached, of stuck_env 0 "[''w1'']"] by auto

end
