(* ===== verification/Manager_Spec.thy ===== *)
theory Manager_Spec
  imports Manager_System
begin

text \<open>
  What the manager is for, without its pointers, slices, locks and replies: a fleet. It holds the
  identifiers that wait to be sent, in order, the state of every task it knows, the worker each
  assigned task is with, the configured workers, those of them that can be given a task, and whose
  turn it was last. Each operation has a specification, a function on fleets; \<open>fleet_of\<close> reads the
  fleet off a manager, and the refinement lemmas show that every operation of the manager, run on
  its own with the mutex free, has exactly the effect of its specification.
\<close>

section \<open>The abstract manager\<close>

record fleet =
  waiting :: "uuid list"
  states :: "uuid \<rightharpoonup> state"
  owner :: "uuid \<rightharpoonup> string"
  pool :: "string list"
  usable :: "string list"
  turn :: nat

text \<open>A new task, and the cancelling of one: it is queued once more, as Completed.\<close>

definition submit :: "uuid \<Rightarrow> fleet \<Rightarrow> fleet" where
  "submit u F = F\<lparr>waiting := waiting F @ [u], states := (states F)(u \<mapsto> Pending)\<rparr>"

definition cancel :: "uuid \<Rightarrow> fleet \<Rightarrow> fleet" where
  "cancel u F =
     (if states F u = None then F
      else F\<lparr>waiting := waiting F @ [u], states := (states F)(u \<mapsto> Completed)\<rparr>)"

text \<open>
  Sending the first waiting task. Without a usable worker it is dropped. Otherwise it goes to the
  next usable worker in turn, and \<open>verdict\<close> says what comes of that: the worker takes the task, the
  task waits again, at the end, or it is dropped. \<open>current\<close> says whether the waiting task is the one
  the database has under its identifier; if not, dropping it leaves no trace.
\<close>

datatype verdict = Taken | Refused | Dropped

definition send :: "(string \<Rightarrow> verdict) \<Rightarrow> bool \<Rightarrow> fleet \<Rightarrow> fleet" where
  "send verdict current F =
     (case waiting F of
        [] \<Rightarrow> F
      | u # us \<Rightarrow>
          if usable F = [] then F\<lparr>waiting := us\<rparr>
          else (let k = Suc (turn F) mod length (usable F);
                    w = usable F ! k;
                    F = F\<lparr>waiting := us, turn := k\<rparr>
                in case verdict w of
                     Taken \<Rightarrow> F\<lparr>states := (states F)(u \<mapsto> Scheduled), owner := (owner F)(u \<mapsto> w)\<rparr>
                   | Refused \<Rightarrow> F\<lparr>waiting := us @ [u], states := (states F)(u \<mapsto> Scheduled)\<rparr>
                   | Dropped \<Rightarrow> if current then F\<lparr>states := (states F)(u \<mapsto> Scheduled)\<rparr> else F))"

text \<open>The verdict on a POST: 201 is taken, another status with an unreadable body is dropped.\<close>

definition verdict_of :: "send_env \<Rightarrow> post_reply \<Rightarrow> verdict" where
  "verdict_of env reply =
     (if marshal_error env \<noteq> None then Refused
      else case reply of
             PostFailed err \<Rightarrow> Refused
           | Posted code decode_error \<Rightarrow>
               if code = 201 then Taken else if decode_error = None then Refused else Dropped)"

text \<open>A task a worker reports: its state is adopted, and the worker too if the task is not known.\<close>

definition report :: "string \<Rightarrow> task \<Rightarrow> fleet \<Rightarrow> fleet" where
  "report w t F =
     (if states F (ID t) = None
      then F\<lparr>states := (states F)(ID t \<mapsto> State t), owner := (owner F)(ID t \<mapsto> w)\<rparr>
      else F\<lparr>states := (states F)(ID t \<mapsto> State t)\<rparr>)"

fun reported :: "tasks_reply \<Rightarrow> task list" where
  "reported (Response code (Inr ts)) = (if code = 200 then map the ts else [])"
| "reported r = []"

text \<open>The clean-up: of the tasks it visits, those that are Completed and old are forgotten.\<close>

definition clean :: "uuid list \<Rightarrow> (uuid \<Rightarrow> bool) \<Rightarrow> fleet \<Rightarrow> fleet" where
  "clean order old F =
     (let gone = (\<lambda>u. u \<in> set order \<and> states F u = Some Completed \<and> old u)
      in F\<lparr>states := (\<lambda>u. if gone u then None else states F u),
           owner := (\<lambda>u. if gone u then None else owner F u)\<rparr>)"

text \<open>A health check: a worker of the pool can be used from its answer on, until it does not answer.\<close>

definition check_worker :: "string \<times> health_reply \<Rightarrow> fleet \<Rightarrow> fleet" where
  "check_worker r F =
     F\<lparr>usable := filter (\<lambda>v. if v = fst r then snd r = Answered else v \<in> set (usable F)) (pool F)\<rparr>"

section \<open>The fleet of a manager\<close>

definition fleet_of :: "('q \<Rightarrow> ptr list) \<Rightarrow> 'q manager \<Rightarrow> fleet" where
  "fleet_of contents m =
     \<lparr>waiting = map (\<lambda>p. ID (task_at m p)) (contents (PendingTasks m)),
      states = (\<lambda>u. map_option (\<lambda>p. State (task_at m p)) (TaskDb m u)),
      owner = TaskWorkerMap m, pool = Workers m, usable = schedulable m, turn = lastWorker m\<rparr>"

lemma fleet_of_simps [simp]:
  "waiting (fleet_of contents m) = map (\<lambda>p. ID (task_at m p)) (contents (PendingTasks m))"
  "states (fleet_of contents m) u = map_option (\<lambda>p. State (task_at m p)) (TaskDb m u)"
  "owner (fleet_of contents m) = TaskWorkerMap m" "usable (fleet_of contents m) = schedulable m"
  "pool (fleet_of contents m) = Workers m" "turn (fleet_of contents m) = lastWorker m"
  by (simp_all add: fleet_of_def)

lemma fleet_eqI:
  assumes "waiting F = waiting G" and "\<And>u. states F u = states G u" and "owner F = owner G"
    and "usable F = usable G" and "pool F = pool G" and "turn F = turn G"
  shows "F = (G :: fleet)"
  using assms by (auto intro!: fleet.equality)

text \<open>What no operation on tasks touches: the workers, their health and the turn.\<close>

definition same_workers :: "'q manager \<Rightarrow> 'q manager \<Rightarrow> bool" where
  "same_workers m m' \<longleftrightarrow> Workers m' = Workers m \<and> schedulable m' = schedulable m \<and> lastWorker m' = lastWorker m"

lemma same_workersI:
  "Workers m' = Workers m \<Longrightarrow> WorkerHealth m' = WorkerHealth m \<Longrightarrow> WorkerState m' = WorkerState m \<Longrightarrow>
     lastWorker m' = lastWorker m \<Longrightarrow> same_workers m m'"
  by (simp add: same_workers_def schedulable_def healthy_def [abs_def] ready_def [abs_def])

lemma same_workersD:
  assumes "same_workers m m'"
  shows "Workers m' = Workers m" "schedulable m' = schedulable m" "lastWorker m' = lastWorker m"
  using assms by (simp_all add: same_workers_def)

lemma tasks_keep_workers:
  "same_workers m (created Q t m)" "same_workers m (stopped Q p m)" "same_workers m (added Q p m)"
  "same_workers m (m\<lparr>store := h\<rparr>)" "same_workers m (adopted work wt m)" "same_workers m (scheduled p m)"
  "same_workers m (record_assignment w p te m)" "same_workers m (m\<lparr>PendingTasks := q\<rparr>)"
  by (rule same_workersI; simp add: created_def stopped_def added_def adopted_def scheduled_def
      record_assignment_def Let_def)+

lemma cleanup_keeps_workers: "same_workers m (cleanup_entry c u m)"
  by (rule same_workersI) (auto simp: cleanup_entry_def forget_assignment_def Let_def split: option.split)

section \<open>Every operation refines its specification\<close>

lemma created_owner: "TaskWorkerMap (created Q t m) = TaskWorkerMap m" "TaskWorkerMap (stopped Q p m) = TaskWorkerMap m"
  by (simp_all add: created_def stopped_def added_def)

lemma created_refines:
  assumes wf: "manager_wf contents m" and fifo: "fifo Q contents" and st: "State t = Pending"
  shows "fleet_of contents (created Q t m) = submit (ID t) (fleet_of contents m)"
proof -
  let ?p = "fresh (store m)" and ?m = "created Q t m"
  have at: "task_at ?m q = (if q = ?p then t else task_at m q)" for q
    by (simp add: created_def) (simp add: task_at_def alloc_def)
  have db: "TaskDb ?m = (TaskDb m)(ID t \<mapsto> ?p)"
    by (simp add: created_def) (simp add: task_at_def alloc_def)
  have "states (fleet_of contents ?m) u = (if u = ID t then Some Pending else states (fleet_of contents m) u)" for u
  proof (cases "TaskDb m u")
    case (Some q)
    then have "q \<noteq> ?p" using manager_wfD(5) [OF wf Some] by simp
    with Some st show ?thesis by (simp add: at db)
  qed (use st in \<open>simp add: at db\<close>)
  moreover have "waiting (fleet_of contents ?m) = waiting (fleet_of contents m) @ [ID t]"
  proof -
    have "ID (task_at ?m q) = ID (task_at m q)" if "q \<in> set (contents (PendingTasks m))" for q
      using manager_wfD(3) [OF wf that] by (simp add: at)
    moreover have "contents (PendingTasks ?m) = contents (PendingTasks m) @ [?p]"
      by (simp add: created_def fifo_Enqueue [OF fifo])
    ultimately show ?thesis by (simp add: at)
  qed
  ultimately show ?thesis
    using same_workersD [OF tasks_keep_workers(1) [of m Q t]]
    by (intro fleet_eqI) (simp_all add: submit_def created_owner)
qed

text \<open>Writing the cell of a task that keeps its identifier.\<close>

lemma write_states:
  assumes wf: "manager_wf contents m" and id: "keeps_id f" and m'_def: "m' = m\<lparr>store := write_cell p f (store m)\<rparr>"
  shows "states (fleet_of contents m') u =
      (if TaskDb m u = Some p then Some (State (f (task_at m p))) else states (fleet_of contents m) u)"
    and "waiting (fleet_of contents m') = waiting (fleet_of contents m)"
    and "owner (fleet_of contents m') = owner (fleet_of contents m)"
proof -
  have at: "task_at m' q = (if q = p then f (task_at m p) else task_at m q)" for q
    by (simp add: m'_def task_at_def)
  then have "ID (task_at m' q) = ID (task_at m q)" for q using id by (simp add: keeps_id_def)
  moreover have db: "TaskDb m' = TaskDb m" by (simp add: m'_def)
  ultimately show "waiting (fleet_of contents m') = waiting (fleet_of contents m)" by (simp add: m'_def)
  show "states (fleet_of contents m') u =
      (if TaskDb m u = Some p then Some (State (f (task_at m p))) else states (fleet_of contents m) u)"
    by (cases "TaskDb m u") (simp_all add: at db)
  show "owner (fleet_of contents m') = owner (fleet_of contents m)" by (simp add: m'_def)
qed

lemma stopped_refines:
  assumes wf: "manager_wf contents m" and fifo: "fifo Q contents" and u: "TaskDb m u = Some p"
  shows "fleet_of contents (stopped Q p m) = cancel u (fleet_of contents m)"
proof -
  let ?f = "\<lambda>t. t\<lparr>State := Completed\<rparr>"
  let ?w = "m\<lparr>store := write_cell p ?f (store m)\<rparr>" and ?m = "stopped Q p m"
  have id: "keeps_id ?f" by (simp add: keeps_id_def)
  note W = write_states [OF wf id refl, of p]
  have at: "task_at ?m = task_at ?w" by (simp add: stopped_def)
  have idp: "ID (task_at ?w p) = u" using manager_wfD(6) [OF wf u] by (simp add: task_at_def)
  then have db: "TaskDb ?m = TaskDb m" using u by (simp add: stopped_def fun_upd_idem)
  have key: "TaskDb m v = Some p \<longleftrightarrow> v = u" for v using u manager_wfD(6) [OF wf, of v p] manager_wfD(6) [OF wf u] by auto
  have "states (fleet_of contents ?m) v = (if v = u then Some Completed else states (fleet_of contents m) v)" for v
    using W(1) [of v] by (simp add: at db key)
  moreover have "waiting (fleet_of contents ?m) = waiting (fleet_of contents m) @ [u]"
    using W(2) idp by (simp add: at, simp add: stopped_def fifo_Enqueue [OF fifo])
  ultimately show ?thesis
    using same_workersD [OF tasks_keep_workers(2) [of m Q p]]
    by (intro fleet_eqI) (simp_all add: cancel_def created_owner u)
qed

lemma merged_refines:
  assumes wf: "manager_wf contents m"
  shows "fleet_of contents (merged work wt m) = report work wt (fleet_of contents m)"
proof (cases "TaskDb m (ID wt)")
  case (Some p)
  let ?m = "m\<lparr>store := write_cell p (reconcile wt) (store m)\<rparr>"
  have id: "keeps_id (reconcile wt)" by (simp add: keeps_id_def)
  note W = write_states [OF wf id refl, of p]
  have key: "TaskDb m v = Some p \<longleftrightarrow> v = ID wt" for v
    using Some manager_wfD(6) [OF wf, of v p] manager_wfD(6) [OF wf Some] by auto
  have "State (reconcile wt t) = State wt" for t by (simp add: reconcile_def)
  moreover have "merged work wt m = ?m" using Some by (simp add: merged_def)
  ultimately show ?thesis
    using W Some same_workersD [OF tasks_keep_workers(4) [of m "write_cell p (reconcile wt) (store m)"]]
    by (intro fleet_eqI) (simp_all add: key report_def Some)
next
  case None
  let ?m = "adopted work wt m"
  have at: "task_at ?m q = task_at m q" if "q < fresh (store m)" for q
    using that by (simp add: adopted_cells(1))
  have "states (fleet_of contents ?m) u = (if u = ID wt then Some (State wt) else states (fleet_of contents m) u)" for u
  proof (cases "TaskDb m u")
    case (Some q)
    with manager_wfD(5) [OF wf Some] None show ?thesis by (auto simp: adopted_cells)
  qed (simp add: adopted_cells)
  moreover have "waiting (fleet_of contents ?m) = waiting (fleet_of contents m)"
    using manager_wfD(3) [OF wf] by (simp add: adopted_cells(5) at)
  moreover have "merged work wt m = ?m" using None by (simp add: merged_def)
  ultimately show ?thesis
    using same_workersD [OF tasks_keep_workers(5) [of m work wt]]
    by (intro fleet_eqI) (simp_all add: adopted_cells(4) report_def None)
qed

lemma merge_all_refines:
  "manager_wf contents m \<Longrightarrow>
     fleet_of contents (merge_all work wts m) = fold (report work) wts (fleet_of contents m)"
  unfolding merge_all_def
proof (induction wts arbitrary: m)
  case (Cons wt wts)
  then show ?case using Cons.IH [OF merged_wf [OF Cons.prems]] by (simp add: merged_refines)
qed simp

lemma replies_refine:
  "manager_wf contents m \<Longrightarrow> fleet_of contents (fold apply_reply rs m)
     = fold (\<lambda>r. fold (report (fst r)) (reported (snd r))) rs (fleet_of contents m)"
proof (induction rs arbitrary: m)
  case (Cons r rs)
  have "fleet_of contents (apply_reply r m) = fold (report (fst r)) (reported (snd r)) (fleet_of contents m)"
    using merge_all_refines [OF Cons.prems]
    by (cases "snd r" rule: carries_tasks.cases) (simp_all add: apply_reply_def)
  with Cons.IH [OF apply_reply_wf [OF Cons.prems]] show ?case by simp
qed simp

lemma cleanup_keeps_workers_fold: "same_workers m (fold (cleanup_entry c) us m)"
proof (induction us arbitrary: m)
  case (Cons u us)
  with cleanup_keeps_workers [of m c u] show ?case by (simp add: same_workers_def)
qed (simp add: same_workers_def)

lemma cleanup_refines:
  "fleet_of contents (fold (cleanup_entry c) us m)
     = clean us (\<lambda>u. \<exists>p. TaskDb m u = Some p \<and> StartTime (task_at m p) < c) (fleet_of contents m)"
proof -
  have gone: "expired_entry c m u \<longleftrightarrow> states (fleet_of contents m) u = Some Completed
      \<and> (\<exists>p. TaskDb m u = Some p \<and> StartTime (task_at m p) < c)" for u
    by (auto simp: expired_entry_def expired_def)
  show ?thesis
    using same_workersD [OF cleanup_keeps_workers_fold [of m c us]]
    by (intro fleet_eqI) (auto simp: clean_def Let_def cleanup_fold_maps gone fun_eq_iff)
qed

lemma health_update_refines:
  assumes "snd r \<noteq> NoRequest"
  shows "fleet_of contents (health_update r m) = check_worker r (fleet_of contents m)"
proof -
  obtain w reply where r: "r = (w, reply)" by (cases r)
  have "schedulable (health_update r m)
      = filter (\<lambda>v. if v = w then reply = Answered else v \<in> set (schedulable m)) (Workers m)"
    unfolding schedulable_def using assms
    by (cases reply) (auto simp: r health_update_def Down_fields Up_fields intro!: filter_cong)
  moreover have "lastWorker (health_update r m) = lastWorker m"
    by (auto simp: r health_update_def MarkWorkerDown_body_def MarkWorkerUp_body_def Let_def split: health_reply.split)
  ultimately show ?thesis
    by (intro fleet_eqI) (auto simp: r check_worker_def health_update_def task_at_def split: health_reply.split)
qed

lemma health_refines:
  "NoRequest \<notin> snd ` set rs \<Longrightarrow>
     fleet_of contents (fold health_update rs m) = fold check_worker rs (fleet_of contents m)"
  by (induction rs arbitrary: m) (auto simp: health_update_refines)

section \<open>Sending\<close>

lemma scheduled_states:
  assumes wf: "manager_wf contents m" and t: "TaskDb m' = (if kept then (TaskDb m)(ID (task_at m t) \<mapsto> t) else TaskDb m)"
    and at: "task_at m' = task_at (scheduled t m)"
  shows "states (fleet_of contents m') =
      (if kept \<or> TaskDb m (ID (task_at m t)) = Some t
       then (states (fleet_of contents m))(ID (task_at m t) \<mapsto> Scheduled) else states (fleet_of contents m))"
proof
  fix v
  have s: "task_at (scheduled t m) q = (if q = t then (task_at m t)\<lparr>State := Scheduled\<rparr> else task_at m q)" for q
    by (simp add: scheduled_def task_at_def)
  have "v = ID (task_at m t)" if "TaskDb m v = Some t" using manager_wfD(6) [OF wf that] by simp
  then show "states (fleet_of contents m') v = (if kept \<or> TaskDb m (ID (task_at m t)) = Some t
       then (states (fleet_of contents m))(ID (task_at m t) \<mapsto> Scheduled) else states (fleet_of contents m)) v"
    by (cases "TaskDb m v") (auto simp: t at s)
qed

lemma sending_verdict:
  assumes "fst (select_spec m) = Inr w" and "marshal_error env = None \<longrightarrow> new_request_error env = None"
  shows "sending_of env t m = (case verdict_of env (post env w (sent_event env t m)) of
    Taken \<Rightarrow> Assigned w | Refused \<Rightarrow> Requeued w | Dropped \<Rightarrow> Lost w)"
  using assms by (auto simp: sending_of_def verdict_of_def sent_event_eq split: post_reply.split)

lemma select_spec_state:
  assumes "schedulable m \<noteq> []"
  shows "snd (select_spec m) = m\<lparr>lastWorker := Suc (lastWorker m) mod length (schedulable m)\<rparr>"
  using assms by (auto simp: select_spec_def schedulable_def Let_def filter_empty_conv)

lemma select_spec_error: "schedulable m = [] \<Longrightarrow> snd (select_spec m) = m"
  by (simp add: select_spec_def Let_def)

lemma sent_refines:
  assumes wf: "manager_wf contents m" and fifo: "fifo Q contents"
    and head: "contents (PendingTasks m) = t # ts" "contents q' = ts"
    and ok: "marshal_error env = None \<longrightarrow> new_request_error env = None"
  shows "fleet_of contents (sent Q env t (m\<lparr>PendingTasks := q'\<rparr>))
    = send (\<lambda>w. verdict_of env (post env w (sent_event env t m))) (TaskDb m (ID (task_at m t)) = Some t)
        (fleet_of contents m)"
    (is "fleet_of contents (sent Q env t ?m) = ?spec")
proof (cases "schedulable m = []")
  case True
  then have none: "schedulable ?m = []" by (simp add: same_workersD [OF tasks_keep_workers(8)])
  then have "sending_of env t ?m = NoWorker"
    using select_none [of ?m] by (auto simp: sending_of_def)
  then have "sent Q env t ?m = ?m" by (simp add: sent_def select_spec_error [OF none])
  then show ?thesis
    using True same_workersD [OF tasks_keep_workers(8) [of m q']]
    by (intro fleet_eqI) (simp_all add: send_def head)
next
  case False
  let ?u = "ID (task_at m t)" and ?F = "fleet_of contents m"
  let ?k = "Suc (lastWorker m) mod length (schedulable m)"
  let ?w = "schedulable m ! ?k"
  define n where "n = ?m\<lparr>lastWorker := ?k\<rparr>"
  have sch: "schedulable ?m = schedulable m" by (simp add: same_workersD [OF tasks_keep_workers(8)])
  have sel: "snd (select_spec ?m) = n" "fst (select_spec m) = Inr ?w"
    using False sch by (simp_all add: select_spec_state n_def select_spec_Inr_iff)
  have n: "task_at n = task_at m" "TaskDb n = TaskDb m" "TaskWorkerMap n = TaskWorkerMap m"
      "contents (PendingTasks n) = ts" "lastWorker n = ?k" "Workers n = Workers m"
    by (simp_all add: n_def head(2) task_at_def fun_eq_iff)
  have schn: "schedulable n = schedulable m"
    using sch by (simp add: n_def schedulable_def healthy_def [abs_def] ready_def [abs_def])
  have wfn: "manager_wf contents n"
    unfolding sel(1) [symmetric] by (intro select_wf dequeued_wf [OF wf head])
  have st: "states (fleet_of contents n) = states ?F" by (simp add: fleet_of_def n)
  have ids: "ID (task_at (scheduled t n) p) = ID (task_at m p)" for p by (simp add: n)
  let ?v = "verdict_of env (post env ?w (sent_event env t m))"
  have sent: "sending_of env t ?m = (case ?v of Taken \<Rightarrow> Assigned ?w | Refused \<Rightarrow> Requeued ?w | Dropped \<Rightarrow> Lost ?w)"
    unfolding sending_of_queue by (rule sending_verdict [OF sel(2) ok])
  note frame = same_workersD [OF tasks_keep_workers(6) [of n t]]
  show ?thesis
  proof (cases ?v)
    case Taken
    let ?s = "record_assignment ?w t (event_for env t (scheduled t n)) (scheduled t n)"
    have s: "sent Q env t ?m = ?s" using Taken by (simp add: sent_def sent sel Let_def)
    have at: "task_at ?s = task_at (scheduled t n)" by (simp add: task_at_def fun_eq_iff)
    have states: "states (fleet_of contents ?s) = (states ?F)(?u \<mapsto> Scheduled)"
      using scheduled_states [OF wfn, of ?s True t] at by (simp add: n st)
    show ?thesis
      unfolding s using False Taken states frame
        same_workersD [OF tasks_keep_workers(7) [of "scheduled t n" ?w t "event_for env t (scheduled t n)"]]
      by (intro fleet_eqI) (simp_all add: send_def head Let_def n schn ids at del: fleet_of_simps(2))
  next
    case Refused
    let ?s = "added Q t (scheduled t n)"
    have s: "sent Q env t ?m = ?s" using Refused by (simp add: sent_def sent sel Let_def)
    have states: "states (fleet_of contents ?s) = (states ?F)(?u \<mapsto> Scheduled)"
      using scheduled_states [OF wfn, of ?s True t] by (simp add: n st)
    show ?thesis
      unfolding s using False Refused states frame
        same_workersD [OF tasks_keep_workers(3) [of "scheduled t n" Q t]]
      by (intro fleet_eqI)
        (simp_all add: send_def head Let_def n schn ids fifo_Enqueue [OF fifo] del: fleet_of_simps(2))
  next
    case Dropped
    let ?s = "scheduled t n" and ?b = "TaskDb m ?u = Some t"
    have s: "sent Q env t ?m = ?s" using Dropped by (simp add: sent_def sent sel Let_def)
    have states: "states (fleet_of contents ?s) = (if ?b then (states ?F)(?u \<mapsto> Scheduled) else states ?F)"
      using scheduled_states [OF wfn, of ?s False t] by (simp add: n st)
    show ?thesis
      unfolding s using False Dropped states frame
      by (intro fleet_eqI) (simp_all add: send_def head Let_def n schn ids del: fleet_of_simps(2))
  qed
qed

lemma SendWork_refines:
  assumes wf: "manager_wf contents m" and q: "quiet m" and fifo: "fifo Q contents"
    and ok: "marshal_error env = None \<longrightarrow> new_request_error env = None"
  defines "p \<equiv> hd (contents (PendingTasks m))"
  shows "\<exists>t. SendWork Q env m = Return () t
    \<and> fleet_of contents t = send (\<lambda>w. verdict_of env (post env w (sent_event env p m)))
        (TaskDb m (ID (task_at m p)) = Some p) (fleet_of contents m)"
proof (cases "contents (PendingTasks m)")
  case Nil
  then show ?thesis using SendWork_empty [OF q fifo Nil, of env] by (simp add: send_def)
next
  case (Cons t ts)
  have "sending_of env t m \<noteq> Crashed w" for w
    using ok by (auto simp: sending_of_def split: sum.splits post_reply.splits)
  then obtain q' where "contents q' = ts" "SendWork Q env m = Return () (sent Q env t (m\<lparr>PendingTasks := q'\<rparr>))"
    using SendWork_step [OF wf q fifo Cons, of env] by blast
  with sent_refines [OF wf fifo Cons _ ok] show ?thesis by (simp add: p_def Cons)
qed

section \<open>The requests\<close>

text \<open>The POSTs that create a task.\<close>

definition accepted :: "start_env \<Rightarrow> bool" where
  "accepted env \<longleftrightarrow> length (body_bytes env) \<le> maxBodyBytes
     \<and> (case unmarshal env (body_bytes env) of
          Inl err \<Rightarrow> False
        | Inr req \<Rightarrow> (case validate req of Inl msg \<Rightarrow> False | Inr bytes \<Rightarrow> True))"

lemma status_success [simp]: "status_of (writeSuccessResponse code b) = code"
  and status_error [simp]: "status_of (writeErrorResponse code msg) = code"
  by simp_all

lemma StartTaskHandler_refines:
  assumes wf: "manager_wf contents m" and q: "quiet m" and fifo: "fifo Q contents" and c: "r_correlation r = Some cid"
  shows "\<exists>ws t. StartTaskHandler Q env r m = Return ws t \<and> status_of ws = (if accepted env then 201 else 400)
    \<and> fleet_of contents t = (if accepted env then submit (gen_id env) (fleet_of contents m) else fleet_of contents m)"
proof (cases "accepted env")
  case True
  then obtain req b where r: "length (body_bytes env) \<le> maxBodyBytes" "unmarshal env (body_bytes env) = Inr req"
      "validate req = Inr b"
    by (auto simp: accepted_def split: sum.splits)
  let ?t = "fullTask env cid req b"
  have "fleet_of contents (created Q ?t m) = submit (gen_id env) (fleet_of contents m)"
    using created_refines [OF wf fifo, of ?t] by simp
  then show ?thesis
    using True r c create_task_quiet [OF q manager_wfD(1) [OF wf], of Q ?t]
    by (simp add: StartTaskHandler_def Let_def)
next
  case False
  with c show ?thesis by (auto simp: StartTaskHandler_def accepted_def split: sum.splits)
qed

lemma StopTaskHandler_refines:
  assumes wf: "manager_wf contents m" and q: "quiet m" and fifo: "fifo Q contents"
  shows "\<exists>ws t. StopTaskHandler Q up ut taskID r m = Return ws t
    \<and> fleet_of contents t = (case up taskID of
          Inl err \<Rightarrow> fleet_of contents m
        | Inr u \<Rightarrow> if taskID = [] then fleet_of contents m else cancel u (fleet_of contents m))"
proof (cases "taskID \<noteq> [] \<and> (\<exists>u p. up taskID = Inr u \<and> TaskDb m u = Some p)")
  case True
  then obtain u p where u: "taskID \<noteq> []" "up taskID = Inr u" "TaskDb m u = Some p" by blast
  show ?thesis
    using StopTaskHandler_quiet [OF q manager_wfD(1) [OF wf], of taskID up u p Q ut r] u
      stopped_refines [OF wf fifo u(3)] by simp
next
  case False
  then have no: "taskID = [] \<or> (\<exists>e. up taskID = Inl e) \<or> (\<exists>u. up taskID = Inr u \<and> TaskDb m u = None)"
    by (cases "up taskID") auto
  have "\<exists>ws. StopTaskHandler Q up ut taskID r m = Return ws m \<and> status_of ws = 400"
    using q no by (rule StopTaskHandler_refused [where m = m and taskID = taskID and uuid_parse = up])
  then show ?thesis using no by (auto simp: cancel_def split: sum.split)
qed

section \<open>Properties\<close>

text \<open>
  C2: on a well-formed manager whose mutex is free every operation that runs on its own returns and
  has exactly the effect its specification has on the fleet. A POST with an acceptable body submits
  the new task and any other POST nothing; a DELETE cancels the task its identifier names, if it is
  known; \<open>SendWork\<close> gives the first waiting task to the next usable worker in turn, puts it back or
  drops it, as the reply to the POST says; \<open>updateTasks\<close> adopts the reported states and the tasks it
  does not know, and nothing else; the clean-up forgets, of the tasks it visits, those that are
  Completed and started more than 24 hours ago; and a round of health checks makes a worker of the
  configuration usable when it answers and unusable when it does not. The conditions are those
  under which the process does not crash: a request that can be built, and no \<open>null\<close> task.
\<close>

theorem operations_refine_fleet:
  assumes "manager_wf contents m" and "quiet m" and "fifo Q contents"
  defines "F \<equiv> fleet_of contents m" and "p \<equiv> hd (contents (PendingTasks m))"
  shows "(\<forall>env r cid. r_correlation r = Some cid \<longrightarrow>
        (\<exists>ws t. StartTaskHandler Q env r m = Return ws t \<and> status_of ws = (if accepted env then 201 else 400)
          \<and> fleet_of contents t = (if accepted env then submit (gen_id env) F else F)))
    \<and> (\<forall>up ut taskID r. \<exists>ws t. StopTaskHandler Q up ut taskID r m = Return ws t
          \<and> fleet_of contents t =
              (case up taskID of Inl err \<Rightarrow> F | Inr u \<Rightarrow> if taskID = [] then F else cancel u F))
    \<and> (\<forall>env. (marshal_error env = None \<longrightarrow> new_request_error env = None) \<longrightarrow>
        (\<exists>t. SendWork Q env m = Return () t
          \<and> fleet_of contents t = send (\<lambda>w. verdict_of env (post env w (sent_event env p m)))
              (TaskDb m (ID (task_at m p)) = Some p) F))
    \<and> (\<forall>replies. (\<forall>r \<in> set replies. no_null_entry (snd r)) \<longrightarrow>
        (\<exists>e t. updateTasks replies m = Return e t
          \<and> fleet_of contents t = fold (\<lambda>r. fold (report (fst r)) (reported (snd r))) replies F))
    \<and> (\<forall>order now. \<exists>t. CleanUpTasks order now m = Return () t
          \<and> fleet_of contents t =
              clean order (\<lambda>u. \<exists>p. TaskDb m u = Some p \<and> StartTime (task_at m p) < now - hours 24) F)
    \<and> (\<forall>results. NoRequest \<notin> snd ` set results \<longrightarrow>
        (\<exists>t. HealthCheckWorkers results m = Return () t \<and> fleet_of contents t = fold check_worker results F))"
proof -
  note start = StartTaskHandler_refines [OF assms(1-3)] and stop = StopTaskHandler_refines [OF assms(1-3)]
    and send = SendWork_refines [OF assms(1-3)]
  have update: "\<exists>e t. updateTasks replies m = Return e t
      \<and> fleet_of contents t = fold (\<lambda>r. fold (report (fst r)) (reported (snd r))) replies F"
    if "\<forall>r \<in> set replies. no_null_entry (snd r)" for replies
    using updateTasks_quiet [OF assms(1,2) that] replies_refine [OF assms(1)] by (auto simp: F_def)
  have clean: "\<exists>t. CleanUpTasks order now m = Return () t
      \<and> fleet_of contents t =
          clean order (\<lambda>u. \<exists>p. TaskDb m u = Some p \<and> StartTime (task_at m p) < now - hours 24) F" for order now
    using CleanUpTasks_quiet [OF assms(2), of order now] by (simp add: cleanup_refines F_def TASK_RETENTION_HOURS_def)
  have health: "\<exists>t. HealthCheckWorkers results m = Return () t \<and> fleet_of contents t = fold check_worker results F"
    if "NoRequest \<notin> snd ` set results" for results
    using HealthCheckWorkers_quiet [OF assms(2) that] health_refines [OF that] by (simp add: F_def)
  show ?thesis
    using start stop send update clean health unfolding F_def p_def by (intro conjI allI impI)
qed

theorem operations_refine_fleet_witness:
  "(\<exists>t. SendWork list_queue (posting_env (\<lambda>w e. Posted 201 None)) sample_two = Return () t
      \<and> waiting (fleet_of (\<lambda>q. q) t) = [] \<and> states (fleet_of (\<lambda>q. q) t) 1 = Some Scheduled
      \<and> owner (fleet_of (\<lambda>q. q) t) 1 = Some ''w2'')
   \<and> (\<exists>t. HealthCheckWorkers [(''w1'', Answered), (''w2'', NoAnswer)] sample_two = Return () t
      \<and> usable (fleet_of (\<lambda>q. q) t) = [''w1''])"
proof -
  note refines = operations_refine_fleet [OF sample_two_ok fifo_list_queue]
  let ?env = "posting_env (\<lambda>w e. Posted 201 None)" and ?F = "fleet_of (\<lambda>q. q) sample_two"
  have F: "waiting ?F = [1]" "usable ?F = [''w2'']" "pool ?F = [''w1'', ''w2'']"
    by (simp_all add: sample_two_def New_def task_at_def schedulable_def healthy_def ready_def lookup_default_def)
  obtain t where t: "SendWork list_queue ?env sample_two = Return () t"
      "fleet_of (\<lambda>q. q) t = send (\<lambda>w. verdict_of ?env (post ?env w (sent_event ?env 0 sample_two))) 
         (TaskDb sample_two (ID (task_at sample_two 0)) = Some 0) ?F"
    using refines [THEN conjunct2, THEN conjunct2, THEN conjunct1, rule_format, of ?env]
    by (auto simp: posting_env_def sample_two_def)
  obtain t' where t': "HealthCheckWorkers [(''w1'', Answered), (''w2'', NoAnswer)] sample_two = Return () t'"
      "fleet_of (\<lambda>q. q) t' = fold check_worker [(''w1'', Answered), (''w2'', NoAnswer)] ?F"
    using refines [THEN conjunct2, THEN conjunct2, THEN conjunct2, THEN conjunct2, THEN conjunct2, rule_format,
        of "[(''w1'', Answered), (''w2'', NoAnswer)]"] by auto
  have ft: "fleet_of (\<lambda>q. q) t = ?F\<lparr>waiting := [], turn := 0, states := (states ?F)(1 \<mapsto> Scheduled),
      owner := (owner ?F)(1 \<mapsto> ''w2'')\<rparr>"
    unfolding t(2) by (simp add: send_def F verdict_of_def posting_env_def Let_def del: fleet_of_simps)
  show ?thesis
    using t(1) t'(1)
    by (intro conjI exI [of _ t] exI [of _ t']) (simp_all add: ft t'(2) F check_worker_def del: fleet_of_simps)
qed

end
