(* ===== verification/Go_Router.thy ===== *)
theory Go_Router
  imports Go_Http
begin

text \<open>
  What both APIs register with \<open>github.com/go-chi/chi\<close> and give to \<open>net/http\<close>. A router is the list of
  the calls \<open>initRouter\<close> makes on it. \<open>chi\<close> itself is not part of the repository: matching a
  request to a registration is the parameter \<open>lookup\<close>, and \<open>chi_ok\<close> is what the program relies on, that
  a match is a registered endpoint for the request's method, behind the middlewares of the routers
  around it, outermost first. A request that matches nothing is answered (with 404 or 405) by one
  of the routers, behind the middlewares of this router and of those around it.
\<close>

datatype ('m, 'h) registration =
    Use 'm
  | Verb string string 'h                       \<comment> \<open>\<open>r.Get(pattern, h)\<close>, \<open>r.Post\<close>, \<open>r.Delete\<close>\<close>
  | Handle string 'h                            \<comment> \<open>\<open>r.Handle\<close> and \<open>r.Mount\<close>: every method\<close>
  | Route string "('m, 'h) registration list"

type_synonym ('m, 'h) endpoint = "'m list \<times> string option \<times> string \<times> 'h"
type_synonym params = "string \<Rightarrow> string"
type_synonym ('m, 'h) lookup =
  "('m, 'h) registration list \<Rightarrow> string \<Rightarrow> string \<Rightarrow> 'm list \<times> ('h \<times> params) option"

fun uses :: "('m, 'h) registration list \<Rightarrow> 'm list" where
  "uses [] = []"
| "uses (Use m # rs) = m # uses rs"
| "uses (_ # rs) = uses rs"

fun endpoints_of :: "'m list \<Rightarrow> string \<Rightarrow> ('m, 'h) registration \<Rightarrow> ('m, 'h) endpoint list" where
  "endpoints_of mws prefix (Use m) = []"
| "endpoints_of mws prefix (Verb meth pat h) = [(mws, Some meth, prefix @ pat, h)]"
| "endpoints_of mws prefix (Handle pat h) = [(mws, None, prefix @ pat, h)]"
| "endpoints_of mws prefix (Route pat rs) = concat (map (endpoints_of (mws @ uses rs) (prefix @ pat)) rs)"

definition endpoints :: "('m, 'h) registration list \<Rightarrow> ('m, 'h) endpoint list" where
  "endpoints rs = concat (map (endpoints_of (uses rs) []) rs)"

text \<open>The middlewares in front of each router.\<close>

fun chains_of :: "'m list \<Rightarrow> ('m, 'h) registration \<Rightarrow> 'm list list" where
  "chains_of mws (Route pat rs) = (mws @ uses rs) # concat (map (chains_of (mws @ uses rs)) rs)"
| "chains_of mws _ = []"

definition chains :: "('m, 'h) registration list \<Rightarrow> 'm list list" where
  "chains rs = uses rs # concat (map (chains_of (uses rs)) rs)"

definition chi_ok :: "('m, 'h) lookup \<Rightarrow> bool" where
  "chi_ok lookup \<longleftrightarrow>
     (\<forall>rs meth path mws h ps. lookup rs meth path = (mws, Some (h, ps)) \<longrightarrow>
        (\<exists>which pat. (mws, which, pat, h) \<in> set (endpoints rs) \<and> (which = None \<or> which = Some meth)))
     \<and> (\<forall>rs meth path mws. lookup rs meth path = (mws, None) \<longrightarrow> mws \<in> set (chains rs))"

lemma chi_okD:
  "chi_ok lookup \<Longrightarrow> lookup rs meth path = (mws, Some (h, ps)) \<Longrightarrow>
     \<exists>which pat. (mws, which, pat, h) \<in> set (endpoints rs) \<and> (which = None \<or> which = Some meth)"
  "chi_ok lookup \<Longrightarrow> lookup rs meth path = (mws, None) \<Longrightarrow> mws \<in> set (chains rs)"
  unfolding chi_ok_def by blast+

text \<open>A router that matches literal patterns, with or without a final slash: one that behaves so.\<close>

definition literal_match :: "string \<Rightarrow> string \<Rightarrow> ('m, 'h) endpoint \<Rightarrow> bool" where
  "literal_match meth path e =
     (case e of (mws, which, pat, h) \<Rightarrow>
        (which = None \<or> which = Some meth) \<and> (pat = path \<or> pat = path @ ''/''))"

definition literal_lookup :: "('m, 'h) lookup" where
  "literal_lookup rs meth path =
     (case filter (literal_match meth path) (endpoints rs) of
        [] \<Rightarrow> (uses rs, None)
      | (mws, which, pat, h) # _ \<Rightarrow> (mws, Some (h, \<lambda>_. [])))"

lemma literal_lookup_endpoint:
  assumes "literal_lookup rs meth path = (mws, Some (h, ps))"
  shows "\<exists>which pat. (mws, which, pat, h) \<in> set (endpoints rs) \<and> (which = None \<or> which = Some meth)"
proof (cases "filter (literal_match meth path) (endpoints rs)")
  case Nil
  with assms show ?thesis by (simp add: literal_lookup_def)
next
  case (Cons e es)
  then obtain which pat where e: "e = (mws, which, pat, h)"
    using assms by (cases e) (auto simp: literal_lookup_def)
  have "e \<in> set (filter (literal_match meth path) (endpoints rs))" using Cons by simp
  then show ?thesis by (auto simp: e literal_match_def)
qed

lemma chi_ok_literal: "chi_ok literal_lookup"
  unfolding chi_ok_def
proof (rule conjI; (intro allI impI))
  fix rs :: "('a, 'b) registration list" and meth path mws h ps
  assume "literal_lookup rs meth path = (mws, Some (h, ps))"
  then show "\<exists>which pat. (mws, which, pat, h) \<in> set (endpoints rs) \<and> (which = None \<or> which = Some meth)"
    by (rule literal_lookup_endpoint)
next
  fix rs :: "('a, 'b) registration list" and meth path mws
  assume "literal_lookup rs meth path = (mws, None)"
  then show "mws \<in> set (chains rs)" by (auto simp: literal_lookup_def chains_def split: list.splits)
qed

section \<open>Servers\<close>

record http_server =
  Addr :: string
  ReadTimeout :: time
  WriteTimeout :: time
  ReadHeaderTimeout :: time
  IdleTimeout :: time

text \<open>The text \<open>fmt.Sprintf\<close> makes of an address and a port, with the format of both APIs.\<close>

definition host_port :: "string \<Rightarrow> go_int \<Rightarrow> string" where
  "host_port address port = address @ '':'' @ show_int port"

definition api_server :: "string \<Rightarrow> http_server" where
  "api_server addr =
     \<lparr>Addr = addr, ReadTimeout = seconds 5, WriteTimeout = seconds 10, ReadHeaderTimeout = seconds 2,
      IdleTimeout = seconds 120\<rparr>"

section \<open>Well-formed replies\<close>

text \<open>
  The type of a reply: headers, then one status, then its body. With a status of the 200s the body
  is a handler's data or lines of text, with one from 400 on it is the error record with that status.
\<close>

fun is_line :: "'b write_event \<Rightarrow> bool" where
  "is_line (WriteBody (Lines l)) = True"
| "is_line _ = False"

fun body_fits :: "nat \<Rightarrow> 'b write_event list \<Rightarrow> bool" where
  "body_fits code [] = True"
| "body_fits code [WriteBody (Json d)] = (200 \<le> code \<and> code < 300)"
| "body_fits code [WriteBody (ErrResponse c msg)] = (c = code \<and> 400 \<le> code)"
| "body_fits code ws = (200 \<le> code \<and> code < 300 \<and> list_all is_line ws)"

fun typed_reply :: "'b write_event list \<Rightarrow> bool" where
  "typed_reply [] = False"
| "typed_reply (SetHeader k v # ws) = typed_reply ws"
| "typed_reply (WriteHeader code # ws) = body_fits code ws"
| "typed_reply (WriteBody b # ws) = False"

lemma typed_writeError [simp]: "typed_reply (writeErrorResponse c msg) \<longleftrightarrow> 400 \<le> c"
  by (simp add: writeErrorResponse_def)

lemma typed_writeSuccess [simp]: "typed_reply (writeSuccessResponse c d) \<longleftrightarrow> 200 \<le> c \<and> c < 300"
  by (simp add: writeSuccessResponse_def)

lemma typed_error_reply [simp]: "typed_reply [WriteHeader c, WriteBody (ErrResponse c msg)] \<longleftrightarrow> 400 \<le> c"
  by simp

lemma body_fits_lines: "list_all is_line ws \<Longrightarrow> 200 \<le> code \<Longrightarrow> code < 300 \<Longrightarrow> body_fits code ws"
  by (cases "(code, ws)" rule: body_fits.cases) auto

end
