(* ===== verification/Routing.thy ===== *)
theory Routing
  imports Go_Router Manager_System Worker_Http
begin

text \<open>
  Routers and servers of the two APIs, \<open>src/internal/manager/http/api.go\<close> and
  \<open>src/internal/worker/http/api.go\<close>: what \<open>initRouter\<close> registers, the server \<open>Start\<close> makes of it, and what
  becomes of a request, from the router through the middlewares to the handler.

  The router, the JSON, uuid and template libraries and the handlers that are not the program's
  (the debug multiplexer and the file server) are inputs.
\<close>

section \<open>The manager's API\<close>

datatype manager_mw = ApiKeyAuth | ApiRateLimit | Correlation

datatype manager_endpoint = StartTask_ep | GetTasks_ep | StopTask_ep | DefaultServeMux | IndexHtml | FileServer

record manager_api =
  a_Address :: string
  a_Port :: go_int
  a_Router :: "(manager_mw, manager_endpoint) registration list"
  APIConfig :: api_keys

definition manager_routes :: "(manager_mw, manager_endpoint) registration list" where
  "manager_routes =
     [Handle ''/debug'' DefaultServeMux,
      Route ''/tasks''
        [Use ApiKeyAuth, Use ApiRateLimit, Use Correlation,
         Verb ''POST'' ''/'' StartTask_ep,
         Verb ''GET'' ''/'' GetTasks_ep,
         Route ''/{taskID}'' [Verb ''DELETE'' ''/'' StopTask_ep]],
      Verb ''GET'' ''/'' IndexHtml,
      Handle ''/*'' FileServer]"

definition initRouter :: "manager_api \<Rightarrow> manager_api" where
  "initRouter a = a\<lparr>APIConfig := loadAPIKeys, a_Router := manager_routes\<rparr>"

text \<open>
  \<open>Start\<close>: \<open>listen\<close> is \<open>ListenAndServe\<close>, which returns only with an error; that ends the process.
\<close>

definition Start :: "(http_server \<Rightarrow> error option) \<Rightarrow> manager_api \<Rightarrow> error + manager_api" where
  "Start listen a =
     (let a = initRouter a; addr = host_port (a_Address a) (a_Port a); server = api_server addr
      in case listen server of
           Some err \<Rightarrow> Inl (''Failed to start server: '' @ err)
         | None \<Rightarrow> Inr a)"

record manager_web =
  m_lookup :: "(manager_mw, manager_endpoint) lookup"
  m_start :: start_env
  m_parse :: "string \<Rightarrow> error + uuid"
  m_text :: "uuid \<Rightarrow> string"
  m_generated :: string
  m_other :: "manager_endpoint \<Rightarrow> request \<Rightarrow> manager_json write_event list"
  m_unmatched :: "request \<Rightarrow> manager_json write_event list"

fun apply_mw :: "api_keys \<Rightarrow> string \<Rightarrow> manager_mw \<Rightarrow> ('b, 's) handler \<Rightarrow> ('b, 's) handler" where
  "apply_mw keys generated ApiKeyAuth = ApiKeyAuthMiddleware keys"
| "apply_mw keys generated ApiRateLimit = ApiRateLimitMiddleware keys"
| "apply_mw keys generated Correlation = CorrelationMiddleware generated"

fun manager_handler_of :: "'q queue_api \<Rightarrow> manager_web \<Rightarrow> params \<Rightarrow> manager_endpoint \<Rightarrow> 'q manager_handler" where
  "manager_handler_of Q web ps StartTask_ep = StartTaskHandler Q (m_start web)"
| "manager_handler_of Q web ps GetTasks_ep = GetTasksHandler"
| "manager_handler_of Q web ps StopTask_ep = StopTaskHandler Q (m_parse web) (m_text web) (ps ''taskID'')"
| "manager_handler_of Q web ps e = (\<lambda>r m. Return (m_other web e r) m)"

definition manager_serve :: "'q queue_api \<Rightarrow> manager_web \<Rightarrow> manager_api \<Rightarrow> 'q manager_handler" where
  "manager_serve Q web a r m =
     (case m_lookup web (a_Router a) (r_Method r) (r_Path r) of
        (mws, found) \<Rightarrow>
          foldr (apply_mw (APIConfig a) (m_generated web)) mws
            (case found of
               None \<Rightarrow> (\<lambda>r m. Return (m_unmatched web r) m)
             | Some (e, ps) \<Rightarrow> manager_handler_of Q web ps e) r m)"

section \<open>The worker's API\<close>

datatype worker_endpoint =
    W_StartTask | W_GetTasks | W_StopTask | W_Logs | W_Health | W_DefaultServeMux

record worker_api =
  b_Address :: string
  b_Port :: go_int
  b_Router :: "(unit, worker_endpoint) registration list"

definition worker_routes :: "(unit, worker_endpoint) registration list" where
  "worker_routes =
     [Handle ''/debug'' W_DefaultServeMux,
      Route ''/tasks''
        [Verb ''POST'' ''/'' W_StartTask,
         Verb ''GET'' ''/'' W_GetTasks,
         Route ''/{taskID}''
           [Verb ''DELETE'' ''/'' W_StopTask,
            Verb ''GET'' ''/logs'' W_Logs]],
      Route ''/health'' [Verb ''GET'' ''/'' W_Health]]"

definition initRouter_w :: "worker_api \<Rightarrow> worker_api" where
  "initRouter_w a = a\<lparr>b_Router := worker_routes\<rparr>"

definition Start_w :: "(http_server \<Rightarrow> error option) \<Rightarrow> worker_api \<Rightarrow> error + worker_api" where
  "Start_w listen a =
     (let a = initRouter_w a; addr = host_port (b_Address a) (b_Port a); server = api_server addr
      in case listen server of
           Some err \<Rightarrow> Inl (''Failed to start server: '' @ err)
         | None \<Rightarrow> Inr a)"

record ('q, 'd) worker_web =
  w_lookup :: "(unit, worker_endpoint) lookup"
  w_start :: start_request
  w_parse :: "string \<Rightarrow> error + uuid"
  w_docker :: "'d docker_api"
  w_marshal :: "docker_log \<Rightarrow> error + string"
  w_flusher :: bool
  w_order :: "uuid list"
  w_other :: "request \<Rightarrow> worker_json write_event list"
  w_unmatched :: "request \<Rightarrow> worker_json write_event list"

fun worker_handler_of ::
    "'q queue_api \<Rightarrow> ('q, 'd) worker_web \<Rightarrow> params \<Rightarrow> worker_endpoint \<Rightarrow> ('q, 'd) worker_handler" where
  "worker_handler_of Q web ps W_StartTask = StartTaskHandler_w Q (w_start web)"
| "worker_handler_of Q web ps W_GetTasks = GetTasksHandler_w (w_order web)"
| "worker_handler_of Q web ps W_StopTask = StopTaskHandler_w Q (w_parse web) (ps ''taskID'')"
| "worker_handler_of Q web ps W_Logs =
     GetDockerTaskLogsHandler (w_docker web) (w_parse web) (w_marshal web) (w_flusher web) (ps ''taskID'')"
| "worker_handler_of Q web ps W_Health = HealthHandler"
| "worker_handler_of Q web ps W_DefaultServeMux = (\<lambda>r w. Return (w_other web r) w)"

text \<open>The worker's routers register no middleware.\<close>

definition worker_serve :: "'q queue_api \<Rightarrow> ('q, 'd) worker_web \<Rightarrow> worker_api \<Rightarrow> ('q, 'd) worker_handler" where
  "worker_serve Q web a r w =
     (case w_lookup web (b_Router a) (r_Method r) (r_Path r) of
        (mws, None) \<Rightarrow> Return (w_unmatched web r) w
      | (mws, Some (e, ps)) \<Rightarrow> worker_handler_of Q web ps e r w)"


section \<open>What the routers register\<close>

definition task_endpoints :: "manager_endpoint set" where
  "task_endpoints = {StartTask_ep, GetTasks_ep, StopTask_ep}"

lemma manager_endpoints:
  "set (endpoints manager_routes) =
     {([], None, ''/debug'', DefaultServeMux),
      ([ApiKeyAuth, ApiRateLimit, Correlation], Some ''POST'', ''/tasks/'', StartTask_ep),
      ([ApiKeyAuth, ApiRateLimit, Correlation], Some ''GET'', ''/tasks/'', GetTasks_ep),
      ([ApiKeyAuth, ApiRateLimit, Correlation], Some ''DELETE'', ''/tasks/{taskID}/'', StopTask_ep),
      ([], Some ''GET'', ''/'', IndexHtml), ([], None, ''/*'', FileServer)}"
  by (auto simp: endpoints_def manager_routes_def)

lemma worker_endpoints:
  "set (endpoints worker_routes) =
     {([], None, ''/debug'', W_DefaultServeMux), ([], Some ''POST'', ''/tasks/'', W_StartTask),
      ([], Some ''GET'', ''/tasks/'', W_GetTasks), ([], Some ''DELETE'', ''/tasks/{taskID}/'', W_StopTask),
      ([], Some ''GET'', ''/tasks/{taskID}/logs'', W_Logs), ([], Some ''GET'', ''/health/'', W_Health)}"
  by (auto simp: endpoints_def worker_routes_def)

text \<open>Every task endpoint is behind the three middlewares, the others are behind none.\<close>

lemma manager_match:
  assumes "chi_ok lookup" and "lookup manager_routes meth path = (mws, Some (e, ps))"
  shows "mws = (if e \<in> task_endpoints then [ApiKeyAuth, ApiRateLimit, Correlation] else [])"
  using chi_okD(1) [OF assms] by (auto simp: manager_endpoints task_endpoints_def)


lemma manager_serve_task:
  assumes "chi_ok (m_lookup web)" and "m_lookup web manager_routes (r_Method r) (r_Path r) = (mws, Some (e, ps))"
    and "e \<in> task_endpoints"
  shows "manager_serve Q web (initRouter a) r m =
    tasks_chain loadAPIKeys (m_generated web) (manager_handler_of Q web ps e) r m"
  using assms manager_match [OF assms(1,2)] by (simp add: manager_serve_def initRouter_def tasks_chain_def)


text \<open>The chain lets no request through whose token is not an active key.\<close>

definition active_key :: "api_keys \<Rightarrow> request \<Rightarrow> bool" where
  "active_key keys r \<longleftrightarrow> (\<exists>token i. bearerToken r = Inr token \<and> keys token = Some i \<and> IsActive i)"




section \<open>Replies have their type\<close>

definition yields :: "('a \<Rightarrow> bool) \<Rightarrow> ('a, 's) result \<Rightarrow> bool" where
  "yields P res \<longleftrightarrow> (\<forall>a s. res = Return a s \<longrightarrow> P a)"

lemma yields_simps [simp]: "yields P (Return a s) = P a" "yields P (Panic p s)" "yields P (Blocked s)"
  by (simp_all add: yields_def)

lemma yields_andthen: "(\<And>a s. yields P (k a s)) \<Longrightarrow> yields P (andthen res k)"
  by (cases res) simp_all

lemma typed_StartTask: "yields typed_reply (StartTaskHandler Q env r m)"
  by (auto simp: StartTaskHandler_def Let_def intro!: yields_andthen split: option.split sum.split)

lemma typed_GetTasks: "yields typed_reply (GetTasksHandler r m)"
  by (auto simp: GetTasksHandler_def Let_def intro!: yields_andthen split: sum.split)

lemma typed_StopTask: "yields typed_reply (StopTaskHandler Q up ut taskID r m)"
  by (auto simp: StopTaskHandler_def Let_def intro!: yields_andthen split: sum.split option.split)

lemma typed_task_handler:
  "e \<in> task_endpoints \<Longrightarrow> yields typed_reply (manager_handler_of Q web ps e r m)"
  using typed_StartTask typed_GetTasks typed_StopTask by (auto simp: task_endpoints_def)

lemma typed_deny: "401 \<le> c \<Longrightarrow> typed_reply (deny c msg)"
  by (simp add: deny_def)

text \<open>A second reply after a first one is not a reply.\<close>

lemma body_fits_bodies:
  assumes "body_fits c ws" and "w \<in> set ws"
  shows "\<exists>b. w = WriteBody b"
proof -
  have line: "\<exists>b. v = WriteBody b" if "is_line v" for v :: "'a write_event"
    using that by (cases v rule: is_line.cases) auto
  from assms show ?thesis
    by (cases "(c, ws)" rule: body_fits.cases) (auto simp: list_all_iff dest: line)
qed

lemma body_fits_status: "\<not> body_fits c (ws @ WriteHeader d # vs)"
  using body_fits_bodies [of c "ws @ WriteHeader d # vs" "WriteHeader d"] by auto

lemma typed_twice: "\<not> typed_reply (ws @ deny c msg)" if "typed_reply ws"
  using that by (induction ws rule: typed_reply.induct) (simp_all add: deny_def body_fits_status)

text \<open>The worker's.\<close>

lemma typed_lines: "\<exists>vs. snd (write_entry marshal x ws) = ws @ vs \<and> list_all is_line vs"
  by (simp add: write_entry_def split: sum.split)

lemma frames_lines:
  "\<exists>vs. snd (process_frames (write_entry marshal) st ws) = ws @ vs \<and> list_all is_line vs"
proof (induction "write_entry marshal" st ws rule: process_frames.induct)
  case (1 stream ws)
  have same: "\<exists>vs. ws = ws @ vs \<and> list_all is_line vs" by (rule exI [of _ "[]"]) simp
  show ?case
  proof (cases "ReadFull 8 stream")
    case (ReadOk header stream')
    note h = ReadOk
    show ?thesis
    proof (cases "ReadFull (BigEndian_Uint32 (drop 4 header)) stream'")
      case (ReadOk payload stream'')
      let ?x = "\<lparr>StreamType = byte_at header 0, Payload = ToValidUTF8 payload\<rparr>"
      obtain out ws' where w: "write_entry marshal ?x ws = (out, ws')" by (cases "write_entry marshal ?x ws")
      then obtain vs where vs: "ws' = ws @ vs" "list_all is_line vs"
        using typed_lines [of marshal ?x ws] by auto
      show ?thesis
      proof (cases out)
        case None
        obtain us where "snd (process_frames (write_entry marshal) stream'' ws') = ws' @ us" "list_all is_line us"
          using "1.hyps" [OF h ReadOk w [symmetric] None] by blast
        then show ?thesis
          using vs w None h ReadOk by (simp add: process_frames.simps [of _ stream])
      next
        case (Some err)
        with vs w h ReadOk show ?thesis by (simp add: process_frames.simps [of _ stream])
      qed
    qed (use same h in \<open>simp_all add: process_frames.simps [of _ stream]\<close>)
  qed (use same in \<open>simp_all add: process_frames.simps [of _ stream]\<close>)
qed


lemma typed_worker_handler:
  assumes "e \<noteq> W_DefaultServeMux"
  shows "yields typed_reply (worker_handler_of Q web ps e r w)"
proof (cases e)
  case W_StartTask
  then show ?thesis by (simp add: StartTaskHandler_w_def Let_def alloc_def split: sum.split)
next
  case W_GetTasks
  then show ?thesis by (auto simp: GetTasksHandler_w_def Let_def intro!: yields_andthen split: prod.split)
next
  case W_StopTask
  then show ?thesis
    by (auto simp: StopTaskHandler_w_def Let_def intro!: yields_andthen split: sum.split option.split)
next
  case W_Logs
  have ok: "typed_reply (snd (ProcessDockerStream (write_entry marshal) resp
      [SetHeader ''Content-Type'' ''application/x-ndjson'', WriteHeader 200]))" for marshal resp
  proof (cases "l_Error resp")
    case None
    let ?ws = "[SetHeader ''Content-Type'' ''application/x-ndjson'', WriteHeader 200]"
    show ?thesis
    proof (cases "LogStream resp")
      case (Some st)
      obtain vs where "snd (process_frames (write_entry marshal) st ?ws) = ?ws @ vs" "list_all is_line vs"
        using frames_lines by blast
      with None Some show ?thesis by (simp add: ProcessDockerStream_def body_fits_lines)
    qed (use None in \<open>simp add: ProcessDockerStream_def\<close>)
  qed (simp add: ProcessDockerStream_def)
  show ?thesis
    using W_Logs ok
    by (auto simp: GetDockerTaskLogsHandler_def Let_def split_beta intro!: yields_andthen split: sum.split option.split)
next
  case W_Health
  then show ?thesis by (simp add: HealthHandler_def)
qed (use assms in simp)


lemma loaded_rates: "loadAPIKeys k = Some i \<Longrightarrow> CurrentRate i = 0"
  by (auto simp: loadAPIKeys_def split: if_splits)

section \<open>Properties\<close>

text \<open>A server whose router matches literally and whose other handlers answer nothing.\<close>

definition sample_web :: manager_web where
  "sample_web =
     \<lparr>m_lookup = literal_lookup, m_start = sample_env, m_parse = (\<lambda>_. Inr 2), m_text = (\<lambda>_. ''2''),
      m_generated = ''c'', m_other = (\<lambda>e r. []), m_unmatched = (\<lambda>r. [WriteHeader 404])\<rparr>"

definition sample_api :: manager_api where
  "sample_api = \<lparr>a_Address = ''localhost'', a_Port = 8080, a_Router = [], APIConfig = (\<lambda>_. None)\<rparr>"



text \<open>
  C26: on the endpoints that have a permission every reply of the manager's task API has its type:
  headers, one status, and then either a handler's data under a status of the 200s or the error
  record that repeats the status. On the others, among them DELETE of a task, no request with an
  active key ever gets such a reply: a second status and body follow the first.
\<close>

theorem task_replies_typed:
  assumes chi: "chi_ok (m_lookup web)"
    and e: "m_lookup web manager_routes (r_Method r) (r_Path r) = (mws, Some (e, ps))" "e \<in> task_endpoints"
    and run: "manager_serve Q web (initRouter a) r m = Return ws t"
  shows "(getRequiredPermission r \<noteq> [] \<longrightarrow> typed_reply ws)
    \<and> (getRequiredPermission r = [] \<and> active_key loadAPIKeys r \<longrightarrow> \<not> typed_reply ws)"
proof -
  let ?h = "manager_handler_of Q web ps e" and ?g = "m_generated web"
  let ?r = "r\<lparr>r_correlation := Some (correlation_id ?g r)\<rparr>"
  have chain: "tasks_chain loadAPIKeys ?g ?h r m = Return ws t" by (rule trans [OF manager_serve_task [OF chi e, symmetric] run])
  have typed: "typed_reply vs" if "?h ?r m = Return vs u" for vs u
    using typed_task_handler [OF e(2), of Q web ps ?r m] that by (simp add: yields_def)
  have "typed_reply ws" if perm: "getRequiredPermission r \<noteq> []"
  proof (cases "authorised loadAPIKeys r")
    case True
    then have "CorrelationMiddleware ?g ?h r m = Return ws t"
      using chain_decides [OF perm loaded_keys_long, of ?g ?h m] chain by simp
    then show ?thesis using typed by (auto simp: correlation_runs andthen_Return_iff)
  next
    case False
    then obtain code msg where "ws = deny code msg" "code \<in> {401, 403}"
      using chain_decides [OF perm loaded_keys_long, of ?g ?h m] chain by auto
    then show ?thesis using typed_deny by auto
  qed
  moreover have "\<not> typed_reply ws" if none: "getRequiredPermission r = []" and active: "active_key loadAPIKeys r"
  proof -
    obtain token i where i: "bearerToken r = Inr token" "loadAPIKeys token = Some i" "IsActive i"
      using active by (auto simp: active_key_def)
    have lim: "getRateLimits r = 0"
      using none unlisted_endpoint listed_endpoint by blast
    have rate: "0 \<le> sint (CurrentRate i)" by (simp add: loaded_rates [OF i(2)])
    note two = chain_unlisted [where keys = loadAPIKeys and token = token and i = i, OF none lim i rate]
    obtain vs u where "?h ?r m = Return vs u"
        "ws = (SetHeader ''X-Request-ID'' (correlation_id ?g r) # vs) @ deny 401 ''Invalid API key''"
      using chain [unfolded two] by (auto simp: andthen_Return_iff)
    then show ?thesis using typed_twice [OF typed, of vs u] by simp
  qed
  ultimately show ?thesis by blast
qed

theorem task_replies_typed_witness:
  "\<exists>ws. manager_serve list_queue sample_web (initRouter sample_api) (sample_get []) sample_two = Return ws sample_two
    \<and> typed_reply ws"
proof -
  let ?r = "sample_get []"
  let ?mws = "[ApiKeyAuth, ApiRateLimit, Correlation]"
  have chi: "chi_ok (m_lookup sample_web)" by (simp add: sample_web_def chi_ok_literal)
  have look: "m_lookup sample_web manager_routes (r_Method ?r) (r_Path ?r) = (?mws, Some (GetTasks_ep, \<lambda>_. []))"
    by (simp add: sample_web_def sample_get_def literal_lookup_def literal_match_def endpoints_def manager_routes_def)
  have task: "GetTasks_ep \<in> task_endpoints" by (simp add: task_endpoints_def)
  have perm: "getRequiredPermission ?r \<noteq> []" unfolding listed_endpoint sample_get_facts by simp
  have "\<not> authorised loadAPIKeys ?r" by (rule sample_get_empty)
  then obtain ws where ws: "manager_serve list_queue sample_web (initRouter sample_api) ?r sample_two = Return ws sample_two"
    using chain_decides [OF perm loaded_keys_long, of _ "manager_handler_of list_queue sample_web (\<lambda>_. []) GetTasks_ep" sample_two]
      manager_serve_task [OF chi look task, of list_queue sample_api sample_two] by fastforce
  with task_replies_typed [OF chi look task this] perm show ?thesis by blast
qed

text \<open>
  The worker's API asks nobody who they are: on every endpoint of its own the headers of a
  request have no influence on what happens or on the answer. Its replies have their type.
\<close>

theorem worker_ignores_headers:
  assumes "w_lookup web worker_routes (r_Method r) (r_Path r) = (mws, Some (e, ps))" and "e \<noteq> W_DefaultServeMux"
  shows "worker_serve Q web (initRouter_w a) (r\<lparr>r_Header := h\<rparr>) w = worker_serve Q web (initRouter_w a) r w
    \<and> (\<forall>ws t. worker_serve Q web (initRouter_w a) r w = Return ws t \<longrightarrow> typed_reply ws)"
proof -
  have "worker_handler_of Q web ps e (r\<lparr>r_Header := h\<rparr>) w = worker_handler_of Q web ps e r w"
    using assms(2)
    by (cases e)
      (simp_all add: StartTaskHandler_w_def GetTasksHandler_w_def StopTaskHandler_w_def
        GetDockerTaskLogsHandler_def HealthHandler_def page_param_def limit_param_def)
  moreover have "yields typed_reply (worker_handler_of Q web ps e r w)" by (rule typed_worker_handler [OF assms(2)])
  ultimately show ?thesis
    using assms(1) by (simp add: worker_serve_def initRouter_w_def yields_def)
qed

theorem worker_ignores_headers_witness:
  "let web = \<lparr>w_lookup = literal_lookup, w_start = \<lparr>content_length = 0, decoded = Inl [], new_task_id = 1, arrival = 0\<rparr>,
        w_parse = (\<lambda>_. Inr 1), w_docker = sample_docker, w_marshal = (\<lambda>_. Inr []), w_flusher = True, w_order = [],
        w_other = (\<lambda>_. []), w_unmatched = (\<lambda>_. [])\<rparr>;
      a = \<lparr>b_Address = ''localhost'', b_Port = 9001, b_Router = []\<rparr>;
      r = (sample_get ''mk_readonly_def456'')\<lparr>r_Method := ''POST''\<rparr>
   in worker_serve list_queue web (initRouter_w a) (r\<lparr>r_Header := (\<lambda>_. [])\<rparr>) (sample_worker Pending)
      = worker_serve list_queue web (initRouter_w a) r (sample_worker Pending)"
proof -
  have "literal_lookup worker_routes ''POST'' ''/tasks'' = ([], Some (W_StartTask, \<lambda>_. []))"
    by (simp add: literal_lookup_def literal_match_def endpoints_def worker_routes_def)
  then show ?thesis
    unfolding Let_def
    by (intro worker_ignores_headers [where mws = "[]" and e = W_StartTask and ps = "\<lambda>_. []", THEN conjunct1])
      (simp_all add: sample_get_def)
qed

end
