(* ===== verification/Worker_System.thy ===== *)
theory Worker_System
  imports Worker_Http Processes
begin

text \<open>
  The worker as a whole: the goroutines \<open>main\<close> of \<open>src/cmd/worker/main.go\<close> starts and the requests its
  server answers, interleaved. The run loop is cut where it releases the lock and the monitor between
  the tasks it inspects, so that a request can come between two regions of either; a handler, whose
  work is one region, and the inspection of one task are single steps. The Docker engine may change
  on its own.
\<close>

section \<open>Steps\<close>

text \<open>
  Where the run loop is: before a round; holding the task it dequeued (lines 111-115 of \<open>runTask\<close>); about
  to report a failure (line 64); waiting inside \<open>StopTask\<close> for the lock it holds.
\<close>

datatype run_pc = Polling | Taken ptr | Reporting uuid | Stuck

record ('q, 'd) worker_sys =
  wk :: "('q, 'd) worker"
  at_pc :: run_pc
  to_inspect :: "ptr list"

definition started_worker :: "('q, 'd) worker \<Rightarrow> ('q, 'd) worker_sys" where
  "started_worker w = \<lparr>wk = w, at_pc = Polling, to_inspect = []\<rparr>"

text \<open>Where a round goes on after the switch: an error is reported under the identifier of the task.\<close>

definition after_switch :: "docker_result \<Rightarrow> ptr option \<Rightarrow> ('q, 'd) worker \<Rightarrow> run_pc" where
  "after_switch res t w =
     (if Error res = None then Polling
      else (case t of None \<Rightarrow> Polling | Some p \<Rightarrow> Reporting (ID (wtask w p))))"

inductive worker_step ::
    "'q queue_api \<Rightarrow> 'd docker_api \<Rightarrow> ('q, 'd) worker_sys \<Rightarrow> ('q, 'd) worker_sys \<Rightarrow> bool" for Q api where
  start: "StartTaskHandler_w Q env r (wk s) = Return ws w \<Longrightarrow> worker_step Q api s (s\<lparr>wk := w\<rparr>)"
| list_page: "GetTasksHandler_w order r (wk s) = Return ws w \<Longrightarrow> worker_step Q api s (s\<lparr>wk := w\<rparr>)"
| list_panic: "GetTasksHandler_w order r (wk s) = Panic p w \<Longrightarrow> worker_step Q api s (s\<lparr>wk := w\<rparr>)"
| stop: "StopTaskHandler_w Q uuid_parse taskID r (wk s) = Return ws w \<Longrightarrow> worker_step Q api s (s\<lparr>wk := w\<rparr>)"
| logs: "GetDockerTaskLogsHandler api uuid_parse marshal flusher taskID r (wk s) = Return ws w \<Longrightarrow>
    worker_step Q api s (s\<lparr>wk := w\<rparr>)"
| stats: "GetStatsHandler r (wk s) = Return ws w \<Longrightarrow> worker_step Q api s (s\<lparr>wk := w\<rparr>)"
| collect: "worker_step Q api s (s\<lparr>wk := CollectStats_step files (wk s)\<rparr>)"
| run_take: "at_pc s = Polling \<Longrightarrow> can_lock (w_mu (wk s)) \<Longrightarrow> Len Q (Queue (wk s)) \<noteq> 0 \<Longrightarrow>
    Dequeue Q (Queue (wk s)) = (Some t, q) \<Longrightarrow>
    worker_step Q api s (s\<lparr>wk := (wk s)\<lparr>Queue := q\<rparr>, at_pc := Taken t\<rparr>)"
| run_task: "at_pc s = Taken t \<Longrightarrow>
    with_lock w_mu w_mu_update (run_switch api now t) (wk s) = Return (res, u) w \<Longrightarrow>
    worker_step Q api s (s\<lparr>wk := w, at_pc := after_switch res u w\<rparr>)"
| run_stuck: "at_pc s = Taken t \<Longrightarrow> can_lock (w_mu (wk s)) \<Longrightarrow>
    with_lock w_mu w_mu_update (run_switch api now t) (wk s) = Blocked w \<Longrightarrow>
    worker_step Q api s (s\<lparr>wk := w, at_pc := Stuck\<rparr>)"
| run_report: "at_pc s = Reporting u \<Longrightarrow> updateTaskState u Failed now (wk s) = Return () w \<Longrightarrow>
    worker_step Q api s (s\<lparr>wk := w, at_pc := Polling\<rparr>)"
| watch: "to_inspect s = [] \<Longrightarrow> can_lock (w_mu (wk s)) \<Longrightarrow>
    worker_step Q api s (s\<lparr>to_inspect := running_tasks order (wk s)\<rparr>)"
| inspect: "to_inspect s = t # ts \<Longrightarrow> monitor_task api now t (wk s) = Return () w \<Longrightarrow>
    worker_step Q api s (s\<lparr>wk := w, to_inspect := ts\<rparr>)"
| docker: "worker_step Q api s (s\<lparr>wk := (wk s)\<lparr>engine := e\<rparr>\<rparr>)"
| wait: "\<not> can_lock (w_mu (wk s)) \<Longrightarrow>
    worker_step Q api s
      (s\<lparr>wk := w_mu_update (\<lambda>x. x\<lparr>writers_waiting := Suc (writers_waiting x)\<rparr>) (wk s)\<rparr>)"

inductive worker_reach ::
    "'q queue_api \<Rightarrow> 'd docker_api \<Rightarrow> ('q, 'd) worker_sys \<Rightarrow> ('q, 'd) worker_sys \<Rightarrow> bool" for Q api s0 where
  here: "worker_reach Q api s0 s0"
| further: "worker_reach Q api s0 s \<Longrightarrow> worker_step Q api s t \<Longrightarrow> worker_reach Q api s0 t"

inductive_cases worker_stepE: "worker_step Q api s t"

section \<open>The invariant\<close>

text \<open>The tasks that wait to be run, the one the run loop holds included.\<close>

definition pending_of :: "('q \<Rightarrow> ptr list) \<Rightarrow> ('q, 'd) worker_sys \<Rightarrow> ptr list" where
  "pending_of contents s = (case at_pc s of Taken t \<Rightarrow> [t] | _ \<Rightarrow> []) @ contents (Queue (wk s))"

definition allocated :: "('q, 'd) worker_sys \<Rightarrow> ptr \<Rightarrow> bool" where
  "allocated s p \<longleftrightarrow> p < fresh (w_store (wk s))"

abbreviation st_of :: "('q, 'd) worker_sys \<Rightarrow> ptr \<Rightarrow> state" where
  "st_of s p \<equiv> State (wtask (wk s) p)"

definition lock_inv :: "('q, 'd) worker_sys \<Rightarrow> bool" where
  "lock_inv s \<longleftrightarrow> (if at_pc s = Stuck then writer (w_mu (wk s)) else w_quiet (wk s))"

definition tasks_inv :: "('q \<Rightarrow> ptr list) \<Rightarrow> ('q, 'd) worker_sys \<Rightarrow> bool" where
  "tasks_inv contents s \<longleftrightarrow>
     (\<forall>u p. TaskIds (wk s) u = Some p \<longrightarrow>
        allocated s p \<and> ID (wtask (wk s) p) = u \<and> st_of s p \<in> {Running, Completed, Failed}) \<and>
     (\<forall>p \<in> set (pending_of contents s). allocated s p \<and> st_of s p \<in> {Pending, Completed, Failed}) \<and>
     (\<forall>p. allocated s p \<longrightarrow> st_of s p \<noteq> Scheduled) \<and>
     (\<forall>p. allocated s p \<and> st_of s p = Pending \<longrightarrow> count_list (pending_of contents s) p = 1)"

definition wsys_inv :: "('q \<Rightarrow> ptr list) \<Rightarrow> ('q, 'd) worker_sys \<Rightarrow> bool" where
  "wsys_inv contents s \<longleftrightarrow> lock_inv s \<and> tasks_inv contents s"

text \<open>The changes of state a step may make.\<close>

definition worker_moves :: "(state \<times> state) set" where
  "worker_moves = {(Pending, Running), (Pending, Failed), (Running, Completed), (Running, Failed),
     (Completed, Failed), (Failed, Completed)}"

definition task_evolves :: "('q, 'd) worker_sys \<Rightarrow> ('q, 'd) worker_sys \<Rightarrow> ptr \<Rightarrow> bool" where
  "task_evolves s t p \<longleftrightarrow>
     (st_of s p, st_of t p) \<in> worker_moves \<union> Id \<and> ID (wtask (wk t) p) = ID (wtask (wk s) p) \<and>
     (ContainerID (wtask (wk t) p) \<noteq> ContainerID (wtask (wk s) p) \<longrightarrow> st_of s p = Pending)"

text \<open>What a step shows of itself: the invariant again, no task lost, and only allowed changes.\<close>

definition step_ok :: "('q \<Rightarrow> ptr list) \<Rightarrow> ('q, 'd) worker_sys \<Rightarrow> ('q, 'd) worker_sys \<Rightarrow> bool" where
  "step_ok contents s t \<longleftrightarrow> wsys_inv contents t \<and>
     (\<forall>p. allocated s p \<longrightarrow> allocated t p \<and> task_evolves s t p)"

lemma pending_of_simps [simp]:
  "pending_of contents (s\<lparr>to_inspect := ts\<rparr>) = pending_of contents s"
  by (simp add: pending_of_def)

text \<open>A step that touches no task, no queue and not the table.\<close>

lemma step_ok_same:
  assumes inv: "wsys_inv contents s" and "lock_inv t"
    and "wtask (wk t) = wtask (wk s)" "TaskIds (wk t) = TaskIds (wk s)" "fresh (w_store (wk t)) = fresh (w_store (wk s))"
    and "pending_of contents t = pending_of contents s"
  shows "step_ok contents s t"
  using assms by (simp add: step_ok_def wsys_inv_def tasks_inv_def allocated_def task_evolves_def)

text \<open>A step that only marks a task of the table Failed.\<close>

lemma step_ok_failed:
  assumes inv: "wsys_inv contents s" and lock: "lock_inv t"
    and task: "\<forall>p. State (wtask (wk t) p) = (if p \<in> A then Failed else st_of s p)
      \<and> ID (wtask (wk t) p) = ID (wtask (wk s) p) \<and> ContainerID (wtask (wk t) p) = ContainerID (wtask (wk s) p)"
    and table: "\<forall>p \<in> A. \<exists>u. TaskIds (wk s) u = Some p"
    and same: "TaskIds (wk t) = TaskIds (wk s)" "fresh (w_store (wk t)) = fresh (w_store (wk s))"
      "pending_of contents t = pending_of contents s"
  shows "step_ok contents s t"
proof -
  have A: "st_of s p \<in> {Running, Completed, Failed}" if "p \<in> A" for p
    using that table inv by (fastforce simp: wsys_inv_def tasks_inv_def)
  have "tasks_inv contents t"
    using inv task same A by (auto simp: wsys_inv_def tasks_inv_def allocated_def)
  moreover have "task_evolves s t p" for p
    using task A [of p] by (auto simp: task_evolves_def worker_moves_def)
  ultimately show ?thesis
    using lock same by (simp add: step_ok_def wsys_inv_def allocated_def)
qed

section \<open>What the regions do\<close>

lemma table_state:
  "wsys_inv contents s \<Longrightarrow> TaskIds (wk s) u = Some p \<Longrightarrow>
     allocated s p \<and> ID (wtask (wk s) p) = u \<and> st_of s p \<in> {Running, Completed, Failed}"
  by (simp add: wsys_inv_def tasks_inv_def)

lemma switch_effect:
  assumes q: "w_quiet w" and run: "with_lock w_mu w_mu_update (run_switch api now t) w = Return (res, u) w'"
  shows "u = Some t \<and>
    (State (wtask w t) \<in> {Pending, Scheduled} \<and> NewClientOk api \<and> (\<exists>eng. w' = started res eng now t (run_prepared t w))
     \<or> State (wtask w t) \<in> {Running, Failed} \<and> w' = w \<and> Error res \<noteq> None)"
proof -
  have nc: "State (wtask w t) \<noteq> Completed" using run run_switch_completed [OF q] by force
  then have sw: "run_switch api now t w = Return (res, u) w'" using run run_switch_locked [OF q] by metis
  show ?thesis
  proof (cases "State (wtask w t) \<in> {Pending, Scheduled}")
    case True
    let ?v = "run_prepared t w"
    from sw have at: "run_scheduled api now t ?v = Return (res, u) w'" using run_switch_prepared [OF True] by metis
    have client: "NewClientOk api"
    proof (rule ccontr)
      assume "\<not> NewClientOk api"
      then show False using at by (simp add: run_scheduled_def StartTask_def NewDocker_def zero_result_def Let_def)
    qed
    obtain r dk eng where "Run api \<lparr>d_Config = NewConfig (wtask ?v t), ContainerId = []\<rparr> (engine ?v) = (r, dk, eng)"
      by (metis prod_cases3)
    from run_scheduled_client [OF client this] at show ?thesis using True client by auto
  next
    case False
    with nc sw show ?thesis by (cases "State (wtask w t)") (auto simp: run_switch_def zero_result_def)
  qed
qed

lemma set_ports_Return:
  assumes q: "w_quiet w" and run: "set_ports tid ports w = Return () w'"
  shows "w' = w \<or> (\<exists>ps. w' = with_ports tid ps w)"
proof (cases ports)
  case None
  have "w_mu_update (\<lambda>x. x\<lparr>writer := False\<rparr>) w = w"
    by (rule wkr.upd_same) (use q in \<open>simp add: w_quiet_def mutex_free_def\<close>)
  then show ?thesis
    using None run q
    by (simp add: set_ports_def set_ports_body_def lock_op_def unlock_op_def wkr.upd_upd comp_def split: option.splits)
next
  case (Some ps)
  then show ?thesis using run set_ports_quiet [OF q, of tid ps] by auto
qed

lemma with_ports_fresh [simp]:
  "fresh (w_store (with_ports tid ps w)) = fresh (w_store w)"
  "fresh (w_store (updateTaskState_body u st now w)) = fresh (w_store w)"
  by (simp_all add: with_ports_def updateTaskState_body_def split: option.split)

text \<open>An inspection marks at most the table's entry for the task, Failed.\<close>

definition fails_some :: "uuid \<Rightarrow> ('q, 'd) worker \<Rightarrow> ('q, 'd) worker \<Rightarrow> bool" where
  "fails_some u w w' \<longleftrightarrow>
     (\<exists>A. (\<forall>p \<in> A. TaskIds w u = Some p) \<and>
        (\<forall>p. State (wtask w' p) = (if p \<in> A then Failed else State (wtask w p)) \<and>
             ID (wtask w' p) = ID (wtask w p) \<and> ContainerID (wtask w' p) = ContainerID (wtask w p))) \<and>
     w_mu w' = w_mu w \<and> TaskIds w' = TaskIds w \<and> Queue w' = Queue w \<and> engine w' = engine w \<and>
     fresh (w_store w') = fresh (w_store w)"

lemma fails_some_same: "fails_some u w w"
  unfolding fails_some_def by (intro conjI exI [of _ "{}"]) auto

lemma fails_some_update: "fails_some u w (updateTaskState_body u Failed now w)"
  unfolding fails_some_def
  by (intro conjI exI [of _ "{p. TaskIds w u = Some p}"]) (auto simp: wtask_updateTaskState)

lemma fails_some_ports: "fails_some u w w' \<Longrightarrow> fails_some u w (with_ports u ps w')"
  by (simp add: fails_some_def)

lemma fails_some_set_ports:
  assumes "fails_some u w v" and "w_quiet w" and "set_ports u ports v = Return () w'"
  shows "fails_some u w w'"
proof -
  have "w_quiet v" using assms(1,2) by (simp add: fails_some_def w_quiet_def)
  from set_ports_Return [OF this assms(3)] show ?thesis using assms(1) fails_some_ports by auto
qed

lemma monitor_task_Return:
  assumes q: "w_quiet w" and run: "monitor_task api now t w = Return () w'"
  shows "fails_some (ID (wtask w t)) w w'"
proof -
  let ?u = "ID (wtask w t)" and ?resp = "InspectTask api (wtask w t) (engine w)"
  note upd = updateTaskState_quiet [OF q]
  show ?thesis
  proof (cases "i_Error ?resp \<noteq> None \<or> Container ?resp = None")
    case True
    then have "w' = updateTaskState_body ?u Failed now w"
      using run by (cases "i_Error ?resp") (auto simp: monitor_task_def upd Let_def)
    then show ?thesis by (simp add: fails_some_update)
  next
    case False
    then obtain c where c: "Container ?resp = Some c" "i_Error ?resp = None" by auto
    with run obtain st where st: "c_State c = Some st" by (auto simp: monitor_task_def Let_def split: option.splits)
    let ?v = "if Status st = ''exited'' then updateTaskState_body ?u Failed now w else w"
    have "set_ports ?u (c_Ports c) ?v = Return () w'"
      using run c st by (auto simp: monitor_task_def upd Let_def split: if_splits)
    moreover have "fails_some ?u w ?v" by (simp add: fails_some_update fails_some_same)
    ultimately show ?thesis using fails_some_set_ports [OF _ q] by blast
  qed
qed

section \<open>The requests\<close>

definition lock_ok :: "('q, 'd) worker \<Rightarrow> bool" where
  "lock_ok w \<longleftrightarrow> w_quiet w \<or> writer (w_mu w)"

lemma lock_inv_ok: "wsys_inv contents s \<Longrightarrow> lock_ok (wk s)"
  by (auto simp: wsys_inv_def lock_inv_def lock_ok_def split: if_splits)

lemma held_no_rlock: "writer (w_mu w) \<Longrightarrow> \<not> can_rlock (w_mu w)"
  by (simp add: can_rlock_def)

lemma held_no_lock: "writer (w_mu w) \<Longrightarrow> \<not> can_lock (w_mu w)"
  by (simp add: can_lock_def)

lemma GetTask_w_same: "lock_ok w \<Longrightarrow> GetTask_w u w = Return a t \<Longrightarrow> t = w"
  using held_blocks(1) [of w u] by (auto simp: lock_ok_def GetTask_w_quiet)

lemma list_w_same:
  assumes "lock_ok w"
  shows "GetTasksHandler_w order r w = Return ws t \<Longrightarrow> t = w"
    and "GetTasksHandler_w order r w = Panic e t \<Longrightarrow> t = w"
proof -
  have held: "GetTasksHandler_w order r w = Blocked w" if "writer (w_mu w)"
    by (simp add: GetTasksHandler_w_def with_rlock_def rlock_op_def held_no_rlock [OF that] Let_def)
  have "state_of (GetTasksHandler_w order r w) = w" if "w_quiet w"
    by (simp add: GetTasksHandler_w_quiet [OF that] Let_def split: prod.split option.split)
  then have "state_of (GetTasksHandler_w order r w) = w" using held assms by (auto simp: lock_ok_def)
  then show "GetTasksHandler_w order r w = Return ws t \<Longrightarrow> t = w"
    and "GetTasksHandler_w order r w = Panic e t \<Longrightarrow> t = w" by auto
qed

lemma logs_same:
  assumes "lock_ok w" and "GetDockerTaskLogsHandler api up marshal flusher taskID r w = Return ws t"
  shows "t = w"
proof (cases "taskID = [] \<or> (\<exists>e. up taskID = Inl e)")
  case True
  then show ?thesis using assms(2) by (cases "taskID = []") (auto simp: GetDockerTaskLogsHandler_def)
next
  case False
  then obtain u where u: "taskID \<noteq> []" "up taskID = Inr u" by (cases "up taskID") auto
  with assms(2) obtain found v where "GetTask_w u w = Return found v"
    by (auto simp: GetDockerTaskLogsHandler_def andthen_Return_iff)
  moreover from this have "v = w" using GetTask_w_same assms(1) by blast
  ultimately show ?thesis using assms(2) u
    by (auto simp: GetDockerTaskLogsHandler_def Let_def split: prod.splits if_splits option.splits)
qed

lemma stats_same:
  assumes "lock_ok w" and "GetStatsHandler r w = Return ws t"
  shows "t = w"
proof -
  have "\<not> writer (w_mu w)" using assms(2) held_no_rlock [of w] by (auto simp: GetStatsHandler_def rlock_op_def)
  then have "can_rlock (w_mu w)" using assms(1) by (auto simp: lock_ok_def)
  moreover have "w_mu_update (\<lambda>x. x\<lparr>readers := readers (w_mu w)\<rparr>) w = w" by (rule wkr.upd_same) simp
  ultimately show ?thesis using assms(2)
    by (auto simp: GetStatsHandler_def rlock_op_def runlock_op_def wkr.upd_upd comp_def split: option.splits)
qed

text \<open>\<open>StartTaskHandler\<close> takes no lock, so it is answered whatever the run loop does.\<close>

lemma start_w_Return:
  assumes "StartTaskHandler_w Q env r w = Return ws t"
  shows "t = w \<or> (\<exists>x. State x = Pending \<and>
    t = AddTask_w Q (fresh (w_store w)) (w\<lparr>w_store := snd (alloc x (w_store w))\<rparr>))"
proof (cases "content_length env = 0 \<or> (\<exists>e. decoded env = Inl e)")
  case True
  then show ?thesis using assms by (cases "content_length env = 0") (auto simp: StartTaskHandler_w_def)
next
  case False
  then obtain te where te: "content_length env \<noteq> 0" "decoded env = Inr te" by (cases "decoded env") auto
  let ?x = "ev_Task (accepted_event env te)"
  have "t = AddTask_w Q (fresh (w_store w)) (w\<lparr>w_store := snd (alloc ?x (w_store w))\<rparr>)"
    using assms te by (simp add: StartTaskHandler_w_def alloc_def Let_def)
  moreover have "State ?x = Pending" by (simp add: accepted_event_def Let_def)
  ultimately show ?thesis by blast
qed

lemma stop_w_Return:
  assumes "lock_ok w" and "StopTaskHandler_w Q up taskID r w = Return ws t"
  shows "t = w \<or> w_quiet w \<and> (\<exists>u p. TaskIds w u = Some p \<and> t = AddTask_w Q p (edit p (\<lambda>x. x\<lparr>State := Completed\<rparr>) w))"
proof (cases "taskID = []")
  case False
  note some = False
  have q: "w_quiet w"
  proof (rule ccontr)
    assume "\<not> w_quiet w"
    then have "writer (w_mu w)" using assms(1) by (simp add: lock_ok_def)
    then show False using assms(2) some held_no_lock [of w] by (simp add: StopTaskHandler_w_def lock_op_def)
  qed
  then have restore: "w_mu_update (\<lambda>x. x\<lparr>writer := False\<rparr>) w = w"
    by (intro wkr.upd_same) (simp add: w_quiet_def mutex_free_def)
  show ?thesis
  proof (cases "up taskID")
    case (Inl e)
    then show ?thesis using assms(2) some q restore
      by (auto simp: StopTaskHandler_w_def lock_op_def unlock_op_def wkr.upd_upd comp_def)
  next
    case (Inr u)
    show ?thesis
    proof (cases "TaskIds w u")
      case None
      then show ?thesis using assms(2) some q restore Inr
        by (auto simp: StopTaskHandler_w_def lock_op_def unlock_op_def wkr.upd_upd comp_def)
    next
      case (Some p)
      have "t = AddTask_w Q p (edit p (\<lambda>x. x\<lparr>State := Completed\<rparr>) w)"
        using StopTaskHandler_w_quiet [where uuid_parse = up, OF q some Inr Some, of Q r] assms(2) by (simp add: Let_def)
      with q Some show ?thesis by blast
    qed
  qed
qed (use assms(2) in \<open>simp add: StopTaskHandler_w_def\<close>)

section \<open>Every step keeps the invariant\<close>

lemma evolves_same:
  "wtask (wk t) p = wtask (wk s) p \<Longrightarrow> task_evolves s t p"
  by (simp add: task_evolves_def)

lemma fails_some_step:
  assumes inv: "wsys_inv contents s" and fails: "fails_some u (wk s) (wk t)"
    and lock: "lock_inv t" and pend: "pending_of contents t = pending_of contents s"
  shows "step_ok contents s t"
proof -
  obtain A where A: "\<forall>p \<in> A. TaskIds (wk s) u = Some p"
      "\<forall>p. State (wtask (wk t) p) = (if p \<in> A then Failed else st_of s p)
        \<and> ID (wtask (wk t) p) = ID (wtask (wk s) p) \<and> ContainerID (wtask (wk t) p) = ContainerID (wtask (wk s) p)"
    using fails unfolding fails_some_def by blast
  show ?thesis
    by (rule step_ok_failed [OF inv lock A(2)]) (use A(1) fails pend in \<open>auto simp: fails_some_def\<close>)
qed

lemma count_list_append: "count_list (xs @ ys) p = count_list xs p + count_list ys p"
  by (induction xs) auto

text \<open>A new task is put at the end of the queue.\<close>

lemma start_step:
  assumes inv: "wsys_inv contents s" and fifo: "fifo Q contents" and x: "State x = Pending"
  shows "step_ok contents s
    (s\<lparr>wk := AddTask_w Q (fresh (w_store (wk s))) ((wk s)\<lparr>w_store := snd (alloc x (w_store (wk s)))\<rparr>)\<rparr>)"
proof -
  let ?p = "fresh (w_store (wk s))"
  let ?t = "s\<lparr>wk := AddTask_w Q ?p ((wk s)\<lparr>w_store := snd (alloc x (w_store (wk s)))\<rparr>)\<rparr>"
  have cells: "wtask (wk ?t) = (wtask (wk s))(?p := x)" by (simp add: AddTask_w_def wtask_def alloc_def fun_eq_iff)
  have alloc: "allocated ?t q \<longleftrightarrow> q = ?p \<or> allocated s q" for q
    by (auto simp: AddTask_w_def allocated_def alloc_def)
  have fresh: "\<not> allocated s ?p" by (simp add: allocated_def)
  have pend: "pending_of contents ?t = pending_of contents s @ [?p]"
    by (simp add: pending_of_def fifo_Enqueue [OF fifo])
  have other: "?p \<notin> set (pending_of contents s)" "\<forall>u. TaskIds (wk s) u \<noteq> Some ?p"
    using inv fresh by (auto simp: wsys_inv_def tasks_inv_def)
  have "count_list (pending_of contents s) ?p = 0" using other(1) by (simp add: count_list_0_iff)
  moreover have "TaskIds (wk ?t) = TaskIds (wk s)" by simp
  ultimately have tasks: "tasks_inv contents ?t"
    using inv other x fresh unfolding wsys_inv_def tasks_inv_def cells alloc pend
    by (auto simp: count_list_append)
  have "lock_inv ?t" using inv by (auto simp: wsys_inv_def lock_inv_def w_quiet_def)
  moreover have "task_evolves s ?t q" if "allocated s q" for q
  proof (rule evolves_same)
    show "wtask (wk ?t) q = wtask (wk s) q" unfolding cells using that fresh by auto
  qed
  ultimately show ?thesis using tasks alloc by (simp add: step_ok_def wsys_inv_def)
qed

text \<open>A task of the table is marked Completed and put at the end of the queue.\<close>

lemma stop_step:
  assumes inv: "wsys_inv contents s" and fifo: "fifo Q contents" and q: "w_quiet (wk s)"
    and p: "TaskIds (wk s) u = Some p"
  shows "step_ok contents s (s\<lparr>wk := AddTask_w Q p (edit p (\<lambda>x. x\<lparr>State := Completed\<rparr>) (wk s))\<rparr>)"
proof -
  let ?t = "s\<lparr>wk := AddTask_w Q p (edit p (\<lambda>x. x\<lparr>State := Completed\<rparr>) (wk s))\<rparr>"
  have alloc: "allocated ?t = allocated s" by (simp add: allocated_def AddTask_w_def fun_eq_iff)
  have pend: "pending_of contents ?t = pending_of contents s @ [p]"
    by (simp add: pending_of_def fifo_Enqueue [OF fifo])
  note own = table_state [OF inv p]
  have "tasks_inv contents ?t"
    using inv own unfolding wsys_inv_def tasks_inv_def alloc pend by (auto simp: count_list_append)
  moreover have "lock_inv ?t" using inv by (auto simp: wsys_inv_def lock_inv_def w_quiet_def)
  moreover have "task_evolves s ?t q" for q
    using own by (auto simp: task_evolves_def worker_moves_def)
  ultimately show ?thesis by (simp add: step_ok_def wsys_inv_def alloc)
qed

text \<open>The task the run loop holds is started.\<close>

lemma started_step:
  assumes inv: "wsys_inv contents s" and pc: "at_pc s = Taken p" and st: "st_of s p \<in> {Pending, Scheduled}"
    and next_pc: "pc = Polling \<or> (\<exists>u. pc = Reporting u)"
  shows "step_ok contents s (s\<lparr>wk := started r eng now p (run_prepared p (wk s)), at_pc := pc\<rparr>)"
proof -
  let ?t = "s\<lparr>wk := started r eng now p (run_prepared p (wk s)), at_pc := pc\<rparr>"
  have alloc: "allocated ?t = allocated s"
    by (simp add: allocated_def started_def known_def run_prepared_def fun_eq_iff)
  have pend: "pending_of contents s = p # pending_of contents ?t" using pc next_pc by (auto simp: pending_of_def)
  have own: "allocated s p" "st_of s p = Pending"
    using inv st pend by (auto simp: wsys_inv_def tasks_inv_def)
  then have "count_list (pending_of contents s) p = 1" using inv by (auto simp: wsys_inv_def tasks_inv_def)
  then have gone: "p \<notin> set (pending_of contents ?t)" using pend by (simp add: count_list_0_iff)
  have state: "st_of ?t p \<in> {Running, Failed}" by simp
  have other: "wtask (wk ?t) q = wtask (wk s) q" if "q \<noteq> p" for q
    using that by (simp add: started_def run_prepared_def)
  have ids: "ID (wtask (wk ?t) q) = ID (wtask (wk s) q)" for q by simp
  have table: "TaskIds (wk ?t) = (TaskIds (wk s))(ID (wtask (wk s) p) \<mapsto> p)" by simp
  have T: "\<forall>u q. TaskIds (wk ?t) u = Some q \<longrightarrow>
      allocated s q \<and> ID (wtask (wk ?t) q) = u \<and> st_of ?t q \<in> {Running, Completed, Failed}"
  proof (intro allI impI)
    fix u q assume u: "TaskIds (wk ?t) u = Some q"
    show "allocated s q \<and> ID (wtask (wk ?t) q) = u \<and> st_of ?t q \<in> {Running, Completed, Failed}"
    proof (cases "q = p")
      case True
      then have "u = ID (wtask (wk s) p)"
        using u table inv by (auto simp: wsys_inv_def tasks_inv_def split: if_splits)
      with True own(1) state ids [of p] show ?thesis by auto
    next
      case False
      then have "TaskIds (wk s) u = Some q" using u table by (auto split: if_splits)
      with inv False other [OF False] ids [of q] show ?thesis by (metis table_state)
    qed
  qed
  moreover have P: "allocated s q \<and> st_of ?t q \<in> {Pending, Completed, Failed}"
    if "q \<in> set (pending_of contents ?t)" for q
  proof -
    have "q \<noteq> p" using that gone by auto
    moreover have "q \<in> set (pending_of contents s)" using that pend by simp
    ultimately show ?thesis using inv other [of q] by (simp add: wsys_inv_def tasks_inv_def)
  qed
  moreover have "st_of ?t q \<noteq> Scheduled" if "allocated s q" for q
    using that inv state other [of q] by (cases "q = p") (auto simp: wsys_inv_def tasks_inv_def)
  moreover have "count_list (pending_of contents ?t) q = 1" if "allocated s q" "st_of ?t q = Pending" for q
  proof -
    have "q \<noteq> p" using that(2) state by auto
    then show ?thesis using that inv other [of q] by (auto simp: wsys_inv_def tasks_inv_def pend)
  qed
  ultimately have tasks: "tasks_inv contents ?t" unfolding tasks_inv_def alloc by blast
  have "lock_inv ?t" using inv pc next_pc by (auto simp: wsys_inv_def lock_inv_def w_quiet_def)
  moreover have "task_evolves s ?t q" for q
  proof (cases "q = p")
    case True
    then show ?thesis using own(2) state ids [of p] by (auto simp: task_evolves_def worker_moves_def)
  qed (rule evolves_same, rule other)
  ultimately show ?thesis using tasks by (simp add: step_ok_def wsys_inv_def alloc)
qed

text \<open>The run loop lets go of a task that is not Pending, and leaves the tasks alone.\<close>

lemma dropped_step:
  assumes inv: "wsys_inv contents s" and pc: "at_pc s = Taken p" and st: "st_of s p \<noteq> Pending"
    and next_pc: "\<not> (\<exists>q. at_pc t = Taken q)" and lock: "lock_inv t"
    and same: "wtask (wk t) = wtask (wk s)" "TaskIds (wk t) = TaskIds (wk s)"
      "fresh (w_store (wk t)) = fresh (w_store (wk s))" "Queue (wk t) = Queue (wk s)"
  shows "step_ok contents s t"
proof -
  have pend: "pending_of contents s = p # pending_of contents t"
    using pc next_pc same by (auto simp: pending_of_def split: run_pc.split)
  have "count_list (pending_of contents t) q = 1" if "allocated s q" "st_of s q = Pending" for q
  proof -
    have "q \<noteq> p" using that(2) st by auto
    moreover have "count_list (pending_of contents s) q = 1" using that inv by (simp add: wsys_inv_def tasks_inv_def)
    ultimately show ?thesis by (simp add: pend)
  qed
  moreover have "\<forall>q \<in> set (pending_of contents t). q \<in> set (pending_of contents s)" using pend by simp
  ultimately have "tasks_inv contents t"
    using inv by (simp add: wsys_inv_def tasks_inv_def allocated_def same)
  with lock show ?thesis by (simp add: step_ok_def wsys_inv_def evolves_same same allocated_def)
qed

lemma quiet_inv: "wsys_inv contents s \<Longrightarrow> at_pc s \<noteq> Stuck \<Longrightarrow> w_quiet (wk s)"
  by (simp add: wsys_inv_def lock_inv_def)

lemma lock_inv_keep: "wsys_inv contents s \<Longrightarrow> w_mu (wk t) = w_mu (wk s) \<Longrightarrow> at_pc t = at_pc s \<Longrightarrow> lock_inv t"
  by (auto simp: wsys_inv_def lock_inv_def w_quiet_def)

lemma read_step: "wsys_inv contents s \<Longrightarrow> w = wk s \<Longrightarrow> step_ok contents s (s\<lparr>wk := w\<rparr>)"
  by (rule step_ok_same) (simp_all add: wsys_inv_def)

lemma monitor_task_held:
  assumes "writer (w_mu w)"
  shows "monitor_task api now t w \<noteq> Return () w'"
  using held_blocks(2) [OF assms] held_no_lock [OF assms]
  by (auto simp: monitor_task_def set_ports_def lock_op_def Let_def split: option.splits if_splits)

lemma run_task_step:
  assumes inv: "wsys_inv contents s" and pc: "at_pc s = Taken p"
    and run: "with_lock w_mu w_mu_update (run_switch api now p) (wk s) = Return (res, u) w"
  shows "step_ok contents s (s\<lparr>wk := w, at_pc := after_switch res u w\<rparr>)"
proof -
  have q: "w_quiet (wk s)" using quiet_inv [OF inv] pc by simp
  have eff: "u = Some p"
      "st_of s p \<in> {Pending, Scheduled} \<and> (\<exists>eng. w = started res eng now p (run_prepared p (wk s)))
       \<or> st_of s p \<in> {Running, Failed} \<and> w = wk s"
    using switch_effect [OF q run] by auto
  have pcs: "after_switch res u w = Polling \<or> (\<exists>i. after_switch res u w = Reporting i)"
    by (simp add: after_switch_def eff(1))
  from eff(2) show ?thesis
  proof
    assume "st_of s p \<in> {Pending, Scheduled} \<and> (\<exists>eng. w = started res eng now p (run_prepared p (wk s)))"
    then obtain eng where e: "st_of s p \<in> {Pending, Scheduled}" "w = started res eng now p (run_prepared p (wk s))" by blast
    show ?thesis using started_step [OF inv pc e(1) pcs, of res eng now] e(2) by simp
  next
    assume "st_of s p \<in> {Running, Failed} \<and> w = wk s"
    moreover have "\<not> (\<exists>i. after_switch res u w = Taken i)" "after_switch res u w \<noteq> Stuck" using pcs by auto
    ultimately show ?thesis
      by (intro dropped_step [OF inv pc]) (use q in \<open>auto simp: lock_inv_def\<close>)
  qed
qed

lemma run_stuck_step:
  assumes inv: "wsys_inv contents s" and pc: "at_pc s = Taken p"
    and run: "with_lock w_mu w_mu_update (run_switch api now p) (wk s) = Blocked w"
  shows "st_of s p = Completed" and "w = w_mu_update (\<lambda>x. x\<lparr>writer := True\<rparr>) (wk s)"
    and "step_ok contents s (s\<lparr>wk := w, at_pc := Stuck\<rparr>)"
proof -
  have q: "w_quiet (wk s)" using quiet_inv [OF inv] pc by simp
  show st: "st_of s p = Completed"
  proof (rule ccontr)
    assume nc: "st_of s p \<noteq> Completed"
    then have "run_switch api now p (wk s) = Blocked w" using run run_switch_locked [OF q nc] by metis
    moreover have "\<not> waits (run_switch api now p (wk s))"
      using nc by (simp add: run_switch_def run_scheduled_no_wait split: state.split)
    ultimately show False by simp
  qed
  then show w: "w = w_mu_update (\<lambda>x. x\<lparr>writer := True\<rparr>) (wk s)"
    using run run_switch_completed [OF q] by force
  show "step_ok contents s (s\<lparr>wk := w, at_pc := Stuck\<rparr>)"
    by (rule dropped_step [OF inv pc]) (use st w in \<open>auto simp: lock_inv_def\<close>)
qed

lemma CollectStats_frame [simp]:
  "w_mu (CollectStats_step p w) = w_mu w" "Queue (CollectStats_step p w) = Queue w"
  "TaskIds (CollectStats_step p w) = TaskIds w" "w_store (CollectStats_step p w) = w_store w"
  "wtask (CollectStats_step p w) = wtask w"
  by (simp_all add: CollectStats_step_def Let_def wtask_def [abs_def])

lemma fifo_Dequeue_Some:
  assumes fifo: "fifo Q contents" and deq: "Dequeue Q q = (Some p, q')"
  shows "contents q = p # contents q'"
proof (cases "contents q")
  case Nil
  with fifo_Dequeue_Nil [OF fifo Nil] deq show ?thesis by simp
next
  case (Cons x xs)
  with fifo_Dequeue [OF fifo Cons] deq show ?thesis by simp
qed

lemma worker_step_ok:
  assumes step: "worker_step Q api s t" and inv: "wsys_inv contents s" and fifo: "fifo Q contents"
  shows "step_ok contents s t"
  using step
proof (rule worker_stepE)
  note ok = lock_inv_ok [OF inv]
  show "step_ok contents s t" if "t = s\<lparr>wk := w\<rparr>" "StartTaskHandler_w Q env r (wk s) = Return ws w" for env r ws w
    using start_w_Return [OF that(2)] start_step [OF inv fifo] read_step [OF inv] that(1) by auto
  show "step_ok contents s t" if "t = s\<lparr>wk := w\<rparr>" "GetTasksHandler_w order r (wk s) = Return ws w" for order r ws w
    using read_step [OF inv] list_w_same(1) [OF ok that(2)] that(1) by simp
  show "step_ok contents s t" if "t = s\<lparr>wk := w\<rparr>" "GetTasksHandler_w order r (wk s) = Panic p w" for order r p w
    using read_step [OF inv] list_w_same(2) [OF ok that(2)] that(1) by simp
  show "step_ok contents s t" if "t = s\<lparr>wk := w\<rparr>" "StopTaskHandler_w Q up i r (wk s) = Return ws w" for up i r ws w
    using stop_w_Return [OF ok that(2)] stop_step [OF inv fifo] read_step [OF inv] that(1) by auto
  show "step_ok contents s t" if "t = s\<lparr>wk := w\<rparr>"
    "GetDockerTaskLogsHandler api up marshal fl i r (wk s) = Return ws w" for up marshal fl i r ws w
    using read_step [OF inv] logs_same [OF ok that(2)] that(1) by simp
  show "step_ok contents s t" if "t = s\<lparr>wk := w\<rparr>" "GetStatsHandler r (wk s) = Return ws w" for r ws w
    using read_step [OF inv] stats_same [OF ok that(2)] that(1) by simp
  show "step_ok contents s t" if t: "t = s\<lparr>wk := CollectStats_step files (wk s)\<rparr>" for files
    by (rule step_ok_same [OF inv])
      (simp_all add: t pending_of_def lock_inv_keep [OF inv])
  show "step_ok contents s t" if t: "t = s\<lparr>wk := (wk s)\<lparr>Queue := q\<rparr>, at_pc := Taken p\<rparr>"
    and pc: "at_pc s = Polling" and deq: "Dequeue Q (Queue (wk s)) = (Some p, q)" for p q
  proof -
    have "contents (Queue (wk s)) = p # contents q"
      by (rule fifo_Dequeue_Some [OF fifo deq])
    then have "pending_of contents t = pending_of contents s" using t pc by (simp add: pending_of_def)
    then show ?thesis
      by (intro step_ok_same [OF inv]) (use quiet_inv [OF inv] pc t in \<open>simp_all add: lock_inv_def\<close>)
  qed
  show "step_ok contents s t" if "t = s\<lparr>wk := w, at_pc := after_switch res u w\<rparr>" "at_pc s = Taken p"
    "with_lock w_mu w_mu_update (run_switch api now p) (wk s) = Return (res, u) w" for p now res u w
    using run_task_step [OF inv that(2,3)] that(1) by simp
  show "step_ok contents s t" if "t = s\<lparr>wk := w, at_pc := Stuck\<rparr>" "at_pc s = Taken p"
    "with_lock w_mu w_mu_update (run_switch api now p) (wk s) = Blocked w" for p now w
    using run_stuck_step(3) [OF inv that(2,3)] that(1) by simp
  show "step_ok contents s t" if t: "t = s\<lparr>wk := w, at_pc := Polling\<rparr>" and pc: "at_pc s = Reporting u"
    and run: "updateTaskState u Failed now (wk s) = Return () w" for u now w
  proof -
    have q: "w_quiet (wk s)" using quiet_inv [OF inv] pc by simp
    have w: "w = updateTaskState_body u Failed now (wk s)" using run updateTaskState_quiet [OF q] by simp
    show ?thesis
      by (rule fails_some_step [OF inv, where u = u])
        (use q pc in \<open>simp_all add: t w fails_some_update lock_inv_def w_quiet_def pending_of_def\<close>)
  qed
  show "step_ok contents s t" if "t = s\<lparr>to_inspect := running_tasks order (wk s)\<rparr>" for order
    by (rule step_ok_same [OF inv]) (simp_all add: that lock_inv_keep [OF inv])
  show "step_ok contents s t" if t: "t = s\<lparr>wk := w, to_inspect := ts\<rparr>"
    and run: "monitor_task api now p (wk s) = Return () w" for p ts now w
  proof -
    have nw: "\<not> writer (w_mu (wk s))" using monitor_task_held run by blast
    then have q: "w_quiet (wk s)" using ok by (simp add: lock_ok_def)
    note fails = monitor_task_Return [OF q run]
    show ?thesis
      by (rule fails_some_step [OF inv, where u = "ID (wtask (wk s) p)"])
        (use fails in \<open>simp_all add: t fails_some_def pending_of_def lock_inv_keep [OF inv]\<close>)
  qed
  show "step_ok contents s t" if t: "t = s\<lparr>wk := (wk s)\<lparr>engine := e\<rparr>\<rparr>" for e
    by (rule step_ok_same [OF inv]) (simp_all add: t pending_of_def lock_inv_keep [OF inv])
  show "step_ok contents s t" if nl: "\<not> can_lock (w_mu (wk s))"
    and t: "t = s\<lparr>wk := w_mu_update (\<lambda>x. x\<lparr>writers_waiting := Suc (writers_waiting x)\<rparr>) (wk s)\<rparr>"
  proof -
    have "at_pc s = Stuck" using quiet_inv [OF inv] nl w_quietD(1) by metis
    then show ?thesis
      by (intro step_ok_same [OF inv]) (use inv in \<open>simp_all add: t pending_of_def lock_inv_def wsys_inv_def\<close>)
  qed
qed

section \<open>Runs\<close>

lemma worker_reach_trans: "worker_reach Q api t v \<Longrightarrow> worker_reach Q api s t \<Longrightarrow> worker_reach Q api s v"
  by (induction rule: worker_reach.induct) (auto intro: worker_reach.further)

lemma worker_reach_step: "worker_step Q api s t \<Longrightarrow> worker_reach Q api s t"
  using worker_reach.further [OF worker_reach.here] by blast

lemma worker_reach_inv:
  assumes "worker_reach Q api s t" and "wsys_inv contents s" and "fifo Q contents"
  shows "wsys_inv contents t"
  using assms
proof (induction rule: worker_reach.induct)
  case (further t v)
  then show ?case using worker_step_ok [OF further.hyps(2)] by (simp add: step_ok_def)
qed simp

lemma worker_main_inv:
  assumes "worker_main Q None d = Inr w" and "fifo Q contents"
  shows "wsys_inv contents (started_worker w)"
  using assms(1) fifo_New [OF assms(2)]
  by (auto simp: worker_main_def started_worker_def wsys_inv_def lock_inv_def tasks_inv_def pending_of_def
      allocated_def w_quiet_def empty_heap_def)

text \<open>A task that has left Pending never comes back to it, and keeps its container.\<close>

lemma worker_reach_task:
  assumes "worker_reach Q api s t" and "wsys_inv contents s" and fifo: "fifo Q contents" and "allocated s p"
  shows "allocated t p \<and> ID (wtask (wk t) p) = ID (wtask (wk s) p) \<and>
    (st_of s p \<noteq> Pending \<longrightarrow> st_of t p \<noteq> Pending \<and> ContainerID (wtask (wk t) p) = ContainerID (wtask (wk s) p))"
  using assms
proof (induction rule: worker_reach.induct)
  case (further t v)
  then have t: "allocated t p \<and> ID (wtask (wk t) p) = ID (wtask (wk s) p) \<and>
      (st_of s p \<noteq> Pending \<longrightarrow> st_of t p \<noteq> Pending \<and> ContainerID (wtask (wk t) p) = ContainerID (wtask (wk s) p))"
    by simp
  have "wsys_inv contents t" using worker_reach_inv further by blast
  then have "allocated v p \<and> task_evolves t v p"
    using worker_step_ok [OF further.hyps(2) _ fifo] t by (simp add: step_ok_def)
  then show ?case using t by (auto simp: task_evolves_def worker_moves_def)
qed simp

text \<open>What a step can do once the run loop is stuck.\<close>

definition only_accepted :: "('q \<Rightarrow> ptr list) \<Rightarrow> ('q, 'd) worker_sys \<Rightarrow> ('q, 'd) worker_sys \<Rightarrow> bool" where
  "only_accepted contents s t \<longleftrightarrow>
     at_pc t = Stuck \<and> TaskIds (wk t) = TaskIds (wk s) \<and>
     (\<forall>p. allocated s p \<longrightarrow> allocated t p \<and> wtask (wk t) p = wtask (wk s) p) \<and>
     (\<exists>new. contents (Queue (wk t)) = contents (Queue (wk s)) @ new \<and>
        (\<forall>p \<in> set new. \<not> allocated s p \<and> allocated t p \<and> st_of t p = Pending))"

lemma only_accepted_same:
  "at_pc t = Stuck \<Longrightarrow> TaskIds (wk t) = TaskIds (wk s) \<Longrightarrow> w_store (wk t) = w_store (wk s) \<Longrightarrow>
     Queue (wk t) = Queue (wk s) \<Longrightarrow> only_accepted contents s t"
  by (simp add: only_accepted_def allocated_def wtask_def)

lemma only_accepted_trans:
  assumes "only_accepted contents s t" and "only_accepted contents t v"
  shows "only_accepted contents s v"
proof -
  obtain new new' where n: "contents (Queue (wk t)) = contents (Queue (wk s)) @ new"
      "\<forall>p \<in> set new. \<not> allocated s p \<and> allocated t p \<and> st_of t p = Pending"
      "contents (Queue (wk v)) = contents (Queue (wk t)) @ new'"
      "\<forall>p \<in> set new'. \<not> allocated t p \<and> allocated v p \<and> st_of v p = Pending"
    using assms unfolding only_accepted_def by blast
  have "contents (Queue (wk v)) = contents (Queue (wk s)) @ (new @ new')" using n(1,3) by simp
  moreover have "\<forall>p \<in> set (new @ new'). \<not> allocated s p \<and> allocated v p \<and> st_of v p = Pending"
    using n(2,4) assms unfolding only_accepted_def by (metis (no_types, lifting) Un_iff set_append)
  ultimately show ?thesis using assms unfolding only_accepted_def by metis
qed

lemma stuck_step:
  assumes step: "worker_step Q api s t" and inv: "wsys_inv contents s" and fifo: "fifo Q contents"
    and stuck: "at_pc s = Stuck"
  shows "only_accepted contents s t"
proof -
  have held: "writer (w_mu (wk s))" using inv stuck by (simp add: wsys_inv_def lock_inv_def)
  note ok = lock_inv_ok [OF inv] and no = held_no_lock [OF held]
  have nq: "\<not> w_quiet (wk s)" using no w_quietD(1) by metis
  have same: "only_accepted contents s (s\<lparr>wk := w\<rparr>)" if "w = wk s" for w
    using that stuck by (intro only_accepted_same) simp_all
  from step show ?thesis
  proof (rule worker_stepE)
    show "only_accepted contents s t" if t: "t = s\<lparr>wk := w\<rparr>" and run: "StartTaskHandler_w Q env r (wk s) = Return ws w"
      for env r ws w
    proof (cases "w = wk s")
      case True
      then show ?thesis using same t by simp
    next
      case False
      let ?p = "fresh (w_store (wk s))"
      obtain x where x: "State x = Pending"
          "w = AddTask_w Q ?p ((wk s)\<lparr>w_store := snd (alloc x (w_store (wk s)))\<rparr>)"
        using start_w_Return [OF run] False by blast
      have "wtask w = (wtask (wk s))(?p := x)" by (simp add: x(2) AddTask_w_def wtask_def alloc_def fun_eq_iff)
      moreover have "fresh (w_store w) = Suc ?p" by (simp add: x(2) AddTask_w_def alloc_def)
      moreover have "contents (Queue w) = contents (Queue (wk s)) @ [?p]" "TaskIds w = TaskIds (wk s)"
        by (simp_all add: x(2) fifo_Enqueue [OF fifo])
      ultimately show ?thesis using stuck x(1) by (simp add: only_accepted_def allocated_def t)
    qed
    show "only_accepted contents s t" if "t = s\<lparr>wk := w\<rparr>" "GetTasksHandler_w order r (wk s) = Return ws w" for order r ws w
      using same [OF list_w_same(1) [OF ok that(2)]] that(1) by simp
    show "only_accepted contents s t" if "t = s\<lparr>wk := w\<rparr>" "GetTasksHandler_w order r (wk s) = Panic p w" for order r p w
      using same [OF list_w_same(2) [OF ok that(2)]] that(1) by simp
    show "only_accepted contents s t" if "t = s\<lparr>wk := w\<rparr>" "StopTaskHandler_w Q up i r (wk s) = Return ws w" for up i r ws w
      using stop_w_Return [OF ok that(2)] nq same that(1) by blast
    show "only_accepted contents s t" if "t = s\<lparr>wk := w\<rparr>"
      "GetDockerTaskLogsHandler api up marshal fl i r (wk s) = Return ws w" for up marshal fl i r ws w
      using same [OF logs_same [OF ok that(2)]] that(1) by simp
    show "only_accepted contents s t" if "t = s\<lparr>wk := w\<rparr>" "GetStatsHandler r (wk s) = Return ws w" for r ws w
      using same [OF stats_same [OF ok that(2)]] that(1) by simp
    show "only_accepted contents s t" if "t = s\<lparr>wk := w, to_inspect := ts\<rparr>"
      "monitor_task api now p (wk s) = Return () w" for p ts now w
      using monitor_task_held [OF held] that(2) by blast
  qed (use stuck no in \<open>auto intro: only_accepted_same\<close>)
qed

lemma stuck_reach:
  assumes "worker_reach Q api s t" and inv: "wsys_inv contents s" and fifo: "fifo Q contents" and "at_pc s = Stuck"
  shows "only_accepted contents s t"
  using assms
proof (induction rule: worker_reach.induct)
  case here
  then show ?case by (intro only_accepted_same) simp_all
next
  case (further t v)
  then have t: "only_accepted contents s t" by simp
  moreover have "wsys_inv contents t" using worker_reach_inv further by blast
  ultimately have "only_accepted contents t v"
    using stuck_step [OF further.hyps(2) _ fifo] by (simp add: only_accepted_def)
  with t show ?case by (rule only_accepted_trans)
qed

section \<open>A round of the run loop as steps\<close>

definition in_round :: "('q, 'd) worker \<Rightarrow> run_pc \<Rightarrow> ptr list \<Rightarrow> ('q, 'd) worker_sys" where
  "in_round w pc ts = \<lparr>wk = w, at_pc = pc, to_inspect = ts\<rparr>"

lemma in_round_simps [simp]:
  "wk (in_round w pc ts) = w" "at_pc (in_round w pc ts) = pc" "to_inspect (in_round w pc ts) = ts"
  "(in_round w pc ts)\<lparr>wk := w'\<rparr> = in_round w' pc ts" "(in_round w pc ts)\<lparr>at_pc := pc'\<rparr> = in_round w pc' ts"
  by (simp_all add: in_round_def)

lemma take_reach:
  assumes "w_quiet w" and "Len Q (Queue w) \<noteq> 0" and "Dequeue Q (Queue w) = (Some t, q)"
  shows "worker_reach Q api (in_round w Polling ts) (in_round (w\<lparr>Queue := q\<rparr>) (Taken t) ts)"
  using worker_reach_step [OF worker_step.run_take [of "in_round w Polling ts"]] assms by simp

lemma switch_reach:
  assumes "with_lock w_mu w_mu_update (run_switch api now t) w = Return (res, u) w'"
  shows "worker_reach Q api (in_round w (Taken t) ts) (in_round w' (after_switch res u w') ts)"
  using worker_reach_step [OF worker_step.run_task [of "in_round w (Taken t) ts"]] assms by simp

lemma report_reach:
  assumes "updateTaskState u Failed now w = Return () w'"
  shows "worker_reach Q api (in_round w (Reporting u) ts) (in_round w' Polling ts)"
  using worker_reach_step [OF worker_step.run_report [of "in_round w (Reporting u) ts"]] assms by simp

lemma round_reach:
  assumes fifo: "fifo Q contents" and q: "w_quiet w" and run: "RunTasks_step Q api now w = Return () w'"
  shows "worker_reach Q api (in_round w Polling ts) (in_round w' Polling ts)"
proof (cases "Len Q (Queue w) = 0")
  case True
  then show ?thesis using run by (simp add: RunTasks_step_def worker_reach.here)
next
  case False
  then obtain t rest where head: "contents (Queue w) = t # rest"
    using fifo_Len [OF fifo] by (cases "contents (Queue w)") auto
  then obtain q' where deq: "Dequeue Q (Queue w) = (Some t, q')" using fifo_Dequeue [OF fifo] by blast
  let ?v = "w\<lparr>Queue := q'\<rparr>"
  note taken = runTask_taken [OF q False deq, of api now]
  obtain res u x where sw: "with_lock w_mu w_mu_update (run_switch api now t) ?v = Return (res, u) x"
    using run False taken by (fastforce simp: RunTasks_step_def andthen_Return_iff)
  have "w_quiet ?v" using q by simp
  then have u: "u = Some t" using switch_effect [OF _ sw] by blast
  have there: "worker_reach Q api (in_round w Polling ts) (in_round x (after_switch res u x) ts)"
    using worker_reach_trans [OF switch_reach [OF sw] take_reach [OF q False deq]] .
  show ?thesis
  proof (cases "Error res = None")
    case True
    then show ?thesis using run False taken sw there u by (simp add: RunTasks_step_def after_switch_def)
  next
    case err: False
    then have "updateTaskState (ID (wtask x t)) Failed now x = Return () w'"
      using run False taken sw u by (simp add: RunTasks_step_def)
    then have "worker_reach Q api (in_round x (after_switch res u x) ts) (in_round w' Polling ts)"
      using report_reach [of "ID (wtask x t)"] err u by (auto simp: after_switch_def)
    from worker_reach_trans [OF this there] show ?thesis .
  qed
qed

lemma round_stuck_reach:
  assumes fifo: "fifo Q contents" and q: "w_quiet w" and run: "RunTasks_step Q api now w = Blocked w'"
  shows "worker_reach Q api (in_round w Polling ts) (in_round w' Stuck ts)"
proof -
  have some: "Len Q (Queue w) \<noteq> 0" using run by (auto simp: RunTasks_step_def split: if_splits)
  then obtain t rest where head: "contents (Queue w) = t # rest"
    using fifo_Len [OF fifo] by (cases "contents (Queue w)") auto
  then obtain q' where deq: "Dequeue Q (Queue w) = (Some t, q')" using fifo_Dequeue [OF fifo] by blast
  let ?v = "w\<lparr>Queue := q'\<rparr>"
  note taken = runTask_taken [OF q some deq, of api now]
  have qv: "w_quiet ?v" using q by simp
  have sw: "with_lock w_mu w_mu_update (run_switch api now t) ?v = Blocked w'"
  proof (cases "with_lock w_mu w_mu_update (run_switch api now t) ?v")
    case (Return a x)
    obtain res u where a: "a = (res, u)" by (cases a)
    have eff: "u = Some t" "w_quiet x"
      using switch_effect [OF qv Return [unfolded a]] q by (auto simp: w_quiet_def)
    then show ?thesis using run some taken Return a
      by (simp add: RunTasks_step_def updateTaskState_quiet split: if_splits)
  qed (use run some taken in \<open>simp_all add: RunTasks_step_def\<close>)
  have "worker_step Q api (in_round ?v (Taken t) ts) (in_round w' Stuck ts)"
    using worker_step.run_stuck [of "in_round ?v (Taken t) ts" t api now w' Q] sw qv by simp
  from worker_reach_trans [OF worker_reach_step [OF this] take_reach [OF q some deq]] show ?thesis .
qed

section \<open>Properties\<close>

text \<open>
  C4: the state of a worker in every state its goroutines and requests can bring it to. Unless the run
  loop is stuck nobody holds the lock. The table maps an identifier to a task that has it and that
  is Running, Completed or Failed; a task that waits to be run is Pending, Completed or Failed, so
  the run loop never starts a container that runs; no task rests in the state Scheduled; and an
  accepted task that has not been started waits exactly once, so it is neither lost nor started twice.
\<close>

theorem worker_always_wf:
  assumes main: "worker_main Q None d = Inr w0" and fifo: "fifo Q contents"
    and reach: "worker_reach Q api (started_worker w0) s"
  shows "(if at_pc s = Stuck then writer (w_mu (wk s)) else mutex_free (w_mu (wk s)))
    \<and> (\<forall>u p. TaskIds (wk s) u = Some p \<longrightarrow> p < fresh (w_store (wk s)) \<and> ID (wtask (wk s) p) = u
        \<and> State (wtask (wk s) p) \<in> {Running, Completed, Failed})
    \<and> (\<forall>p \<in> set (pending_of contents s). p < fresh (w_store (wk s))
        \<and> State (wtask (wk s) p) \<in> {Pending, Completed, Failed})
    \<and> (\<forall>p < fresh (w_store (wk s)). State (wtask (wk s) p) \<noteq> Scheduled
        \<and> (State (wtask (wk s) p) = Pending \<longrightarrow> count_list (pending_of contents s) p = 1))"
proof -
  have "wsys_inv contents s" by (rule worker_reach_inv [OF reach worker_main_inv [OF main fifo] fifo])
  then show ?thesis unfolding wsys_inv_def lock_inv_def tasks_inv_def allocated_def w_quiet_def by blast
qed

text \<open>A request, the worker \<open>main\<close> builds, and the same after one accepted request.\<close>

definition plain_request :: request where
  "plain_request =
     \<lparr>r_Method = ''DELETE'', r_Path = ''/tasks/3'', r_Header = (\<lambda>_. []), r_Query = (\<lambda>_. []), r_correlation = None\<rparr>"

definition fresh_worker :: "(ptr list, nat) worker" where
  "fresh_worker =
     \<lparr>w_Name = [], w_store = empty_heap, Queue = [], TaskIds = (\<lambda>_. None), w_TaskCount = 0,
      w_State = Ready, w_Stats = Some zero_stats, engine = 0, w_mu = unlocked\<rparr>"

lemma fresh_worker_main: "worker_main list_queue None 0 = Inr fresh_worker"
  by (simp add: worker_main_def fresh_worker_def list_queue_def)

definition one_task :: "(ptr list, nat) worker" where
  "one_task = AddTask_w list_queue 0 (fresh_worker\<lparr>w_store := snd (alloc (zero_task\<lparr>ID := 3\<rparr>) empty_heap)\<rparr>)"

lemma one_task_facts:
  "wtask one_task 0 = zero_task\<lparr>ID := 3\<rparr>" "Queue one_task = [0]" "TaskIds one_task = (\<lambda>_. None)"
  "w_mu one_task = unlocked" "fresh (w_store one_task) = 1" "engine one_task = 0"
  by (simp_all add: one_task_def AddTask_w_def fresh_worker_def alloc_def wtask_def list_queue_def empty_heap_def)

lemma one_task_reach: "worker_reach list_queue api (started_worker fresh_worker) (in_round one_task Polling [])"
proof -
  let ?env = "\<lparr>content_length = 1, decoded = Inr \<lparr>ev_ID = 0, ev_State = Pending, ev_Timestamp = 0, ev_Task = zero_task\<rparr>,
    new_task_id = 3, arrival = 0\<rparr>"
  have x: "ev_Task (accepted_event ?env \<lparr>ev_ID = 0, ev_State = Pending, ev_Timestamp = 0, ev_Task = zero_task\<rparr>)
      = zero_task\<lparr>ID := 3\<rparr>"
    by (simp add: accepted_event_def zero_task_def Let_def)
  have "\<exists>ws. StartTaskHandler_w list_queue ?env plain_request fresh_worker = Return ws one_task"
    by (simp add: StartTaskHandler_w_def x one_task_def Let_def alloc_def fresh_worker_def empty_heap_def)
  then obtain ws where "StartTaskHandler_w list_queue ?env plain_request fresh_worker = Return ws one_task" ..
  then have "worker_step list_queue api (in_round fresh_worker Polling []) (in_round one_task Polling [])"
    using worker_step.start [of list_queue ?env plain_request "in_round fresh_worker Polling []" ws one_task api] by simp
  from worker_reach_step [OF this] show ?thesis by (simp add: started_worker_def in_round_def)
qed

theorem worker_always_wf_witness:
  "count_list (pending_of (\<lambda>q. q) (in_round one_task Polling [])) 0 = 1"
  using worker_always_wf [OF fresh_worker_main fifo_list_queue one_task_reach [of sample_docker]]
  by (simp add: one_task_facts zero_task_def)

text \<open>
  C12: the life of a task on a worker. A step changes the state of an accepted task only from Pending
  to Running or Failed, from Running or Failed to Completed, or from Running or Completed to Failed.
  Whatever happens afterwards a task keeps its identifier, and one that was started does not become
  Pending again and keeps its container: it is started at most once. These are the changes the code
  makes. They are not those of the table in \<open>src/.github/copilot-instructions.md\<close>, in which Completed and
  Failed are final and Pending only leads to Scheduled; no code of the worker consults such a table.
\<close>

theorem worker_task_lifecycle:
  assumes main: "worker_main Q None d = Inr w0" and fifo: "fifo Q contents"
    and reach: "worker_reach Q api (started_worker w0) s" and p: "p < fresh (w_store (wk s))"
  shows "(\<forall>t. worker_step Q api s t \<longrightarrow> (State (wtask (wk s) p), State (wtask (wk t) p)) \<in> worker_moves \<union> Id)
    \<and> (\<forall>t. worker_reach Q api s t \<longrightarrow> ID (wtask (wk t) p) = ID (wtask (wk s) p)
        \<and> (State (wtask (wk s) p) \<noteq> Pending \<longrightarrow> State (wtask (wk t) p) \<noteq> Pending
            \<and> ContainerID (wtask (wk t) p) = ContainerID (wtask (wk s) p)))"
proof -
  have inv: "wsys_inv contents s" by (rule worker_reach_inv [OF reach worker_main_inv [OF main fifo] fifo])
  have a: "allocated s p" using p by (simp add: allocated_def)
  have "(st_of s p, st_of t p) \<in> worker_moves \<union> Id" if "worker_step Q api s t" for t
    using worker_step_ok [OF that inv fifo] a by (simp add: step_ok_def task_evolves_def)
  with worker_reach_task [OF _ inv fifo a] show ?thesis by blast
qed

text \<open>The worker of the sample after a round of its run loop.\<close>

lemma running_sample:
  "\<exists>v. worker_reach list_queue sample_docker (in_round one_task Polling []) (in_round v Polling [])
    \<and> w_quiet v \<and> TaskIds v 3 = Some 0 \<and> Queue v = [] \<and> fresh (w_store v) = 1 \<and> State (wtask v 0) \<in> {Running, Failed}"
proof -
  let ?api = sample_docker and ?w = one_task
  have q: "w_quiet ?w" by (simp add: one_task_facts w_quiet_def)
  have st: "State (wtask ?w 0) \<in> {Pending, Scheduled}" by (simp add: one_task_facts zero_task_def)
  have client: "NewClientOk ?api" by (simp add: sample_docker_def)
  obtain r dk eng where run: "Run ?api \<lparr>d_Config = NewConfig (wtask ?w 0), ContainerId = []\<rparr> (engine ?w) = (r, dk, eng)"
    by (metis prod_cases3)
  let ?v = "run_result r eng 70 0 (?w\<lparr>Queue := []\<rparr>)"
  have round: "RunTasks_step list_queue ?api 70 ?w = Return () ?v"
    using RunTasks_started [OF q fifo_list_queue _ st client run] one_task_facts(2) by simp
  have "w_quiet ?v" "TaskIds ?v 3 = Some 0" "Queue ?v = []" "fresh (w_store ?v) = 1"
    using q by (simp_all add: w_quiet_def one_task_facts run_result_def started_def known_def run_prepared_def Let_def)
  moreover have "State (wtask ?v 0) \<in> {Running, Failed}" by simp
  ultimately show ?thesis using round_reach [OF fifo_list_queue q round, of "[]"] by blast
qed

theorem worker_task_lifecycle_witness:
  "\<exists>t. worker_reach list_queue sample_docker (in_round one_task Polling []) t
    \<and> State (wtask (wk t) 0) \<in> {Running, Failed} \<and> ID (wtask (wk t) 0) = 3"
proof -
  obtain v where v: "worker_reach list_queue sample_docker (in_round one_task Polling []) (in_round v Polling [])"
      "State (wtask v 0) \<in> {Running, Failed}"
    using running_sample by blast
  moreover have "ID (wtask v 0) = 3"
    using worker_task_lifecycle [OF fresh_worker_main fifo_list_queue one_task_reach, of 0 sample_docker] v(1)
    by (auto simp: one_task_facts)
  ultimately show ?thesis using in_round_simps(1) by metis
qed

text \<open>
  C37: a run loop that is stuck stays stuck, and the worker is then of use to nobody: no task it has is
  ever changed again, the table stays as it is, listing, stopping and looking up wait for ever. Yet
  it goes on answering status 201 to tasks it is sent, and every one of them waits in the queue,
  Pending.
\<close>

theorem stuck_worker_only_accepts:
  assumes main: "worker_main Q None d = Inr w0" and fifo: "fifo Q contents"
    and reach: "worker_reach Q api (started_worker w0) s" and stuck: "at_pc s = Stuck"
    and later: "worker_reach Q api s t"
  shows "at_pc t = Stuck \<and> TaskIds (wk t) = TaskIds (wk s)
    \<and> (\<forall>p < fresh (w_store (wk s)). wtask (wk t) p = wtask (wk s) p)
    \<and> (\<exists>new. contents (Queue (wk t)) = contents (Queue (wk s)) @ new \<and> (\<forall>p \<in> set new. State (wtask (wk t) p) = Pending))
    \<and> (\<forall>order r. GetTasksHandler_w order r (wk t) = Blocked (wk t)) \<and> (\<forall>u. GetTask_w u (wk t) = Blocked (wk t))
    \<and> (\<forall>up taskID r. taskID \<noteq> [] \<longrightarrow> StopTaskHandler_w Q up taskID r (wk t) = Blocked (wk t))
    \<and> (\<forall>env te r. content_length env \<noteq> 0 \<and> decoded env = Inr te \<longrightarrow>
        (\<exists>ws w. StartTaskHandler_w Q env r (wk t) = Return ws w \<and> status_of ws = 201))"
proof -
  have inv: "wsys_inv contents s" by (rule worker_reach_inv [OF reach worker_main_inv [OF main fifo] fifo])
  note only = stuck_reach [OF later inv fifo stuck]
  have "wsys_inv contents t" by (rule worker_reach_inv [OF later inv fifo])
  then have held: "writer (w_mu (wk t))" using only by (simp add: only_accepted_def wsys_inv_def lock_inv_def)
  have listing: "GetTasksHandler_w order r (wk t) = Blocked (wk t)" for order r
    by (simp add: GetTasksHandler_w_def with_rlock_def rlock_op_def held_no_rlock [OF held] Let_def)
  have stopping: "StopTaskHandler_w Q up i r (wk t) = Blocked (wk t)" if "i \<noteq> []" for up i r
    using that held_no_lock [OF held] by (simp add: StopTaskHandler_w_def lock_op_def)
  have accepting: "\<exists>ws w. StartTaskHandler_w Q env r (wk t) = Return ws w \<and> status_of ws = 201"
    if "content_length env \<noteq> 0 \<and> decoded env = Inr te" for env te r
    using that by (simp add: StartTaskHandler_w_def alloc_def Let_def)
  show ?thesis
    using only listing stopping accepting held_blocks(1) [OF held]
    unfolding only_accepted_def allocated_def by blast
qed

text \<open>The worker of the sample after its task was started, stopped through the API and taken again.\<close>

lemma stuck_sample:
  "\<exists>w. worker_reach list_queue sample_docker (started_worker fresh_worker) (in_round w Stuck [])
    \<and> fresh (w_store w) = 1 \<and> Queue w = []"
proof -
  let ?api = sample_docker
  obtain v where v: "worker_reach list_queue ?api (in_round one_task Polling []) (in_round v Polling [])"
      "w_quiet v" "TaskIds v 3 = Some 0" "Queue v = []" "fresh (w_store v) = 1"
    using running_sample by blast
  let ?x = "AddTask_w list_queue 0 (edit 0 (\<lambda>t. t\<lparr>State := Completed\<rparr>) v)"
  have "StopTaskHandler_w list_queue (\<lambda>_. Inr 3) ''3'' plain_request v
      = Return (writeSuccessResponse 200 (W_Task (wtask ?x 0))) ?x"
    using StopTaskHandler_w_quiet [OF v(2), of "''3''" "\<lambda>_. Inr 3" 3 0 list_queue plain_request] v(3)
    by (simp add: Let_def)
  then have stop: "worker_step list_queue ?api (in_round v Polling []) (in_round ?x Polling [])"
    using worker_step.stop [of list_queue "\<lambda>_. Inr 3" "''3''" plain_request "in_round v Polling []"] by simp
  have x: "w_quiet ?x" "State (wtask ?x 0) = Completed" "Queue ?x = 0 # []"
    using v by (simp_all add: w_quiet_def) (simp add: list_queue_def)
  obtain y where y: "RunTasks_step list_queue ?api 80 ?x = Blocked y" "fresh (w_store y) = 1" "Queue y = []"
    using RunTasks_completed [OF x(1) fifo_list_queue x(3,2), of ?api 80] v(5) by (auto simp: AddTask_w_def)
  have "worker_reach list_queue ?api (started_worker fresh_worker) (in_round y Stuck [])"
    using worker_reach_trans [OF round_stuck_reach [OF fifo_list_queue x(1) y(1), of "[]"]
        worker_reach_trans [OF worker_reach_step [OF stop] worker_reach_trans [OF v(1) one_task_reach]]] .
  with y show ?thesis by blast
qed

theorem stuck_worker_only_accepts_witness:
  "\<exists>w. worker_reach list_queue sample_docker (started_worker fresh_worker) (in_round w Stuck [])
    \<and> GetTask_w 3 w = Blocked w"
proof -
  obtain w where w: "worker_reach list_queue sample_docker (started_worker fresh_worker) (in_round w Stuck [])"
    using stuck_sample by blast
  then show ?thesis
    using stuck_worker_only_accepts [OF fresh_worker_main fifo_list_queue w _ worker_reach.here] by auto
qed

text \<open>
  C38: the monitor can undo a stop. The tasks it inspects are those that were Running when its round
  began. If one of them has exited and is stopped through the API before the monitor comes to it,
  the stop is answered with status 200 and queued, the monitor then marks the task Failed, and the
  run loop takes a task of an \<open>unexpected state\<close>: it makes no call to Docker, the container is never
  removed, and the task stays Failed.
\<close>

theorem stop_lost_to_monitor:
  assumes q: "w_quiet (wk s)" and pc: "at_pc s = Polling" and fifo: "fifo Q contents"
    and empty: "contents (Queue (wk s)) = []" and snapshot: "to_inspect s = p # ps"
    and u: "taskID \<noteq> []" "up taskID = Inr u" "TaskIds (wk s) u = Some p" "ID (wtask (wk s) p) = u"
    and docker: "complete_reply api (ContainerID (wtask (wk s) p)) (engine (wk s))"
      "gone api (ContainerID (wtask (wk s) p)) (engine (wk s))"
  shows "\<exists>ws w t. StopTaskHandler_w Q up taskID r (wk s) = Return ws w \<and> status_of ws = 200
    \<and> State (wtask w p) = Completed \<and> contents (Queue w) = [p]
    \<and> worker_reach Q api (s\<lparr>wk := w\<rparr>) t \<and> at_pc t = Polling \<and> w_quiet (wk t) \<and> contents (Queue (wk t)) = []
    \<and> State (wtask (wk t) p) = Failed \<and> engine (wk t) = engine (wk s)"
proof -
  let ?w = "AddTask_w Q p (edit p (\<lambda>x. x\<lparr>State := Completed\<rparr>) (wk s))"
  have stop: "StopTaskHandler_w Q up taskID r (wk s) = Return (writeSuccessResponse 200 (W_Task (wtask ?w p))) ?w"
    using StopTaskHandler_w_quiet [where uuid_parse = up, OF q u(1,2,3), of Q r] by (simp add: Let_def)
  have quiet: "w_quiet ?w" using q by (simp add: w_quiet_def)
  let ?v = "monitored api 50 p ?w"
  have "monitor_task api 50 p ?w = Return () ?v"
    by (rule monitor_task_quiet [OF quiet]) (use docker in simp)
  then have look: "worker_step Q api (s\<lparr>wk := ?w\<rparr>) (in_round ?v Polling ps)"
    using worker_step.inspect [of "s\<lparr>wk := ?w\<rparr>" p ps api 50 ?v Q] snapshot pc
    by (cases s) (simp add: in_round_def)
  have failed: "State (wtask ?v p) = Failed"
    using monitored_State [of ?w p api 50 p] u(3,4) docker(2) by simp
  have v: "w_quiet ?v" "contents (Queue ?v) = p # []" "ID (wtask ?v p) = u" "TaskIds ?v u = Some p"
    using quiet empty u by (simp_all add: w_quiet_def fifo_Enqueue [OF fifo])
  obtain q' where q': "contents q' = []"
      "RunTasks_step Q api 60 ?v = Return () (updateTaskState_body u Failed 60 (?v\<lparr>Queue := q'\<rparr>))"
    using RunTasks_failed [OF v(1) fifo v(2) failed, of api 60] v(3) by auto
  let ?t = "in_round (updateTaskState_body u Failed 60 (?v\<lparr>Queue := q'\<rparr>)) Polling ps"
  have "worker_reach Q api (s\<lparr>wk := ?w\<rparr>) ?t"
    using worker_reach_trans [OF round_reach [OF fifo v(1) q'(2)] worker_reach_step [OF look]] .
  moreover have "w_quiet (wk ?t)" using v(1) by (simp add: w_quiet_def)
  moreover have "State (wtask (wk ?t) p) = Failed" "contents (Queue (wk ?t)) = []" "engine (wk ?t) = engine (wk s)"
    using v(4) q'(1) by (simp_all add: wtask_updateTaskState)
  moreover have "status_of (writeSuccessResponse 200 (W_Task (wtask ?w p))) = 200" "State (wtask ?w p) = Completed"
      "contents (Queue ?w) = [p]"
    using empty by (simp_all add: fifo_Enqueue [OF fifo])
  ultimately show ?thesis using stop by (metis in_round_simps(2))
qed

theorem stop_lost_to_monitor_witness:
  "\<exists>ws w t. StopTaskHandler_w list_queue (\<lambda>_. Inr 3) ''3'' plain_request
      ((sample_worker Running)\<lparr>TaskIds := [3 \<mapsto> 0], Queue := []\<rparr>) = Return ws w \<and> status_of ws = 200
    \<and> worker_reach list_queue sample_docker (in_round w Polling [0]) t \<and> State (wtask (wk t) 0) = Failed"
proof -
  let ?w = "(sample_worker Running)\<lparr>TaskIds := [3 \<mapsto> 0], Queue := []\<rparr>"
  have t: "wtask ?w 0 = zero_task\<lparr>ID := 3, State := Running, ContainerID := ''c0''\<rparr>"
    by (simp add: sample_worker_def wtask_def)
  have "w_quiet ?w" using sample_worker_quiet(1) by (simp add: w_quiet_def)
  moreover have "complete_reply sample_docker (ContainerID (wtask ?w 0)) (engine ?w)"
      "gone sample_docker (ContainerID (wtask ?w 0)) (engine ?w)"
    using t by (simp_all add: complete_reply_def gone_def sample_docker_def)
  ultimately show ?thesis
    using stop_lost_to_monitor [of "in_round ?w Polling [0]", OF _ _ fifo_list_queue, of 0 "[]" "''3''" "\<lambda>_. Inr 3" 3
        sample_docker plain_request] t
    by fastforce
qed

end
