(* ===== verification/Loops.thy ===== *)
theory Loops
  imports Worker_System Routing
begin

text \<open>
  What the goroutines of the two processes do for ever, and what each process starts: the loops
  \<open>ProcessTasks\<close>, \<open>UpdateTasks\<close> and \<open>StartBackgroundCleanup\<close> of \<open>src/internal/manager/manager.go\<close>, \<open>RunTasks\<close>,
  \<open>MonitorTasks\<close> and \<open>CollectStats\<close> of \<open>src/internal/worker/service/worker.go\<close>, and the rest of the two \<open>main\<close>
  functions. A loop is run for the rounds of a list of inputs, one element per round (what the
  network, the clock and Docker give it), of any length; sleeping between rounds has no effect.
\<close>

section \<open>The loops of the manager\<close>

definition ProcessTasks :: "'q queue_api \<Rightarrow> send_env list \<Rightarrow> 'q manager \<Rightarrow> (unit, 'q manager) result" where
  "ProcessTasks Q = for_each (SendWork Q)"

text \<open>The error \<open>updateTasks\<close> returns is dropped.\<close>

definition UpdateTasks :: "(string \<times> tasks_reply) list list \<Rightarrow> 'q manager \<Rightarrow> (unit, 'q manager) result" where
  "UpdateTasks = for_each (\<lambda>replies m. andthen (updateTasks replies m) (\<lambda>err. Return ()))"

text \<open>One element per tick of \<open>CLEANUP_INTERVAL\<close>: the order the table is enumerated in, and the time.\<close>

definition CLEANUP_INTERVAL :: time where
  "CLEANUP_INTERVAL = hours 1"

definition StartBackgroundCleanup :: "(uuid list \<times> time) list \<Rightarrow> 'q manager \<Rightarrow> (unit, 'q manager) result" where
  "StartBackgroundCleanup = for_each (\<lambda>(order, now). CleanUpTasks order now)"

section \<open>The loops of the worker\<close>

definition RunTasks :: "'q queue_api \<Rightarrow> 'd docker_api \<Rightarrow> time list \<Rightarrow> ('q, 'd) worker \<Rightarrow> (unit, ('q, 'd) worker) result" where
  "RunTasks Q api = for_each (RunTasks_step Q api)"

definition MonitorTasks :: "'d docker_api \<Rightarrow> (uuid list \<times> time) list \<Rightarrow> ('q, 'd) worker \<Rightarrow> (unit, ('q, 'd) worker) result" where
  "MonitorTasks api = for_each (\<lambda>(order, now). MonitorTasks_step api order now)"

definition CollectStats :: "proc_files list \<Rightarrow> ('q, 'd) worker \<Rightarrow> ('q, 'd) worker" where
  "CollectStats = fold CollectStats_step"

section \<open>Starting the processes\<close>

datatype goroutine =
    PprofServer | HealthCheckLoop | ProcessTasksLoop | UpdateTasksLoop | BackgroundCleanup
  | RunTasksLoop | MonitorTasksLoop | CollectStatsLoop | ApiServer

record 'q manager_process =
  mp_Manager :: "'q manager"
  mp_Api :: manager_api
  mp_go :: "goroutine list"

definition manager_process :: "'q queue_api \<Rightarrow> time \<Rightarrow> string \<Rightarrow> error + 'q manager_process" where
  "manager_process Q now workersStr =
     (case manager_main Q now workersStr of
        Inl err \<Rightarrow> Inl err
      | Inr m \<Rightarrow>
          Inr \<lparr>mp_Manager = m,
               mp_Api = \<lparr>a_Address = ''localhost'', a_Port = 8080, a_Router = [], APIConfig = (\<lambda>_. None)\<rparr>,
               mp_go = [BackgroundCleanup, PprofServer, HealthCheckLoop, ProcessTasksLoop, UpdateTasksLoop, ApiServer]\<rparr>)"

text \<open>
  \<open>strconv.ParseInt(s, 10, 64)\<close> without its error. \<open>ParseUint\<close> gives \<open>None\<close> for a syntax error; it returns the
  largest 64-bit value as soon as a digit makes the value overflow, without looking at the rest of
  the text. The value of \<open>ParseInt\<close> is then 0, or the end of the range of \<open>int64\<close>.
\<close>

fun ParseUint :: "nat \<Rightarrow> string \<Rightarrow> nat option" where
  "ParseUint n [] = Some n"
| "ParseUint n (c # s) =
     (case digit_value c of
        None \<Rightarrow> None
      | Some d \<Rightarrow> if 2 ^ 64 \<le> 10 * n + d then Some (2 ^ 64 - 1) else ParseUint (10 * n + d) s)"

definition clamp :: "int \<Rightarrow> go_int" where
  "clamp i = (if i < - (2 ^ 63) then word_of_int (- (2 ^ 63)) else if 2 ^ 63 \<le> i then word_of_int (2 ^ 63 - 1)
              else word_of_int i)"

definition clamped_value :: "int \<Rightarrow> string \<Rightarrow> go_int" where
  "clamped_value sign ds =
     (if ds = [] then 0 else case ParseUint 0 ds of None \<Rightarrow> 0 | Some n \<Rightarrow> clamp (sign * int n))"

fun ParseInt_value :: "string \<Rightarrow> go_int" where
  "ParseInt_value [] = 0"
| "ParseInt_value (c # s) =
     (if c = CHR ''-'' then clamped_value (-1) s
      else if c = CHR ''+'' then clamped_value 1 s
      else clamped_value 1 (c # s))"

record ('q, 'd) worker_process =
  wp_Worker :: "('q, 'd) worker"
  wp_Api :: worker_api
  wp_go :: "goroutine list"

definition worker_process ::
    "'q queue_api \<Rightarrow> string \<Rightarrow> string \<Rightarrow> error option \<Rightarrow> 'd \<Rightarrow> error + ('q, 'd) worker_process" where
  "worker_process Q host portStr client_error d =
     (let port = ParseInt_value portStr
      in case worker_main Q client_error d of
           Inl err \<Rightarrow> Inl err
         | Inr w \<Rightarrow>
             Inr \<lparr>wp_Worker = w, wp_Api = \<lparr>b_Address = host, b_Port = port, b_Router = []\<rparr>,
                  wp_go = [RunTasksLoop, MonitorTasksLoop, CollectStatsLoop, ApiServer]\<rparr>)"

section \<open>Loops that keep running\<close>

lemma for_each_total:
  assumes "\<And>x s. x \<in> set xs \<Longrightarrow> I s \<Longrightarrow> \<exists>t. body x s = Return () t \<and> I t" and "I s"
  shows "\<exists>t. for_each body xs s = Return () t \<and> I t"
  using assms
proof (induction xs arbitrary: s)
  case (Cons x xs)
  obtain t where t: "body x s = Return () t" "I t" using Cons.prems by (metis list.set_intros(1))
  have "\<exists>u. for_each body xs t = Return () u \<and> I u"
    using Cons.IH [of t] Cons.prems(1) t(2) by (metis list.set_intros(2))
  with t show ?case by auto
qed simp

definition sound :: "('q \<Rightarrow> ptr list) \<Rightarrow> 'q manager \<Rightarrow> bool" where
  "sound contents m \<longleftrightarrow> manager_wf contents m \<and> quiet m"

lemma UpdateTasks_round:
  assumes "sound contents m" and "\<forall>r \<in> set replies. no_null_entry (snd r)"
  shows "\<exists>m'. andthen (updateTasks replies m) (\<lambda>err. Return ()) = Return () m' \<and> sound contents m'
    \<and> dom (TaskDb m) \<subseteq> dom (TaskDb m')"
proof -
  obtain e where "updateTasks replies m = Return e (fold apply_reply replies m)"
    using updateTasks_quiet assms by (metis sound_def)
  then show ?thesis
    using assms(1) apply_replies_wf [of contents m replies] apply_replies_dom [of m replies]
    by (auto simp: sound_def quiet_def)
qed

lemma StartBackgroundCleanup_round:
  assumes "sound contents m"
  shows "\<exists>m'. CleanUpTasks order now m = Return () m' \<and> sound contents m'"
proof -
  have "mu (fold (cleanup_entry c) us n) = mu n" for c us and n :: "'a manager"
    by (induction us arbitrary: n) simp_all
  then show ?thesis
    using assms CleanUpTasks_quiet [of m order now] cleanup_fold_wf by (auto simp: sound_def quiet_def)
qed

section \<open>Draining the manager's queue\<close>

definition assigned :: "string list \<Rightarrow> 'q manager \<Rightarrow> ptr \<Rightarrow> bool" where
  "assigned ws m t \<longleftrightarrow> State (task_at m t) = Scheduled \<and>
     (\<exists>w \<in> set ws. TaskWorkerMap m (ID (task_at m t)) = Some w \<and> ID (task_at m t) \<in> set (assigned_list m w))"

lemma accepted_schedulable [simp]: "schedulable (accepted_state env t w m) = schedulable m"
  by (simp add: accepted_state_def record_assignment_def scheduled_def schedulable_def healthy_def [abs_def]
      ready_def [abs_def] Let_def)

lemma schedulable_queue [simp]: "schedulable (m\<lparr>PendingTasks := q\<rparr>) = schedulable m"
  by (simp add: schedulable_def healthy_def [abs_def] ready_def [abs_def])

lemma accepted_list: "u \<in> set (assigned_list m v) \<Longrightarrow> u \<in> set (assigned_list (accepted_state env t w m) v)"
  by (auto simp: accepted_state_def record_assignment_def scheduled_def assigned_list_def Let_def)

lemma accepted_state_State:
  "State (task_at (accepted_state env t w m) p) = (if p = t then Scheduled else State (task_at m p))"
  by (simp add: accepted_state_def record_assignment_def scheduled_def task_at_def Let_def)

lemma assigned_accepted:
  assumes "assigned ws m p" and "w \<in> set ws"
  shows "assigned ws (accepted_state env t w m) p"
proof (cases "ID (task_at m p) = ID (task_at m t)")
  case True
  then show ?thesis using assms accepted_state_simps(5) [of m t env w]
    by (auto simp: assigned_def accepted_state_State)
next
  case False
  then show ?thesis using assms accepted_list [of _ m _ env t w]
    by (auto simp: assigned_def accepted_state_State)
qed

lemma assigned_now: "w \<in> set ws \<Longrightarrow> assigned ws (accepted_state env t w m) t"
  using accepted_state_simps(5) [of m t env w] by (auto simp: assigned_def)

lemma assigned_queue [simp]: "assigned ws (m\<lparr>PendingTasks := q\<rparr>) p = assigned ws m p"
  by (simp add: assigned_def assigned_list_def)

definition accepting :: "send_env \<Rightarrow> bool" where
  "accepting env \<longleftrightarrow> marshal_error env = None \<and> new_request_error env = None \<and>
     (\<forall>w te. \<exists>d. post env w te = Posted 201 d)"

lemma ProcessTasks_assigns:
  assumes "sound contents m" and fifo: "fifo Q contents" and "contents (PendingTasks m) = ts"
    and "schedulable m = ws" "ws \<noteq> []" and "\<forall>env \<in> set envs. accepting env" and "length envs = length ts"
    and "\<forall>p \<in> done_before. assigned ws m p"
  shows "\<exists>m'. ProcessTasks Q envs m = Return () m' \<and> sound contents m' \<and> contents (PendingTasks m') = []
    \<and> (\<forall>p \<in> done_before \<union> set ts. assigned ws m' p)"
  using assms
proof (induction ts arbitrary: m envs done_before)
  case (Cons t ts)
  then obtain env envs' where e: "envs = env # envs'" "accepting env" by (cases envs) auto
  have wf: "manager_wf contents m" "quiet m" and some: "schedulable m \<noteq> []"
    using Cons.prems(1,4,5) by (simp_all add: sound_def)
  have env: "marshal_error env = None" "new_request_error env = None"
      "\<forall>w. \<exists>d. post env w (sent_event env t m) = Posted 201 d"
    using e(2) by (simp_all add: accepting_def)
  obtain w q' where w: "w \<in> set ws" "contents q' = ts"
      "SendWork Q env m = Return () (accepted_state env t w (m\<lparr>PendingTasks := q'\<rparr>))"
      "sound contents (accepted_state env t w (m\<lparr>PendingTasks := q'\<rparr>))"
    using SendWork_accepted [OF wf fifo Cons.prems(3) some env] Cons.prems(4) unfolding sound_def by blast
  let ?a = "accepted_state env t w (m\<lparr>PendingTasks := q'\<rparr>)"
  have sched: "schedulable ?a = ws"
    using Cons.prems(4) by simp
  have queue: "contents (PendingTasks ?a) = ts" using w(2) by simp
  have rest: "\<forall>env \<in> set envs'. accepting env" and same_length: "length envs' = length ts"
    using Cons.prems(6,7) e(1) by simp_all
  have again: "\<forall>p \<in> insert t done_before. assigned ws ?a p"
  proof
    fix p assume "p \<in> insert t done_before"
    then show "assigned ws ?a p"
      using Cons.prems(8) assigned_now [OF w(1)] assigned_accepted [OF _ w(1), of "m\<lparr>PendingTasks := q'\<rparr>" p]
      by (cases "p = t") simp_all
  qed
  obtain m' where "ProcessTasks Q envs' ?a = Return () m'" "sound contents m'" "contents (PendingTasks m') = []"
      "\<forall>p \<in> insert t done_before \<union> set ts. assigned ws m' p"
    using Cons.IH [OF w(4) fifo queue sched Cons.prems(5) rest same_length again] by blast
  then show ?case using w(3) e(1) by (auto simp: ProcessTasks_def)
qed (auto simp: ProcessTasks_def)

section \<open>Draining the worker's queue\<close>

lemma run_result_other: "p \<noteq> t \<Longrightarrow> wtask (run_result r e now t w) p = wtask w p"
  by (simp add: run_result_def started_def run_prepared_def wtask_updateTaskState Let_def)

lemma run_result_quiet: "w_quiet w \<Longrightarrow> w_quiet (run_result r e now t w)"
  by (simp add: w_quiet_def)

lemma RunTasks_runs:
  assumes "w_quiet w" and fifo: "fifo Q contents" and "contents (Queue w) = ts" and client: "NewClientOk api"
    and "\<forall>t \<in> set ts. State (wtask w t) = Pending" and "distinct (map (\<lambda>t. ID (wtask w t)) ts)"
    and "length nows = length ts"
  shows "\<exists>w'. RunTasks Q api nows w = Return () w' \<and> w_quiet w' \<and> contents (Queue w') = []
    \<and> (\<forall>t \<in> set ts. State (wtask w' t) \<in> {Running, Failed} \<and> TaskIds w' (ID (wtask w t)) = Some t)
    \<and> (\<forall>p. p \<notin> set ts \<longrightarrow> wtask w' p = wtask w p)
    \<and> (\<forall>u. u \<notin> (\<lambda>t. ID (wtask w t)) ` set ts \<longrightarrow> TaskIds w' u = TaskIds w u)"
  using assms
proof (induction ts arbitrary: w nows)
  case (Cons t ts)
  obtain now nows' where n: "nows = now # nows'" using Cons.prems(7) by (cases nows) auto
  obtain r dk eng where run: "Run api \<lparr>d_Config = NewConfig (wtask w t), ContainerId = []\<rparr> (engine w) = (r, dk, eng)"
    by (metis prod_cases3)
  have st: "State (wtask w t) \<in> {Pending, Scheduled}" using Cons.prems(5) by simp
  obtain q' where q': "contents q' = ts"
      "RunTasks_step Q api now w = Return () (run_result r eng now t (w\<lparr>Queue := q'\<rparr>))"
    using RunTasks_started [OF Cons.prems(1) fifo Cons.prems(3) st client run] by blast
  let ?v = "run_result r eng now t (w\<lparr>Queue := q'\<rparr>)"
  have other: "wtask ?v p = wtask w p" if "p \<noteq> t" for p by (simp add: run_result_other [OF that])
  have ids: "ID (wtask ?v p) = ID (wtask w p)" for p by simp
  have nt: "t \<notin> set ts" using Cons.prems(6) by auto
  have "\<forall>p \<in> set ts. State (wtask ?v p) = Pending" using Cons.prems(5) other nt by (metis list.set_intros(2))
  moreover have "distinct (map (\<lambda>t. ID (wtask ?v t)) ts)" using Cons.prems(6) unfolding ids by simp
  moreover have "w_quiet ?v" "contents (Queue ?v) = ts" using Cons.prems(1) q'(1) by (simp_all add: run_result_quiet)
  ultimately obtain w' where w': "RunTasks Q api nows' ?v = Return () w'" "w_quiet w'" "contents (Queue w') = []"
      "\<forall>p \<in> set ts. State (wtask w' p) \<in> {Running, Failed} \<and> TaskIds w' (ID (wtask ?v p)) = Some p"
      "\<forall>p. p \<notin> set ts \<longrightarrow> wtask w' p = wtask ?v p"
      "\<forall>u. u \<notin> (\<lambda>t. ID (wtask ?v t)) ` set ts \<longrightarrow> TaskIds w' u = TaskIds ?v u"
    using Cons.IH [of ?v nows'] fifo client Cons.prems(7) n by auto
  have "ID (wtask w t) \<notin> (\<lambda>t. ID (wtask w t)) ` set ts" using Cons.prems(6) by simp
  then have tab: "TaskIds w' (ID (wtask w t)) = Some t" using w'(6) unfolding ids by simp
  have own: "State (wtask w' t) \<in> {Running, Failed}" using w'(5) nt by simp
  have "RunTasks Q api nows w = Return () w'" using q'(2) w'(1) by (simp add: RunTasks_def n)
  moreover have "\<forall>p \<in> set (t # ts). State (wtask w' p) \<in> {Running, Failed} \<and> TaskIds w' (ID (wtask w p)) = Some p"
    using own tab w'(4) unfolding ids by simp
  moreover have "\<forall>p. p \<notin> set (t # ts) \<longrightarrow> wtask w' p = wtask w p" using w'(5) other by simp
  moreover have "\<forall>u. u \<notin> (\<lambda>t. ID (wtask w t)) ` set (t # ts) \<longrightarrow> TaskIds w' u = TaskIds w u"
    using w'(6) unfolding ids by simp
  ultimately show ?case using w'(2,3) by blast
qed (simp add: RunTasks_def)

section \<open>Ports\<close>

text \<open>What \<open>ParseInt\<close> gives against what \<open>Atoi\<close> gives, which reads the same texts.\<close>

definition parsed_as :: "go_int option \<Rightarrow> go_int \<Rightarrow> bool" where
  "parsed_as parsed v \<longleftrightarrow> (case parsed of Some x \<Rightarrow> v = x | None \<Rightarrow> v = 0 \<or> v = 2 ^ 63 - 1 \<or> v = - (2 ^ 63))"

lemma digits_value_grows: "digits_value acc s = Some n \<Longrightarrow> acc \<le> n"
proof (induction s arbitrary: acc)
  case (Cons c s)
  then obtain d where "digits_value (10 * acc + d) s = Some n" by (auto split: option.splits)
  then have "10 * acc + d \<le> n" by (rule Cons.IH)
  then show ?case by simp
qed simp

lemma ParseUint_cases:
  "case digits_value acc s of
     None \<Rightarrow> ParseUint acc s \<in> {None, Some (2 ^ 64 - 1)}
   | Some n \<Rightarrow> acc < 2 ^ 64 \<longrightarrow> ParseUint acc s = Some (if n < 2 ^ 64 then n else 2 ^ 64 - 1)"
proof (induction s arbitrary: acc)
  case (Cons c s)
  show ?case
  proof (cases "digit_value c")
    case (Some d)
    show ?thesis
      using Some Cons.IH [of "10 * acc + d"] digits_value_grows [of "10 * acc + d" s]
      by (auto split: option.splits)
  qed simp
qed simp

lemma clamped_value_signed:
  assumes "sign = 1 \<or> sign = - 1"
  shows "parsed_as (signed_value sign ds) (clamped_value sign ds)"
proof (cases "ds = [] \<or> digits_value 0 ds = None")
  case True
  then show ?thesis
    using assms ParseUint_cases [of 0 ds] by (auto simp: parsed_as_def signed_value_def clamped_value_def clamp_def)
next
  case False
  then obtain n where n: "ds \<noteq> []" "digits_value 0 ds = Some n" by auto
  then have u: "ParseUint 0 ds = Some (if n < 2 ^ 64 then n else 2 ^ 64 - 1)"
    using ParseUint_cases [of 0 ds] by simp
  show ?thesis
  proof (cases "in_int_range (sign * int n)")
    case True
    then have "n < 2 ^ 64" using assms by (auto simp: in_int_range_def)
    with n u True show ?thesis
      by (simp add: parsed_as_def signed_value_def clamped_value_def clamp_def in_int_range_def)
  next
    case out: False
    then have "clamped_value sign ds = 2 ^ 63 - 1 \<or> clamped_value sign ds = - (2 ^ 63)"
      using assms n u by (auto simp: clamped_value_def clamp_def in_int_range_def)
    with n out show ?thesis by (auto simp: parsed_as_def signed_value_def)
  qed
qed

lemma ParseInt_samples:
  "ParseInt_value ''9001'' = 9001" "ParseInt_value ''12a'' = 0" "ParseInt_value ''-'' = 0"
  "ParseInt_value ''99999999999999999999a'' = 2 ^ 63 - 1"
  "ParseInt_value ''-9223372036854775809'' = - (2 ^ 63)"
  by (simp_all add: clamped_value_def clamp_def digit_value_def)

lemma ParseInt_Atoi: "parsed_as (Atoi s) (ParseInt_value s)"
proof (cases s)
  case Nil
  then show ?thesis by (simp add: parsed_as_def)
next
  case (Cons c t)
  then show ?thesis by (simp add: clamped_value_signed)
qed

section \<open>Properties\<close>

text \<open>
  C17: when some worker can be scheduled and every post is accepted, the send loop empties the queue: as
  many rounds as there are pending tasks leave none of them pending, and each of them is Scheduled
  and on the list of a worker that could be scheduled.
\<close>

theorem ProcessTasks_drains:
  assumes "manager_wf contents m" and "quiet m" and "fifo Q contents" and "schedulable m \<noteq> []"
    and "\<forall>env \<in> set envs. accepting env" and "length envs = length (contents (PendingTasks m))"
  shows "\<exists>m'. ProcessTasks Q envs m = Return () m' \<and> manager_wf contents m' \<and> quiet m' \<and> contents (PendingTasks m') = []
    \<and> (\<forall>t \<in> set (contents (PendingTasks m)). State (task_at m' t) = Scheduled
        \<and> (\<exists>w \<in> set (schedulable m). TaskWorkerMap m' (ID (task_at m' t)) = Some w
            \<and> ID (task_at m' t) \<in> set (assigned_list m' w)))"
  using ProcessTasks_assigns [of contents m Q "contents (PendingTasks m)" "schedulable m" envs "{}"] assms
  unfolding sound_def assigned_def by auto

theorem ProcessTasks_drains_witness:
  "\<exists>m'. ProcessTasks list_queue [posting_env (\<lambda>w e. Posted 201 None)] sample_two = Return () m' \<and> PendingTasks m' = []
    \<and> State (task_at m' 0) = Scheduled"
proof -
  let ?envs = "[posting_env (\<lambda>w e. Posted 201 None)]"
  have queue: "PendingTasks sample_two = [0]" using sample_two_send(1) [OF refl] by simp
  have "\<forall>env \<in> set ?envs. accepting env" "length ?envs = length (PendingTasks sample_two)" "schedulable sample_two \<noteq> []"
    by (simp_all add: accepting_def posting_env_def queue sample_two_send(2))
  then show ?thesis
    using ProcessTasks_drains [OF sample_two_ok fifo_list_queue, of ?envs] queue by auto
qed

text \<open>
  C18: with a Docker client the run loop of the worker empties a queue of new tasks: as many rounds as
  there are tasks leave the queue empty and the lock free, every task in the table under its
  identifier and Running or Failed, the other tasks as they were.
\<close>

theorem RunTasks_drains:
  assumes "w_quiet w" and "fifo Q contents" and "NewClientOk api"
    and "\<forall>t \<in> set (contents (Queue w)). State (wtask w t) = Pending"
    and "distinct (map (\<lambda>t. ID (wtask w t)) (contents (Queue w)))" and "length nows = length (contents (Queue w))"
  shows "\<exists>w'. RunTasks Q api nows w = Return () w' \<and> w_quiet w' \<and> contents (Queue w') = []
    \<and> (\<forall>t \<in> set (contents (Queue w)). State (wtask w' t) \<in> {Running, Failed} \<and> TaskIds w' (ID (wtask w t)) = Some t)
    \<and> (\<forall>p. p \<notin> set (contents (Queue w)) \<longrightarrow> wtask w' p = wtask w p)"
  using RunTasks_runs [OF assms(1,2) refl assms(3-6)] by blast

theorem RunTasks_drains_witness:
  "\<exists>w'. RunTasks list_queue sample_docker [70] one_task = Return () w' \<and> Queue w' = []
    \<and> State (wtask w' 0) \<in> {Running, Failed} \<and> TaskIds w' 3 = Some 0"
proof -
  have "w_quiet one_task" by (simp add: w_quiet_def one_task_facts)
  then show ?thesis
    using RunTasks_drains [OF _ fifo_list_queue, of one_task sample_docker "[70]"]
    by (auto simp: one_task_facts zero_task_def sample_docker_def)
qed

text \<open>
  C19: started with the mutex free, and each run without another goroutine in between, the update
  loop and the clean-up loop of the manager get through any number of rounds without a panic and
  without waiting: whatever the workers answer, as long as no list has a null in it, and whatever
  the clock says, the mutex is free again and the manager well formed after every round, and the
  update loop forgets no task. (Among other goroutines they can come to wait for ever, see
  \<open>nested_read_locks_deadlock\<close> and \<open>dead_reader_is_for_ever\<close>.)
\<close>

theorem manager_loops_go_on:
  assumes wf: "manager_wf contents m" and q: "quiet m"
    and answers: "\<forall>replies \<in> set rounds. \<forall>r \<in> set replies. no_null_entry (snd r)"
  shows "(\<exists>m'. UpdateTasks rounds m = Return () m' \<and> manager_wf contents m' \<and> quiet m' \<and> dom (TaskDb m) \<subseteq> dom (TaskDb m'))
    \<and> (\<exists>m'. StartBackgroundCleanup ticks m = Return () m' \<and> manager_wf contents m' \<and> quiet m')"
proof
  let ?I = "\<lambda>n. sound contents n \<and> dom (TaskDb m) \<subseteq> dom (TaskDb n)"
  have "\<exists>m'. UpdateTasks rounds m = Return () m' \<and> ?I m'"
    unfolding UpdateTasks_def
  proof (rule for_each_total [where I = ?I])
    fix replies n
    assume "replies \<in> set rounds" "?I n"
    then show "\<exists>t. andthen (updateTasks replies n) (\<lambda>err. Return ()) = Return () t \<and> ?I t"
      using UpdateTasks_round [of contents n replies] answers by blast
  qed (use wf q in \<open>simp add: sound_def\<close>)
  then show "\<exists>m'. UpdateTasks rounds m = Return () m' \<and> manager_wf contents m' \<and> quiet m' \<and> dom (TaskDb m) \<subseteq> dom (TaskDb m')"
    by (auto simp: sound_def)
  have "\<exists>m'. StartBackgroundCleanup ticks m = Return () m' \<and> sound contents m'"
    unfolding StartBackgroundCleanup_def
  proof (rule for_each_total [where I = "sound contents"])
    fix tick :: "uuid list \<times> time" and n :: "'a manager"
    assume "sound contents n"
    then show "\<exists>t. (case tick of (order, now) \<Rightarrow> CleanUpTasks order now) n = Return () t \<and> sound contents t"
      using StartBackgroundCleanup_round by (cases tick) simp
  qed (use wf q in \<open>simp add: sound_def\<close>)
  then show "\<exists>m'. StartBackgroundCleanup ticks m = Return () m' \<and> manager_wf contents m' \<and> quiet m'"
    by (auto simp: sound_def)
qed

theorem manager_loops_go_on_witness:
  "(\<exists>m'. UpdateTasks [[(''w1'', TransportError ''timeout'')], [(''w2'', Response 200 (Inr [Some running_report]))]] sample_two
      = Return () m' \<and> quiet m') \<and> (\<exists>m'. StartBackgroundCleanup [([1, 2], hours 30)] sample_two = Return () m')"
proof -
  have "\<forall>replies \<in> set [[(''w1'', TransportError ''timeout'')], [(''w2'', Response 200 (Inr [Some running_report]))]].
      \<forall>r \<in> set replies. no_null_entry (snd r)"
    by (simp add: no_nil_def)
  from manager_loops_go_on [OF sample_two_ok this, of "[([1, 2], hours 30)]"] show ?thesis by blast
qed

text \<open>
  The worker's port. A text that \<open>Atoi\<close> accepts gives that number, and the server's address is the
  host, a colon and the number. Every other text is taken as well, without an error: the port is
  then 0, and the server listens on one the system chooses, or the end of the range of \<open>int64\<close>.
\<close>

theorem worker_process_port:
  "\<exists>p. worker_process Q host portStr None d = Inr p \<and> b_Address (wp_Api p) = host
    \<and> (case Atoi portStr of
         Some v \<Rightarrow> host_port (b_Address (wp_Api p)) (b_Port (wp_Api p)) = host @ '':'' @ show_int v
       | None \<Rightarrow> host_port (b_Address (wp_Api p)) (b_Port (wp_Api p))
           \<in> {host @ '':0'', host @ '':9223372036854775807'', host @ '':-9223372036854775808''})"
proof -
  have ends: "show_int 0 = ''0''" "show_int (2 ^ 63 - 1) = ''9223372036854775807''"
      "show_int (- (2 ^ 63)) = ''-9223372036854775808''"
    by (simp_all add: show_int_def show_nat.simps char_of_def bit_Suc_0_iff)
  obtain w where w: "worker_main Q None d = Inr w" by (simp add: worker_main_def)
  have "parsed_as (Atoi portStr) (ParseInt_value portStr)" by (rule ParseInt_Atoi)
  with w ends show ?thesis
    by (auto simp: worker_process_def host_port_def parsed_as_def split: option.splits)
qed

end
