(* ===== verification/Spec2Isabelle.thy ===== *)
theory Spec2Isabelle
  imports Cluster Processes Round_Robin Manager_Spec Routing Worker_System Loops
begin

text \<open>
  Minkube: a manager process that accepts tasks over HTTP and sends them to workers, and a worker
  process that runs each task as a Docker container. This library models both processes, shows what
  their operations do, and states where they do not do what they mean to.

  \<^bold>\<open>How the program works.\<close> A client POSTs a task to the manager's API (\<open>internal/manager/http\<close>), which
  checks the key, validates the request and calls \<open>AddTask\<close> of the manager (\<open>internal/manager\<close>): the
  task enters a FIFO queue, a database by identifier and a listing sorted by start time. A loop
  (\<open>SendWork\<close>) takes one task at a time off the queue, selects a worker round robin among those that are
  healthy and ready, and POSTs the task to it. The worker's API (\<open>internal/worker/http\<close>) gives the task a
  new identifier and queues it; the worker's loop (\<open>internal/worker/service\<close>) starts a container for it
  through the wrapper in \<open>task\<close>. A second loop of the manager (\<open>updateTasks\<close>) reads the tasks of all
  workers and merges their states; a third asks their health; a fourth removes old finished tasks.
  All of them share the manager's record under one read-write mutex, as the loops and handlers of a
  worker share the worker's.

  \<^bold>\<open>Theories.\<close> In the order of the imports:
  \<^item> \<open>Prelude\<close>: 64-bit integers, outcomes of Go code (return, panic, wait for ever), loops, slices.
  \<^item> \<open>Go_Sync\<close>, \<open>Go_Strings\<close>, \<open>Utf8\<close>, \<open>Go_Http\<close>, \<open>Pages\<close>: what the program uses of Go's standard library
    (\<open>sync.RWMutex\<close>; \<open>strings\<close>, \<open>strconv\<close>; \<open>unicode/utf8\<close>; \<open>net/http\<close> and the contract of a middleware) and the
    arithmetic of pages both APIs do.
  \<^item> \<open>Task\<close> (\<open>src/task/\<close>, \<open>src/node/\<close>): tasks, states, events, the store of task cells, and the wrapper around
    the Docker client. \<open>Scheduler\<close> (\<open>src/scheduler/\<close>): the interface and the round-robin stub. \<open>Task_Queue\<close>:
    the third-party queue both processes use.
  \<^item> \<open>Worker_State\<close>, \<open>Sorted_Tasks\<close>, \<open>Manager_State\<close>, \<open>Manager_Tasks\<close>, \<open>Manager_Sched\<close>, \<open>Manager_Sync\<close>
    (\<open>src/internal/manager/manager.go\<close>): the manager's record; the sorted listing and its binary search;
    \<open>AddTask\<close> and \<open>CleanUpTasks\<close>; worker selection and health; \<open>updateTasks\<close> and \<open>SendWork\<close>.
  \<^item> \<open>Manager_Auth\<close>, \<open>Manager_Http\<close> (\<open>src/internal/manager/http/\<close>): keys, permissions, rate limits and the
    middleware chain; the three handlers of the manager's API.
  \<^item> \<open>Manager_System\<close>: the manager as a transition system over all its operations, each in one piece.
    \<open>Manager_Spec\<close>: an abstract manager, the \<open>fleet\<close>, a specification of each operation as a function on
    fleets, and that every operation has exactly the effect of its specification.
  \<^item> \<open>Goroutines\<close>, \<open>Goroutine_Runs\<close>, \<open>Manager_Concurrent\<close>: the manager's goroutines as program counters,
    interleaved at every operation on the mutex; runs of a goroutine on its own; the properties of
    the interleaved manager and its relation to \<open>Manager_System\<close>. \<open>Round_Robin\<close>: its index in 64 bits.
  \<^item> \<open>Go_Router\<close>, \<open>Routing\<close> (\<open>api.go\<close> of both processes): what \<open>initRouter\<close> registers, the servers \<open>Start\<close>
    makes, and a request's way through router and middlewares to a handler.
  \<^item> \<open>Stats\<close>, \<open>Docker_Stream\<close>, \<open>Worker\<close>, \<open>Worker_Http\<close> (\<open>src/internal/worker/\<close>): the statistics; the decoder of
    Docker's log stream; the worker's record, its run loop and its monitor; the handlers of its API.
  \<^item> \<open>Worker_System\<close>: the worker as a transition system; its run loop is cut at its locked regions and its
    monitor between two tasks, and requests come in between.
  \<^item> \<open>Cluster\<close>: manager and worker together. \<open>Processes\<close> (\<open>src/cmd/\<close>, \<open>src/minkube.go\<close>): the states both
    start in. \<open>Loops\<close>: the endless loops of both as rounds over a list of inputs, the addresses of the
    APIs and which goroutines \<open>main\<close> starts.

  \<^bold>\<open>State and pointers.\<close> A record has the fields of the Go struct. The containers of a process hold
  pointers to tasks that alias each other, so a process has a store of task cells and its containers
  hold cell numbers: writing the state of a task through the database is seen through the listing
  and the queue. A nil pointer is \<open>None\<close>, a Go map a partial map, \<open>int\<close> a 64-bit word, with two
  exceptions. \<open>lastWorker\<close> is a natural number, and \<open>round_robin_in_64_bits\<close> shows that no reachable state
  of the manager can tell the difference. A task's state is one of the five the code writes; another
  number in a JSON message has no counterpart.

  \<^bold>\<open>Interfaces.\<close> Four locales state the contracts the components rely on, and each is interpreted on
  the model: \<open>lockable\<close>, a record with a mutex in it (the manager and the worker); \<open>middleware\<close>, a
  wrapper that only lets a request through or answers it itself (authentication and correlation;
  the rate limiter satisfies it on the endpoints that have a limit and not on the others);
  \<open>framing\<close>, an encoder and a decoder that agree (Docker's frames); \<open>scheduler\<close> (the round robin).

  \<^bold>\<open>What is shown.\<close> For each operation of the manager an exact result on a state whose mutex is free
  (the lemmas \<open>..._quiet\<close>), and with them the properties: the containers are well formed in every
  reachable state (\<open>manager_wf\<close>), with the operations in one piece and with the goroutines interleaved;
  every operation has exactly the effect its specification has on a fleet; \<open>AddTask\<close> lists a task once
  and \<open>InsertSorted\<close> agrees with a linear insertion; \<open>CleanUpTasks\<close> removes what is expired and
  nothing else; the selection is sound and fair; a task that is sent is recorded in all maps,
  requeued or lost, and exactly when, and interleaving neither loses nor doubles one; a report of a
  worker is reconciled; the middleware chain admits exactly the authorised requests and no other
  request, on whatever route, changes the manager; replies have their type; the pages of the
  listing are a partition of it; run without interference the loops go on and drain their queues.
  For the worker: the
  invariant of its table and queue, the life of a task, what a round of the run loop and of the
  monitor does, that the log reader inverts Docker's framing, what the handlers answer.

  Several properties state defects: a page number that overflows panics with the read lock held, and
  no writer ever gets in again, whatever the other goroutines do; a worker name that gives no valid
  URL ends the manager in its first health check; the log of a task is read after its request was
  cancelled, so it is cut off or empty; taking the read lock twice deadlocks the manager; a stopped task is
  sent out again as a new one; a worker that is told to stop a task waits for its own lock for ever
  and goes on accepting tasks; a stop can be undone by the monitor; tasks are lost when no worker is
  ready; manager and worker disagree on identifiers. Further theorems outside the list of properties
  state that DELETE needs no permission, that merging breaks the order of the listing and lists tasks
  twice, that memory sizes wrap, and that the worker's API has no authentication.

  \<^bold>\<open>Parameters.\<close> The third-party queue (\<open>queue_api\<close>, with the first-in first-out law \<open>fifo\<close> as a hypothesis
  that \<open>list_queue\<close> satisfies), the Docker engine (\<open>docker_api\<close>; the only law is that a cancelled log
  reader delivers a first part of what it would have delivered), \<open>chi\<close> (\<open>chi_ok\<close>: what it matches was
  registered, behind its middlewares), \<open>encoding/json\<close>, \<open>uuid\<close> and the network: what a decoder, a generator or a peer gives is an input of the operation. The clock and
  the order in which Go enumerates a map are inputs too.

  \<^bold>\<open>Bounds.\<close> No fuel is used: the loops of the model end by structure or by a measure (the interval of
  the binary search, the bytes left in a stream). The endless loops of the program are modelled by
  one round and, in \<open>Loops\<close>, by any number of rounds. Properties of the listing assume fewer than 2 to
  the 62 tasks.

  \<^bold>\<open>How fine the interleaving is.\<close> In \<open>Manager_System\<close> and \<open>Manager_Spec\<close> an operation is one step. In \<open>Goroutines\<close>
  a step leads from one operation on the mutex to the next, so a writer can announce itself between
  two read locks; \<open>interleaving_covers_operations\<close> relates the two. The worker is cut at the locked
  regions of its run loop and between the tasks its monitor inspects; the inspection of one task
  and each handler are one step. The queue operations the worker makes without its lock are atomic:
  what a data race does to the third-party queue is not modelled.

  \<^bold>\<open>What is not modelled.\<close> Log lines are left out unless they can panic. \<open>float64\<close> is a real without
  rounding. How \<open>chi\<close> matches a path, the enforcement of the server's and the client's timeouts, the
  static web pages, \<open>pprof\<close>, signal handling and the sleeping between rounds are not modelled, nor are
  the settings of \<open>httpClient\<close>, whose effect is an input of the operations that use it.
\<close>

end
